(* ===== verification/Prelude.thy ===== *)
theory Prelude
  imports Main "HOL-Library.Word"
begin

text \<open>
  Shared vocabulary of the development: the machine integers and byte strings of the proxy,
  its error values, the result type every fallible operation returns, big-endian encoding,
  and the small library lemmas the component theories rely on.

  \<^item> \<open>fault\<close> has one constructor per way a Rust operation can fail to return a value: an
    \<open>std::io::Error\<close> with its kind and message, or a panic (\<open>unwrap\<close> on \<open>None\<close>, an index out of
    range).  A result of type \<open>'a io\<close> is \<open>Inl\<close> of a fault or \<open>Inr\<close> of the value.
  \<^item> A Rust \<open>String\<close> is the list of its UTF-8 bytes, held as HOL characters;
    \<open>bytes_of_str\<close> and \<open>str_of_bytes\<close> move between it and a byte vector.
\<close>

section \<open>Machine types\<close>

type_synonym u8 = "8 word"
type_synonym u16 = "16 word"
type_synonym u32 = "32 word"
type_synonym u64 = "64 word"
type_synonym bytes = "u8 list"

section \<open>Errors and results\<close>

datatype error_kind =
    NotFound
  | PermissionDenied
  | NotConnected
  | ConnectionAborted
  | BrokenPipe
  | InvalidInput
  | InvalidData
  | TimedOut
  | Interrupted
  | UnexpectedEof
  | Other

datatype fault = IoError error_kind string | Panic string

type_synonym 'a io = "fault + 'a"

text \<open>The \<open>?\<close> operator: the first fault is the result.\<close>

definition io_bind :: "'a io \<Rightarrow> ('a \<Rightarrow> 'b io) \<Rightarrow> 'b io" where
  "io_bind r k = (case r of Inl e \<Rightarrow> Inl e | Inr a \<Rightarrow> k a)"

named_theorems io_simps \<open>evaluation of results\<close>

lemma io_bind_Inl [simp, io_simps]: "io_bind (Inl e) k = Inl e"
  by (simp add: io_bind_def)

lemma io_bind_Inr [simp, io_simps]: "io_bind (Inr a) k = k a"
  by (simp add: io_bind_def)

lemma io_bind_eq_Inr: "io_bind r k = Inr b \<longleftrightarrow> (\<exists>a. r = Inr a \<and> k a = Inr b)"
  by (cases r) simp_all

definition is_panic :: "'a io \<Rightarrow> bool" where
  "is_panic r = (case r of Inl (Panic _) \<Rightarrow> True | _ \<Rightarrow> False)"

lemma is_panic_simps [simp]:
  "\<not> is_panic (Inr a)" "is_panic (Inl (Panic m))" "\<not> is_panic (Inl (IoError k m))"
  by (simp_all add: is_panic_def)

text \<open>
  An operation on \<open>&mut self\<close> takes the state and returns it updated, with its result; the state
  keeps what was done before a fault.  \<open>st_bind\<close> is \<open>?\<close> for such operations.
\<close>

type_synonym ('s, 'a) op = "'s \<Rightarrow> 's \<times> 'a io"

definition st_ret :: "'a \<Rightarrow> ('s, 'a) op" where
  "st_ret a s = (s, Inr a)"

definition st_fail :: "fault \<Rightarrow> ('s, 'a) op" where
  "st_fail e s = (s, Inl e)"

definition st_bind :: "('s, 'a) op \<Rightarrow> ('a \<Rightarrow> ('s, 'b) op) \<Rightarrow> ('s, 'b) op" where
  "st_bind m k s = (case m s of (s', Inl e) \<Rightarrow> (s', Inl e) | (s', Inr a) \<Rightarrow> k a s')"

lemma st_ret_apply [simp, io_simps]: "st_ret a s = (s, Inr a)"
  by (simp add: st_ret_def)

lemma st_fail_apply [simp, io_simps]: "st_fail e s = (s, Inl e)"
  by (simp add: st_fail_def)

lemma st_bind_Inr: "m s = (s', Inr a) \<Longrightarrow> st_bind m k s = k a s'"
  by (simp add: st_bind_def)

lemma st_bind_Inl: "m s = (s', Inl e) \<Longrightarrow> st_bind m k s = (s', Inl e)"
  by (simp add: st_bind_def)

lemma st_bind_eq_Inr:
  "st_bind m k s = (t, Inr b) \<longleftrightarrow> (\<exists>u a. m s = (u, Inr a) \<and> k a u = (t, Inr b))"
  by (auto simp: st_bind_def split: prod.splits sum.splits)

definition unwrap :: "'a option \<Rightarrow> 'a io" where
  "unwrap x = (case x of None \<Rightarrow> Inl (Panic ''called unwrap on a None value'') | Some a \<Rightarrow> Inr a)"

lemma unwrap_simps [simp, io_simps]:
  "unwrap None = Inl (Panic ''called unwrap on a None value'')" "unwrap (Some a) = Inr a"
  by (simp_all add: unwrap_def)

section \<open>Slices\<close>

definition index :: "'a list \<Rightarrow> nat \<Rightarrow> 'a io" where
  "index xs i = (if i < length xs then Inr (xs ! i) else Inl (Panic ''index out of bounds''))"

definition slice :: "'a list \<Rightarrow> nat \<Rightarrow> nat \<Rightarrow> 'a list io" where
  "slice xs i j =
     (if i \<le> j \<and> j \<le> length xs then Inr (take (j - i) (drop i xs))
      else Inl (Panic ''range out of bounds''))"

lemma index_ok [simp, io_simps]: "i < length xs \<Longrightarrow> index xs i = Inr (xs ! i)"
  by (simp add: index_def)

lemma slice_ok [io_simps]:
  "i \<le> j \<Longrightarrow> j \<le> length xs \<Longrightarrow> slice xs i j = Inr (take (j - i) (drop i xs))"
  by (simp add: slice_def)

section \<open>Word bounds\<close>

lemma unat_u8_less [simp]: "unat (b :: u8) < 256"
  by (rule order.strict_trans2 [OF unsigned_less]) simp

lemma unat_u16_less [simp]: "unat (x :: u16) < 65536"
  by (rule order.strict_trans2 [OF unsigned_less]) simp

lemma unat_u32_less [simp]: "unat (x :: u32) < 4294967296"
  by (rule order.strict_trans2 [OF unsigned_less]) simp

lemma unat_u64_less [simp]: "unat (x :: u64) < 18446744073709551616"
  by (rule order.strict_trans2 [OF unsigned_less]) simp

lemma unat_le_max [simp]:
  "unat (b :: u8) \<le> 255" "unat (x :: u16) \<le> 65535" "unat (y :: u32) \<le> 4294967295"
  "unat (z :: u64) \<le> 18446744073709551615"
  using unat_u8_less [of b] unat_u16_less [of x] unat_u32_less [of y] unat_u64_less [of z]
  by linarith+

text \<open>The casts between port types: \<open>as u32\<close> keeps the number, \<open>as u16\<close> drops the upper half.\<close>

definition u32_of_port :: "u16 \<Rightarrow> u32" where "u32_of_port p = ucast p"
definition port_of_u32 :: "u32 \<Rightarrow> u16" where "port_of_u32 p = ucast p"

lemma port_of_u32_of_port [simp]: "port_of_u32 (u32_of_port p) = p"
  by (simp add: port_of_u32_def u32_of_port_def ucast_down_ucast_id is_down)

lemma unat_port_of_u32: "unat (port_of_u32 p) = unat p mod 65536"
  by (simp add: port_of_u32_def unsigned_ucast_eq take_bit_eq_mod)

section \<open>Byte strings\<close>

definition bytes_of_str :: "string \<Rightarrow> bytes" where
  "bytes_of_str s = map (\<lambda>c. word_of_nat (of_char c)) s"

definition str_of_bytes :: "bytes \<Rightarrow> string" where
  "str_of_bytes b = map (\<lambda>w. char_of (unat w)) b"

lemma str_of_bytes_of_str [simp]: "str_of_bytes (bytes_of_str s) = s"
  by (induction s)
    (simp_all add: str_of_bytes_def bytes_of_str_def unat_of_nat take_bit_eq_mod)

lemma u8_of_char_of: "(word_of_nat (of_char (char_of (unat (w :: u8)) :: char)) :: u8) = w"
proof -
  have "of_char (char_of (unat w) :: char) = unat w"
    using unat_u8_less [of w] by simp
  then show ?thesis by (simp del: of_char_of)
qed

lemma bytes_of_str_of_bytes [simp]: "bytes_of_str (str_of_bytes b) = b"
  by (simp add: str_of_bytes_def bytes_of_str_def comp_def u8_of_char_of del: of_char_of)

lemma length_bytes_of_str [simp]: "length (bytes_of_str s) = length s"
  by (simp add: bytes_of_str_def)

lemma length_str_of_bytes [simp]: "length (str_of_bytes b) = length b"
  by (simp add: str_of_bytes_def)

lemma bytes_of_str_append [simp]: "bytes_of_str (s @ t) = bytes_of_str s @ bytes_of_str t"
  by (simp add: bytes_of_str_def)

lemma str_of_bytes_append [simp]: "str_of_bytes (s @ t) = str_of_bytes s @ str_of_bytes t"
  by (simp add: str_of_bytes_def)

lemma bytes_of_str_Nil [simp]: "bytes_of_str [] = []" "bytes_of_str s = [] \<longleftrightarrow> s = []"
  by (simp_all add: bytes_of_str_def)

lemma str_of_bytes_Nil [simp]: "str_of_bytes [] = []" "str_of_bytes b = [] \<longleftrightarrow> b = []"
  by (simp_all add: str_of_bytes_def)

lemma bytes_of_str_inj [simp]: "bytes_of_str s = bytes_of_str t \<longleftrightarrow> s = t"
  by (metis str_of_bytes_of_str)

section \<open>Big-endian encoding\<close>

text \<open>
  \<open>be_enc k n\<close> is the \<open>k\<close>-byte big-endian form of \<open>n\<close> (\<open>to_be_bytes\<close>), \<open>be_dec\<close> reads such a
  form back (\<open>from_be_bytes\<close>).
\<close>

fun be_enc :: "nat \<Rightarrow> nat \<Rightarrow> bytes" where
  "be_enc 0 n = []"
| "be_enc (Suc k) n = be_enc k (n div 256) @ [word_of_nat n]"

definition be_dec :: "bytes \<Rightarrow> nat" where
  "be_dec bs = foldl (\<lambda>n b. 256 * n + unat b) 0 bs"

lemma be_dec_Nil [simp]: "be_dec [] = 0"
  by (simp add: be_dec_def)

lemma be_dec_snoc [simp]: "be_dec (bs @ [b]) = 256 * be_dec bs + unat b"
  by (simp add: be_dec_def)

lemma length_be_enc [simp]: "length (be_enc k n) = k"
  by (induction k arbitrary: n) simp_all

lemma unat_u8_of_nat: "unat (word_of_nat n :: u8) = n mod 256"
  by (simp add: unat_of_nat take_bit_eq_mod)

lemma be_dec_enc: "be_dec (be_enc k n) = n mod 256 ^ k"
proof (induction k arbitrary: n)
  case 0
  then show ?case by simp
next
  case (Suc k)
  have "n mod 256 ^ Suc k = 256 * (n div 256 mod 256 ^ k) + n mod 256"
    by (simp add: mod_mult2_eq mult.commute)
  then show ?case by (simp add: Suc.IH unat_u8_of_nat)
qed

lemma be_dec_less: "be_dec bs < 256 ^ length bs"
proof (induction bs rule: rev_induct)
  case Nil
  then show ?case by simp
next
  case (snoc b bs)
  have "256 * be_dec bs + unat b < 256 * Suc (be_dec bs)"
    using unat_u8_less [of b] by simp
  also have "\<dots> \<le> 256 * 256 ^ length bs"
    using snoc by (intro mult_le_mono2) simp
  finally show ?case by simp
qed

lemma be_enc_dec: "be_enc (length bs) (be_dec bs) = bs"
proof (induction bs rule: rev_induct)
  case Nil
  then show ?case by simp
next
  case (snoc b bs)
  have "(256 * be_dec bs + unat b) div 256 = be_dec bs"
    by simp
  moreover have "(word_of_nat (256 * be_dec bs + unat b) :: u8) = b"
  proof -
    have "unat (word_of_nat (256 * be_dec bs + unat b) :: u8) = unat b"
      by (simp only: unat_u8_of_nat) (simp add: mod_mult_self3)
    then show ?thesis by (simp only: word_unat_eq_iff)
  qed
  ultimately show ?case using snoc by simp
qed

definition be16 :: "u16 \<Rightarrow> bytes" where
  "be16 x = be_enc 2 (unat x)"

definition of_be16 :: "bytes \<Rightarrow> u16" where
  "of_be16 bs = word_of_nat (be_dec bs)"

definition be64 :: "u64 \<Rightarrow> bytes" where
  "be64 x = be_enc 8 (unat x)"

definition of_be64 :: "bytes \<Rightarrow> u64" where
  "of_be64 bs = word_of_nat (be_dec bs)"

lemma length_be16 [simp]: "length (be16 x) = 2"
  by (simp add: be16_def)

lemma length_be64 [simp]: "length (be64 x) = 8"
  by (simp add: be64_def)

lemma of_be16_be16 [simp]: "of_be16 (be16 x) = x"
  by (simp add: of_be16_def be16_def be_dec_enc)

lemma of_be64_be64 [simp]: "of_be64 (be64 x) = x"
  by (simp add: of_be64_def be64_def be_dec_enc)

lemma be16_of_be16: "length bs = 2 \<Longrightarrow> be16 (of_be16 bs) = bs"
  using be_dec_less [of bs] be_enc_dec [of bs]
  by (simp add: of_be16_def be16_def unat_of_nat take_bit_eq_mod)

lemma be64_of_be64: "length bs = 8 \<Longrightarrow> be64 (of_be64 bs) = bs"
  using be_dec_less [of bs] be_enc_dec [of bs]
  by (simp add: of_be64_def be64_def unat_of_nat take_bit_eq_mod)

lemma be16_Cons: "be16 x = [be16 x ! 0, be16 x ! 1]"
proof -
  obtain a b where "be16 x = [a, b]"
    using length_be16 [of x] unfolding numeral_2_eq_2 length_Suc_conv by auto
  then show ?thesis by simp
qed

section \<open>Lists and maps\<close>

lemma take_append_self [simp]: "take (length xs) (xs @ ys) = xs" "drop (length xs) (xs @ ys) = ys"
  by simp_all

lemma sum_dom_upd:
  fixes f :: "'v \<Rightarrow> nat"
  assumes "finite (dom m)" and "m k = Some v"
  shows "(\<Sum>j\<in>dom (m(k \<mapsto> w)). f (the ((m(k \<mapsto> w)) j))) + f v = (\<Sum>j\<in>dom m. f (the (m j))) + f w"
proof -
  have k: "k \<in> dom m" using assms by auto
  have "(\<Sum>j\<in>dom m. f (the (m j))) = f v + (\<Sum>j\<in>dom m - {k}. f (the (m j)))"
    using sum.remove [OF assms(1) k, of "\<lambda>j. f (the (m j))"] assms(2) by simp
  moreover have "(\<Sum>j\<in>dom m - {k}. f (the ((m(k \<mapsto> w)) j))) = (\<Sum>j\<in>dom m - {k}. f (the (m j)))"
    by (intro sum.cong) auto
  then have "(\<Sum>j\<in>dom m. f (the ((m(k \<mapsto> w)) j))) = f w + (\<Sum>j\<in>dom m - {k}. f (the (m j)))"
    using sum.remove [OF assms(1) k, of "\<lambda>j. f (the ((m(k \<mapsto> w)) j))"] by simp
  moreover have "dom (m(k \<mapsto> w)) = dom m" using k by auto
  ultimately show ?thesis by simp
qed

lemma sum_dom_insert:
  fixes f :: "'v \<Rightarrow> nat"
  assumes "finite (dom m)" and "m k = None"
  shows "(\<Sum>j\<in>dom (m(k \<mapsto> w)). f (the ((m(k \<mapsto> w)) j))) = (\<Sum>j\<in>dom m. f (the (m j))) + f w"
proof -
  have k: "k \<notin> dom m" using assms(2) by auto
  then have "(\<Sum>j\<in>dom m. f (the ((m(k \<mapsto> w)) j))) = (\<Sum>j\<in>dom m. f (the (m j)))"
    by (intro sum.cong) auto
  with k assms(1) show ?thesis by simp
qed

lemma sum_dom_remove:
  fixes f :: "'v \<Rightarrow> nat"
  assumes "finite (dom m)" and "m k = Some v"
  shows "(\<Sum>j\<in>dom (m(k := None)). f (the ((m(k := None)) j))) + f v = (\<Sum>j\<in>dom m. f (the (m j)))"
proof -
  have k: "k \<in> dom m" using assms by auto
  have "(\<Sum>j\<in>dom m - {k}. f (the ((m(k := None)) j))) = (\<Sum>j\<in>dom m - {k}. f (the (m j)))"
    by (intro sum.cong) auto
  with sum.remove [OF assms(1) k, of "\<lambda>j. f (the (m j))"] assms(2) show ?thesis by simp
qed

lemmas sum_dom_simps = sum_dom_upd sum_dom_insert sum_dom_remove

end
