(* ===== verification/Rust_Std.thy ===== *)
theory Rust_Std
  imports Prelude
begin

text \<open>
  The operations of Rust's \<open>str\<close> and integer types the program uses, on UTF-8 byte strings:
  prefixes and suffixes, searching and splitting, \<open>trim\<close>, \<open>to_lowercase\<close>, validity of
  UTF-8, printing a number and \<open>from_str\<close> on unsigned integers.

  \<^item> \<open>trim\<close> removes the characters with Unicode property White\_Space, written out in their UTF-8
    form (one, two and three bytes).
  \<^item> \<open>to_lowercase\<close> is exact on ASCII and on the two other characters whose lower case contains
    an ASCII letter (the Kelvin sign and the capital I with a dot above); every other character
    keeps its bytes.  Its results are only ever compared with ASCII text, which no other
    character's lower case contains.
\<close>

section \<open>Prefixes, suffixes, search\<close>

definition starts_with :: "string \<Rightarrow> string \<Rightarrow> bool" where
  "starts_with s p \<longleftrightarrow> take (length p) s = p"

definition ends_with :: "string \<Rightarrow> string \<Rightarrow> bool" where
  "ends_with s p \<longleftrightarrow> length p \<le> length s \<and> drop (length s - length p) s = p"

definition strip_prefix :: "string \<Rightarrow> string \<Rightarrow> string option" where
  "strip_prefix s p = (if starts_with s p then Some (drop (length p) s) else None)"

fun str_find :: "'a list \<Rightarrow> 'a list \<Rightarrow> nat option" where
  "str_find [] p = (if p = [] then Some 0 else None)"
| "str_find (c # s) p =
     (if take (length p) (c # s) = p then Some 0 else map_option Suc (str_find s p))"

definition str_contains :: "string \<Rightarrow> string \<Rightarrow> bool" where
  "str_contains s p \<longleftrightarrow> str_find s p \<noteq> None"

lemma starts_with_append [simp]: "starts_with (p @ s) p"
  by (simp add: starts_with_def)

lemma starts_with_iff: "starts_with s p \<longleftrightarrow> (\<exists>r. s = p @ r)"
  unfolding starts_with_def by (metis append_eq_conv_conj append_take_drop_id)

lemma ends_with_iff: "ends_with s p \<longleftrightarrow> (\<exists>r. s = r @ p)"
  unfolding ends_with_def
  by (metis add_diff_cancel_right' append_eq_conv_conj append_take_drop_id le_add2 length_append)

lemma str_find_Some:
  "str_find s p = Some i \<Longrightarrow> take (length p) (drop i s) = p \<and> i + length p \<le> length s"
proof (induction s p arbitrary: i rule: str_find.induct)
  case (1 p)
  then show ?case by (auto split: if_splits)
next
  case (2 c s p)
  show ?case
  proof (cases "take (length p) (c # s) = p")
    case True
    then have "length p \<le> length (c # s)" by (metis length_take min.cobounded1)
    with 2 True show ?thesis by auto
  next
    case False
    with 2 show ?thesis by auto
  qed
qed

lemma str_find_split: "str_find s p = Some i \<Longrightarrow> s = take i s @ p @ drop (i + length p) s"
  using str_find_Some [of s p i]
  by (metis add.commute append_take_drop_id drop_drop)

lemma str_find_None: "str_find s p = None \<Longrightarrow> take (length p) (drop i s) \<noteq> p \<or> p = []"
proof (induction s p arbitrary: i rule: str_find.induct)
  case (1 p)
  then show ?case by (auto split: if_splits)
next
  case (2 c s p)
  then show ?case by (cases i) (auto split: if_splits)
qed

lemma str_find_first: "str_find s p = Some i \<Longrightarrow> j < i \<Longrightarrow> take (length p) (drop j s) \<noteq> p"
proof (induction s p arbitrary: i j rule: str_find.induct)
  case (1 p)
  then show ?case by (auto split: if_splits)
next
  case (2 c s p)
  then show ?case by (cases j) (auto split: if_splits)
qed

lemma str_find_append_Some: "\<exists>i. str_find (a @ p @ b) p = Some i \<and> i \<le> length a"
proof (induction a)
  case Nil
  show ?case
  proof (cases "p @ b")
    case (Cons x xs)
    have "take (length p) (x # xs) = p" by (simp flip: Cons)
    then show ?thesis using Cons by simp
  qed simp
next
  case (Cons c a)
  then show ?case by auto
qed

lemma str_contains_append [simp]: "str_contains (a @ p @ b) p"
  using str_find_append_Some [of a p b] by (auto simp: str_contains_def)

lemma str_contains_iff: "str_contains s p \<longleftrightarrow> (\<exists>a b. s = a @ p @ b)"
proof
  assume "str_contains s p"
  then obtain i where "str_find s p = Some i" by (auto simp: str_contains_def)
  then show "\<exists>a b. s = a @ p @ b" using str_find_split by blast
qed auto

section \<open>Splitting\<close>

text \<open>\<open>split\<close> with a non-empty pattern: the pieces between its non-overlapping occurrences.\<close>

function split_on :: "string \<Rightarrow> string \<Rightarrow> string list" where
  "split_on p s =
     (if p = [] then [s]
      else case str_find s p of
             None \<Rightarrow> [s]
           | Some i \<Rightarrow> take i s # split_on p (drop (i + length p) s))"
  by pat_completeness auto
termination
proof (relation "measure (\<lambda>(p, s). length s)", goal_cases)
  case (2 p s i)
  then show ?case using str_find_Some [of s p i] by (cases p) auto
qed simp

declare split_on.simps [simp del]

lemma split_on_nonempty [simp]: "split_on p s \<noteq> []"
  by (subst split_on.simps) (simp split: option.split)

text \<open>Joining with the separator restores the string.\<close>

fun join_with :: "string \<Rightarrow> string list \<Rightarrow> string" where
  "join_with p [] = []"
| "join_with p [x] = x"
| "join_with p (x # y # r) = x @ p @ join_with p (y # r)"

lemma join_with_Cons: "r \<noteq> [] \<Longrightarrow> join_with p (x # r) = x @ p @ join_with p r"
  by (cases r) simp_all

lemma join_split_on: "join_with p (split_on p s) = s"
proof (induction p s rule: split_on.induct)
  case (1 p s)
  show ?case
  proof (cases "p = [] \<or> str_find s p = None")
    case True
    then show ?thesis by (subst split_on.simps) auto
  next
    case False
    then obtain i where i: "str_find s p = Some i" and p: "p \<noteq> []" by auto
    have "join_with p (split_on p s) = take i s @ p @ drop (i + length p) s"
      using p i 1 [OF p i] by (subst split_on.simps) (simp add: join_with_Cons)
    then show ?thesis using str_find_split [OF i] by simp
  qed
qed

lemma split_on_no_sep: "p \<noteq> [] \<Longrightarrow> x \<in> set (split_on p s) \<Longrightarrow> str_find x p = None"
proof (induction p s rule: split_on.induct)
  case (1 p s)
  show ?case
  proof (cases "str_find s p")
    case None
    with 1 show ?thesis by (auto simp: split_on.simps [of p s])
  next
    case (Some i)
    have "str_find (take i s) p = None"
    proof (rule ccontr)
      assume "str_find (take i s) p \<noteq> None"
      then obtain j where j: "str_find (take i s) p = Some j" by auto
      from str_find_Some [OF this] have jl: "j + length p \<le> length (take i s)"
        and "take (length p) (drop j (take i s)) = p" by auto
      then have "take (length p) (drop j s) = p" by (simp add: drop_take min_def split: if_splits)
      moreover have "j < i" using jl 1(2) by (cases p) auto
      ultimately show False using str_find_first [OF Some] by blast
    qed
    with 1 Some show ?thesis by (auto simp: split_on.simps [of p s])
  qed
qed

text \<open>\<open>rsplit_once\<close> with a character: what precedes and what follows its last occurrence.\<close>

definition rsplit_once :: "char \<Rightarrow> string \<Rightarrow> (string \<times> string) option" where
  "rsplit_once c s =
     (case dropWhile (\<lambda>x. x \<noteq> c) (rev s) of
        [] \<Rightarrow> None
      | _ # pre \<Rightarrow> Some (rev pre, rev (takeWhile (\<lambda>x. x \<noteq> c) (rev s))))"

lemma rsplit_once_append:
  assumes "c \<notin> set b"
  shows "rsplit_once c (a @ c # b) = Some (a, b)"
proof -
  have "dropWhile (\<lambda>x. x \<noteq> c) (rev b @ c # rev a) = c # rev a"
    using assms by (subst dropWhile_append2) auto
  moreover have "takeWhile (\<lambda>x. x \<noteq> c) (rev b @ c # rev a) = rev b"
    using assms by (subst takeWhile_append2) auto
  ultimately show ?thesis by (simp add: rsplit_once_def)
qed

text \<open>\<open>str::lines\<close>: pieces between line feeds, a final carriage return removed from each, and
  no empty last piece.\<close>

definition strip_cr :: "string \<Rightarrow> string" where
  "strip_cr l = (if l \<noteq> [] \<and> last l = CHR 0x0D then butlast l else l)"

definition str_lines :: "string \<Rightarrow> string list" where
  "str_lines s =
     (let ls = split_on [CHR 0x0A] s in
      let (full, rest) = (butlast ls, last ls) in
      map strip_cr full @ (if rest = [] then [] else [rest]))"

section \<open>Trimming and lower case\<close>

definition ascii_ws :: "nat \<Rightarrow> bool" where
  "ascii_ws n \<longleftrightarrow> 9 \<le> n \<and> n \<le> 13 \<or> n = 32"

definition wide_ws :: "nat \<Rightarrow> nat \<Rightarrow> nat \<Rightarrow> bool" where
  "wide_ws a b c \<longleftrightarrow>
     a = 0xE1 \<and> b = 0x9A \<and> c = 0x80
   \<or> a = 0xE2 \<and> b = 0x80 \<and> (0x80 \<le> c \<and> c \<le> 0x8A \<or> c = 0xA8 \<or> c = 0xA9 \<or> c = 0xAF)
   \<or> a = 0xE2 \<and> b = 0x81 \<and> c = 0x9F
   \<or> a = 0xE3 \<and> b = 0x80 \<and> c = 0x80"

fun trim_start :: "string \<Rightarrow> string" where
  "trim_start (a # b # c # r) =
     (if ascii_ws (of_char a) then trim_start (b # c # r)
      else if of_char a = (0xC2 :: nat) \<and> (of_char b = (0x85 :: nat) \<or> of_char b = (0xA0 :: nat))
        then trim_start (c # r)
      else if wide_ws (of_char a) (of_char b) (of_char c) then trim_start r
      else a # b # c # r)"
| "trim_start [a, b] =
     (if ascii_ws (of_char a) then trim_start [b]
      else if of_char a = (0xC2 :: nat) \<and> (of_char b = (0x85 :: nat) \<or> of_char b = (0xA0 :: nat))
        then []
      else [a, b])"
| "trim_start [a] = (if ascii_ws (of_char a) then [] else [a])"
| "trim_start [] = []"

text \<open>The same from the end: the argument is the reversed string.\<close>

fun trim_rev :: "string \<Rightarrow> string" where
  "trim_rev (c # b # a # r) =
     (if ascii_ws (of_char c) then trim_rev (b # a # r)
      else if of_char b = (0xC2 :: nat) \<and> (of_char c = (0x85 :: nat) \<or> of_char c = (0xA0 :: nat))
        then trim_rev (a # r)
      else if wide_ws (of_char a) (of_char b) (of_char c) then trim_rev r
      else c # b # a # r)"
| "trim_rev [c, b] =
     (if ascii_ws (of_char c) then trim_rev [b]
      else if of_char b = (0xC2 :: nat) \<and> (of_char c = (0x85 :: nat) \<or> of_char c = (0xA0 :: nat))
        then []
      else [c, b])"
| "trim_rev [c] = (if ascii_ws (of_char c) then [] else [c])"
| "trim_rev [] = []"

definition trim :: "string \<Rightarrow> string" where
  "trim s = rev (trim_rev (rev (trim_start s)))"

definition to_lower_ascii :: "char \<Rightarrow> char" where
  "to_lower_ascii c =
     (let n = of_char c :: nat in if 65 \<le> n \<and> n \<le> 90 then char_of (n + 32) else c)"

fun to_lowercase :: "string \<Rightarrow> string" where
  "to_lowercase (a # b # c # r) =
     (if of_char a = (0xE2 :: nat) \<and> of_char b = (0x84 :: nat) \<and> of_char c = (0xAA :: nat)
        then CHR ''k'' # to_lowercase r
      else if of_char a = (0xC4 :: nat) \<and> of_char b = (0xB0 :: nat)
        then CHR ''i'' # CHR 0xCC # CHR 0x87 # to_lowercase (c # r)
      else to_lower_ascii a # to_lowercase (b # c # r))"
| "to_lowercase [a, b] =
     (if of_char a = (0xC4 :: nat) \<and> of_char b = (0xB0 :: nat)
        then [CHR ''i'', CHR 0xCC, CHR 0x87]
      else [to_lower_ascii a, to_lower_ascii b])"
| "to_lowercase [a] = [to_lower_ascii a]"
| "to_lowercase [] = []"

section \<open>Numbers\<close>

definition digit_char :: "nat \<Rightarrow> char" where
  "digit_char d = (if d < 10 then char_of (48 + d) else char_of (87 + d))"

definition char_digit :: "nat \<Rightarrow> char \<Rightarrow> nat option" where
  "char_digit b c =
     (let n = of_char c :: nat;
          v = (if 48 \<le> n \<and> n \<le> 57 then n - 48
               else if 97 \<le> n \<and> n \<le> 122 then n - 87
               else if 65 \<le> n \<and> n \<le> 90 then n - 55
               else b)
      in if v < b then Some v else None)"

fun show_base :: "nat \<Rightarrow> nat \<Rightarrow> string" where
  "show_base b n =
     (if n < b \<or> b < 2 then [digit_char n] else show_base b (n div b) @ [digit_char (n mod b)])"

declare show_base.simps [simp del]

abbreviation show_dec :: "nat \<Rightarrow> string" where
  "show_dec \<equiv> show_base 10"

fun digits_val :: "nat \<Rightarrow> nat \<Rightarrow> string \<Rightarrow> nat option" where
  "digits_val b acc [] = Some acc"
| "digits_val b acc (c # cs) =
     (case char_digit b c of None \<Rightarrow> None | Some d \<Rightarrow> digits_val b (b * acc + d) cs)"

text \<open>\<open>from_str\<close> of an unsigned integer type with the given largest value: an optional plus
  sign, at least one digit, no overflow.\<close>

definition parse_uint :: "nat \<Rightarrow> string \<Rightarrow> nat option" where
  "parse_uint mx s =
     (let d = (case s of c # r \<Rightarrow> if c = CHR ''+'' then r else s | [] \<Rightarrow> []) in
      if d = [] then None
      else case digits_val 10 0 d of
             None \<Rightarrow> None
           | Some n \<Rightarrow> if n \<le> mx then Some n else None)"

definition parse_u16 :: "string \<Rightarrow> u16 option" where
  "parse_u16 s = map_option word_of_nat (parse_uint 65535 s)"

definition parse_u64 :: "string \<Rightarrow> u64 option" where
  "parse_u64 s = map_option word_of_nat (parse_uint 18446744073709551615 s)"

lemma digits_val_append:
  "digits_val b acc (xs @ ys) =
     (case digits_val b acc xs of None \<Rightarrow> None | Some n \<Rightarrow> digits_val b n ys)"
  by (induction b acc xs rule: digits_val.induct) (auto split: option.split)

lemma char_digit_digit_char [simp]:
  "d < b \<Longrightarrow> b \<le> 16 \<Longrightarrow> char_digit b (digit_char d) = Some d"
  by (auto simp: char_digit_def digit_char_def Let_def)

lemma show_base_nonempty [simp]: "show_base b n \<noteq> []"
  by (subst show_base.simps) simp

lemma digits_val_show_base:
  "2 \<le> b \<Longrightarrow> b \<le> 16 \<Longrightarrow> digits_val b 0 (show_base b n) = Some n"
proof (induction b n rule: show_base.induct)
  case (1 b n)
  show ?case
  proof (cases "n < b")
    case True
    with 1 show ?thesis by (simp add: show_base.simps [of b n])
  next
    case False
    with 1 have "digits_val b 0 (show_base b (n div b)) = Some (n div b)" by simp
    with False 1 show ?thesis
      by (simp add: show_base.simps [of b n] digits_val_append)
  qed
qed

lemma set_show_base: "2 \<le> b \<Longrightarrow> c \<in> set (show_base b n) \<Longrightarrow> \<exists>d < b. c = digit_char d"
proof (induction b n rule: show_base.induct)
  case (1 b n)
  show ?case
  proof (cases "n < b")
    case True
    with 1 show ?thesis by (auto simp: show_base.simps [of b n])
  next
    case False
    with 1 have "c = digit_char (n mod b) \<or> c \<in> set (show_base b (n div b))"
      by (simp add: show_base.simps [of b n])
    moreover have "n mod b < b" using 1 by simp
    moreover have "\<not> (n < b \<or> b < 2)" using 1 False by simp
    ultimately show ?thesis using 1 by blast
  qed
qed

lemma digit_char_dec:
  assumes "d < 10"
  shows "48 \<le> (of_char (digit_char d) :: nat) \<and> (of_char (digit_char d) :: nat) \<le> 57"
  using assms by (simp add: digit_char_def)

lemma show_dec_chars:
  "c \<in> set (show_dec n) \<Longrightarrow> 48 \<le> (of_char c :: nat) \<and> (of_char c :: nat) \<le> 57"
  using set_show_base [of 10 c n] digit_char_dec by auto

lemma show_dec_not: "n < 48 \<or> 57 < n \<Longrightarrow> n < 256 \<Longrightarrow> char_of (n :: nat) \<notin> set (show_dec m)"
  using show_dec_chars [of "char_of n" m] by auto

lemma colon_not_show_dec [simp]: "CHR '':'' \<notin> set (show_dec m)"
  using show_dec_chars [of "CHR '':''" m] by auto

lemma dot_not_show_dec [simp]: "CHR ''.'' \<notin> set (show_dec m)"
  using show_dec_chars [of "CHR ''.''" m] by auto

lemma parse_uint_show_dec: "n \<le> mx \<Longrightarrow> parse_uint mx (show_dec n) = Some n"
proof -
  assume n: "n \<le> mx"
  have "hd (show_dec n) \<in> set (show_dec n)" by simp
  then have "hd (show_dec n) \<noteq> CHR ''+''" using show_dec_chars by fastforce
  then have d: "(case show_dec n of c # r \<Rightarrow> if c = CHR ''+'' then r else show_dec n | [] \<Rightarrow> [])
      = show_dec n"
    by (cases "show_dec n") auto
  show ?thesis using n by (simp only: parse_uint_def d) (simp add: digits_val_show_base)
qed

lemma parse_u16_show_dec [simp]: "parse_u16 (show_dec (unat x)) = Some x"
  by (simp add: parse_u16_def parse_uint_show_dec)

lemma parse_u64_show_dec [simp]: "parse_u64 (show_dec (unat x)) = Some x"
  by (simp add: parse_u64_def parse_uint_show_dec)

section \<open>UTF-8\<close>

definition is_cont :: "u8 \<Rightarrow> bool" where
  "is_cont b \<longleftrightarrow> 0x80 \<le> b \<and> b \<le> 0xBF"

text \<open>\<open>str::from_utf8\<close> succeeds: well-formed sequences only (no overlong form, no surrogate,
  nothing above U+10FFFF).\<close>

fun utf8_ok :: "bytes \<Rightarrow> bool" where
  "utf8_ok [] = True"
| "utf8_ok (a # r) =
     (if a < 0x80 then utf8_ok r
      else if 0xC2 \<le> a \<and> a \<le> 0xDF then
        (case r of b # r' \<Rightarrow> is_cont b \<and> utf8_ok r' | _ \<Rightarrow> False)
      else if 0xE0 \<le> a \<and> a \<le> 0xEF then
        (case r of b # c # r' \<Rightarrow>
           (if a = 0xE0 then 0xA0 \<le> b \<and> b \<le> 0xBF
            else if a = 0xED then 0x80 \<le> b \<and> b \<le> 0x9F
            else is_cont b) \<and> is_cont c \<and> utf8_ok r' | _ \<Rightarrow> False)
      else if 0xF0 \<le> a \<and> a \<le> 0xF4 then
        (case r of b # c # d # r' \<Rightarrow>
           (if a = 0xF0 then 0x90 \<le> b \<and> b \<le> 0xBF
            else if a = 0xF4 then 0x80 \<le> b \<and> b \<le> 0x8F
            else is_cont b) \<and> is_cont c \<and> is_cont d \<and> utf8_ok r' | _ \<Rightarrow> False)
      else False)"

definition from_utf8 :: "bytes \<Rightarrow> string option" where
  "from_utf8 bs = (if utf8_ok bs then Some (str_of_bytes bs) else None)"

lemma from_utf8_Some: "from_utf8 bs = Some s \<longleftrightarrow> utf8_ok bs \<and> s = str_of_bytes bs"
  by (auto simp: from_utf8_def)

lemma is_cont_ascii: "x < 0x80 \<Longrightarrow> \<not> is_cont x"
  by (auto simp: is_cont_def)

text \<open>The cases of \<open>utf8_ok\<close> by the length of the first character.\<close>

lemma utf8_cases:
  assumes "utf8_ok s"
  obtains "s = []"
  | a r where "s = a # r" "a < 0x80" "utf8_ok r" "\<And>r'. utf8_ok (a # r') = utf8_ok r'"
  | a b r where "s = a # b # r" "is_cont b" "utf8_ok r" "\<And>r'. utf8_ok (a # b # r') = utf8_ok r'"
  | a b c r where "s = a # b # c # r" "\<not> b < 0x80" "is_cont c" "utf8_ok r"
      "\<And>r'. utf8_ok (a # b # c # r') = utf8_ok r'"
  | a b c d r where "s = a # b # c # d # r" "\<not> b < 0x80" "is_cont c" "is_cont d" "utf8_ok r"
      "\<And>r'. utf8_ok (a # b # c # d # r') = utf8_ok r'"
proof (cases s)
  case (Cons a r)
  show ?thesis
  proof (cases "a < 0x80")
    case True
    with Cons assms that(2) show ?thesis by auto
  next
    case A: False
    show ?thesis
    proof (cases "0xC2 \<le> a \<and> a \<le> 0xDF")
      case True
      with A assms Cons obtain b r' where "r = b # r'" "is_cont b" "utf8_ok r'"
        by (cases r) simp_all
      with A True Cons that(3) show ?thesis by simp
    next
      case B: False
      show ?thesis
      proof (cases "0xE0 \<le> a \<and> a \<le> 0xEF")
        case True
        with A B assms Cons obtain b c r' where r: "r = b # c # r'"
          "if a = 0xE0 then 0xA0 \<le> b \<and> b \<le> 0xBF else if a = 0xED then 0x80 \<le> b \<and> b \<le> 0x9F
            else is_cont b" "is_cont c" "utf8_ok r'"
          by (auto split: list.splits)
        from r(2) have "\<not> b < 0x80"
          using order_trans [of "0x80" "0xA0" b] order_trans [of "0x80" "0x90" b]
          by (auto simp: is_cont_def not_less split: if_splits)
        moreover have "utf8_ok (a # b # c # q) = utf8_ok q" for q
          by (subst utf8_ok.simps) (simp only: A B True r(2) [THEN eqTrueI] r(3) if_True if_False list.case simp_thms)
        ultimately show ?thesis using that(4) [OF _ _ r(3,4)] Cons r(1) by blast
      next
        case C: False
        with A B assms Cons have D: "0xF0 \<le> a \<and> a \<le> 0xF4" by (simp split: if_splits)
        with A B C assms Cons obtain b c d r' where r: "r = b # c # d # r'"
          "if a = 0xF0 then 0x90 \<le> b \<and> b \<le> 0xBF else if a = 0xF4 then 0x80 \<le> b \<and> b \<le> 0x8F
            else is_cont b" "is_cont c" "is_cont d" "utf8_ok r'"
          by (auto split: list.splits)
        from r(2) have "\<not> b < 0x80"
          using order_trans [of "0x80" "0xA0" b] order_trans [of "0x80" "0x90" b]
          by (auto simp: is_cont_def not_less split: if_splits)
        moreover have "utf8_ok (a # b # c # d # q) = utf8_ok q" for q
          by (subst utf8_ok.simps) (simp only: A B C D r(2) [THEN eqTrueI] r(3,4) if_True if_False list.case simp_thms)
        ultimately show ?thesis using that(5) [OF _ _ r(3-5)] Cons r(1) by blast
      qed
    qed
  qed
qed (rule that(1))

lemma utf8_ok_append: "utf8_ok a \<Longrightarrow> utf8_ok (a @ b) = utf8_ok b"
proof (induction a rule: length_induct)
  case (1 a)
  from 1(2) show ?case by (cases rule: utf8_cases) (use 1(1) in \<open>simp_all del: utf8_ok.simps(2)\<close>)
qed

lemma utf8_ok_ascii_cut:
  assumes "x < 0x80"
  shows "utf8_ok (a @ x # b) \<longleftrightarrow> utf8_ok a \<and> utf8_ok b"
proof
  note n = is_cont_ascii [OF assms] assms
  show "utf8_ok (a @ x # b) \<Longrightarrow> utf8_ok a \<and> utf8_ok b"
  proof (induction a rule: length_induct)
    case (1 a)
    show ?case
    proof (cases a)
      case Nil
      with 1(2) assms show ?thesis by simp
    next
      case (Cons a0 as)
      from 1(2) show ?thesis
      proof (cases rule: utf8_cases)
        case (2 c r)
        with Cons 1(1) show ?thesis by (auto simp del: utf8_ok.simps(2))
      next
        case (3 c d r)
        from 3(1,2) n Cons obtain a' where "a = c # d # a'" "r = a' @ x # b"
          by (cases as) auto
        with 3 1(1) [rule_format, of a'] show ?thesis by (simp del: utf8_ok.simps(2))
      next
        case (4 c d e r)
        from 4(1-3) n Cons obtain a' where "a = c # d # e # a'" "r = a' @ x # b"
          by (cases as; cases "tl as") auto
        with 4 1(1) [rule_format, of a'] show ?thesis by (simp del: utf8_ok.simps(2))
      next
        case (5 c d e f r)
        from 5(1-4) n Cons obtain a' where "a = c # d # e # f # a'" "r = a' @ x # b"
          by (cases as; cases "tl as"; cases "tl (tl as)") auto
        with 5 1(1) [rule_format, of a'] show ?thesis by (simp del: utf8_ok.simps(2))
      qed simp
    qed
  qed
  show "utf8_ok a \<and> utf8_ok b \<Longrightarrow> utf8_ok (a @ x # b)"
    using assms by (simp add: utf8_ok_append)
qed

end
