(* ===== verification/Std_Net.thy ===== *)
theory Std_Net
  imports Rust_Std
begin

text \<open>
  \<open>std::net\<close>: IP addresses, their canonical printing (\<open>Display\<close>), \<open>from_str\<close>, and socket
  addresses.  The parser follows the recursive-descent parser of the standard library: a dotted
  quad whose numbers have at most three digits and no leading zero, or up to eight hexadecimal
  groups with one \<open>::\<close> and an optional embedded dotted quad at the end.
\<close>

section \<open>Addresses\<close>

datatype ip_addr =
    V4 u8 u8 u8 u8
  | V6 u16 u16 u16 u16 u16 u16 u16 u16

record socket_addr =
  sa_ip :: ip_addr
  sa_port :: u16

fun is_ipv4 :: "ip_addr \<Rightarrow> bool" where
  "is_ipv4 (V4 _ _ _ _) = True"
| "is_ipv4 (V6 _ _ _ _ _ _ _ _) = False"

section \<open>Printing\<close>

definition show_v4 :: "u8 \<Rightarrow> u8 \<Rightarrow> u8 \<Rightarrow> u8 \<Rightarrow> string" where
  "show_v4 a b c d =
     show_dec (unat a) @ ''.'' @ show_dec (unat b) @ ''.'' @ show_dec (unat c) @ ''.''
       @ show_dec (unat d)"

definition show_groups :: "u16 list \<Rightarrow> string" where
  "show_groups gs = join_with '':'' (map (\<lambda>g. show_base 16 (unat g)) gs)"

text \<open>The longest run of zero groups, the first one on a tie: \<open>(start, len)\<close>.\<close>

fun zero_span :: "u16 list \<Rightarrow> nat \<Rightarrow> nat \<times> nat \<Rightarrow> nat \<times> nat \<Rightarrow> nat \<times> nat" where
  "zero_span [] i cur longest = longest"
| "zero_span (g # gs) i (cs, cl) (ls, ll) =
     (if g = 0 then
        let cs' = (if cl = 0 then i else cs); cl' = Suc cl in
        zero_span gs (Suc i) (cs', cl') (if ll < cl' then (cs', cl') else (ls, ll))
      else zero_span gs (Suc i) (0, 0) (ls, ll))"

definition show_v6 :: "u16 list \<Rightarrow> string" where
  "show_v6 gs =
     (if take 5 gs = [0, 0, 0, 0, 0] \<and> gs ! 5 = 0xFFFF then
        let hi = be16 (gs ! 6); lo = be16 (gs ! 7) in
        ''::ffff:'' @ show_v4 (hi ! 0) (hi ! 1) (lo ! 0) (lo ! 1)
      else
        let (st, len) = zero_span gs 0 (0, 0) (0, 0) in
        if 1 < len then show_groups (take st gs) @ ''::'' @ show_groups (drop (st + len) gs)
        else show_groups gs)"

fun show_ip :: "ip_addr \<Rightarrow> string" where
  "show_ip (V4 a b c d) = show_v4 a b c d"
| "show_ip (V6 a b c d e f g h) = show_v6 [a, b, c, d, e, f, g, h]"

section \<open>Parsing\<close>

text \<open>\<open>read_number\<close> with a digit limit: all digits there are, too many of them or none at all
  is an error, as is a leading zero where it is not allowed, or a value above the type's.\<close>

definition read_number :: "nat \<Rightarrow> nat \<Rightarrow> bool \<Rightarrow> nat \<Rightarrow> string \<Rightarrow> (nat \<times> string) option" where
  "read_number radix max_digits allow_zero mx s =
     (let ds = takeWhile (\<lambda>c. char_digit radix c \<noteq> None) s;
          rest = drop (length ds) s in
      if ds = [] \<or> max_digits < length ds then None
      else if \<not> allow_zero \<and> hd ds = CHR ''0'' \<and> 1 < length ds then None
      else case digits_val radix 0 ds of
             None \<Rightarrow> None
           | Some n \<Rightarrow> if n \<le> mx then Some (n, rest) else None)"

definition read_char :: "char \<Rightarrow> string \<Rightarrow> string option" where
  "read_char c s = (case s of x # r \<Rightarrow> if x = c then Some r else None | [] \<Rightarrow> None)"

text \<open>\<open>read_separator\<close>: the separator precedes every item but the first.\<close>

definition read_sep :: "char \<Rightarrow> nat \<Rightarrow> (string \<Rightarrow> ('a \<times> string) option) \<Rightarrow> string \<Rightarrow> ('a \<times> string) option"
  where
  "read_sep c i p s = (if i = 0 then p s else Option.bind (read_char c s) p)"

definition read_octet :: "string \<Rightarrow> (u8 \<times> string) option" where
  "read_octet s = map_option (\<lambda>(n, r). (word_of_nat n, r)) (read_number 10 3 False 255 s)"

definition read_ipv4 :: "string \<Rightarrow> ((u8 \<times> u8 \<times> u8 \<times> u8) \<times> string) option" where
  "read_ipv4 s =
     (case read_octet s of None \<Rightarrow> None | Some (a, s1) \<Rightarrow>
     (case read_sep CHR ''.'' 1 read_octet s1 of None \<Rightarrow> None | Some (b, s2) \<Rightarrow>
     (case read_sep CHR ''.'' 2 read_octet s2 of None \<Rightarrow> None | Some (c, s3) \<Rightarrow>
     (case read_sep CHR ''.'' 3 read_octet s3 of None \<Rightarrow> None | Some (d, s4) \<Rightarrow>
        Some ((a, b, c, d), s4)))))"

definition read_group :: "string \<Rightarrow> (u16 \<times> string) option" where
  "read_group s = map_option (\<lambda>(n, r). (word_of_nat n, r)) (read_number 16 4 True 65535 s)"

text \<open>\<open>read_groups k i\<close> with \<open>k\<close> slots left, \<open>i\<close> groups read before.\<close>

fun read_groups :: "nat \<Rightarrow> nat \<Rightarrow> string \<Rightarrow> u16 list \<times> bool \<times> string" where
  "read_groups 0 i s = ([], False, s)"
| "read_groups (Suc k) i s =
     (case (if 0 < k then read_sep CHR '':'' i read_ipv4 s else None) of
        Some ((a, b, c, d), r) \<Rightarrow> ([of_be16 [a, b], of_be16 [c, d]], True, r)
      | None \<Rightarrow>
          (case read_sep CHR '':'' i read_group s of
             None \<Rightarrow> ([], False, s)
           | Some (g, r) \<Rightarrow>
               (case read_groups k (Suc i) r of (gs, v4, r') \<Rightarrow> (g # gs, v4, r'))))"

fun v6_of_list :: "u16 list \<Rightarrow> ip_addr" where
  "v6_of_list [a, b, c, d, e, f, g, h] = V6 a b c d e f g h"
| "v6_of_list _ = V6 0 0 0 0 0 0 0 0"

definition read_ipv6 :: "string \<Rightarrow> (ip_addr \<times> string) option" where
  "read_ipv6 s =
     (case read_groups 8 0 s of (hd_gs, hd_v4, r) \<Rightarrow>
        if length hd_gs = 8 then Some (v6_of_list hd_gs, r)
        else if hd_v4 then None
        else case Option.bind (read_char CHR '':'' r) (read_char CHR '':'') of
               None \<Rightarrow> None
             | Some r2 \<Rightarrow>
                 (case read_groups (8 - (length hd_gs + 1)) 0 r2 of (tl_gs, _, r3) \<Rightarrow>
                    Some (v6_of_list
                           (hd_gs @ replicate (8 - length hd_gs - length tl_gs) 0 @ tl_gs), r3)))"

definition read_ip :: "string \<Rightarrow> (ip_addr \<times> string) option" where
  "read_ip s =
     (case read_ipv4 s of
        Some ((a, b, c, d), r) \<Rightarrow> Some (V4 a b c d, r)
      | None \<Rightarrow> read_ipv6 s)"

definition parse_ip :: "string \<Rightarrow> ip_addr option" where
  "parse_ip s = (case read_ip s of Some (ip, []) \<Rightarrow> Some ip | _ \<Rightarrow> None)"

text \<open>\<open>SocketAddr::from_str\<close>: \<open>a.b.c.d:port\<close> or \<open>[v6]:port\<close>, the latter with an optional numeric
  scope after a percent sign (its value is not used by the program).\<close>

definition read_port :: "string \<Rightarrow> (u16 \<times> string) option" where
  "read_port s =
     Option.bind (read_char CHR '':'' s)
       (\<lambda>r. map_option (\<lambda>(n, r'). (word_of_nat n, r')) (read_number 10 (length r) True 65535 r))"

definition read_scope :: "string \<Rightarrow> string" where
  "read_scope s =
     (case read_char CHR ''%'' s of
        None \<Rightarrow> s
      | Some r \<Rightarrow> (case read_number 10 (length r) True 4294967295 r of
                    None \<Rightarrow> s | Some (_, r') \<Rightarrow> r'))"

definition read_socket_v4 :: "string \<Rightarrow> (socket_addr \<times> string) option" where
  "read_socket_v4 s =
     (case read_ipv4 s of None \<Rightarrow> None | Some ((a, b, c, d), r) \<Rightarrow>
        (case read_port r of None \<Rightarrow> None | Some (p, r') \<Rightarrow>
           Some (\<lparr>sa_ip = V4 a b c d, sa_port = p\<rparr>, r')))"

definition read_socket_v6 :: "string \<Rightarrow> (socket_addr \<times> string) option" where
  "read_socket_v6 s =
     (case read_char CHR ''['' s of None \<Rightarrow> None | Some r \<Rightarrow>
     (case read_ipv6 r of None \<Rightarrow> None | Some (ip, r1) \<Rightarrow>
     (case read_char CHR '']'' (read_scope r1) of None \<Rightarrow> None | Some r2 \<Rightarrow>
        (case read_port r2 of None \<Rightarrow> None | Some (p, r3) \<Rightarrow>
           Some (\<lparr>sa_ip = ip, sa_port = p\<rparr>, r3)))))"

definition parse_socket_addr :: "string \<Rightarrow> socket_addr option" where
  "parse_socket_addr s =
     (case (case read_socket_v4 s of Some x \<Rightarrow> Some x | None \<Rightarrow> read_socket_v6 s) of
        Some (a, []) \<Rightarrow> Some a | _ \<Rightarrow> None)"

section \<open>Printing and parsing agree on dotted quads\<close>

lemma char_digit_show_dec: "c \<in> set (show_dec n) \<Longrightarrow> char_digit 10 c \<noteq> None"
  using set_show_base [of 10 c n] by auto

lemma show_dec_unfold: "show_dec n = (if n < 10 then [digit_char n] else show_dec (n div 10) @ [digit_char (n mod 10)])"
  by (subst show_base.simps) simp

lemma length_show_dec_octet: "n < 256 \<Longrightarrow> length (show_dec n) \<le> 3"
  by (simp add: show_dec_unfold [of n] show_dec_unfold [of "n div 10"]
      show_dec_unfold [of "n div 10 div 10"])

lemma digit_char_0: "digit_char 0 = CHR ''0''"
  by code_simp

lemma char_digit_dot [simp]: "char_digit 10 CHR ''.'' = None"
  by code_simp

lemma digit_char_zero: "d < 10 \<Longrightarrow> digit_char d = CHR ''0'' \<longleftrightarrow> d = 0"
  using char_digit_digit_char [of d 10] char_digit_digit_char [of 0 10] digit_char_0
  by fastforce

lemma show_dec_no_leading_zero: "0 < n \<Longrightarrow> hd (show_dec n) \<noteq> CHR ''0''"
proof (induction n rule: less_induct)
  case (less n)
  show ?case
  proof (cases "n < 10")
    case True
    with less show ?thesis by (simp add: show_dec_unfold [of n] digit_char_zero)
  next
    case False
    with less have "hd (show_dec (n div 10)) \<noteq> CHR ''0''" by simp
    with False show ?thesis by (simp add: show_dec_unfold [of n])
  qed
qed

lemma read_octet_show:
  assumes "r = [] \<or> char_digit 10 (hd r) = None"
  shows "read_octet (show_dec (unat a) @ r) = Some (a, r)"
proof -
  let ?s = "show_dec (unat a)"
  have tw: "takeWhile (\<lambda>c. char_digit 10 c \<noteq> None) (?s @ r) = ?s"
    using assms char_digit_show_dec by (cases r) (auto simp: takeWhile_append)
  have len: "length ?s \<le> 3" by (rule length_show_dec_octet) simp
  have lz: "\<not> (hd ?s = CHR ''0'' \<and> 1 < length ?s)"
    using show_dec_no_leading_zero [of "unat a"] by (cases "unat a = 0") (auto simp: show_dec_unfold)
  show ?thesis using len lz
    unfolding read_octet_def read_number_def tw Let_def by (simp add: digits_val_show_base)
qed

lemmas read_octet_show_all = read_octet_show [where r = "[]", simplified]

lemma read_ipv4_show: "read_ipv4 (show_v4 a b c d) = Some ((a, b, c, d), [])"
  by (simp add: read_ipv4_def show_v4_def read_octet_show read_octet_show_all read_sep_def
      read_char_def)

theorem parse_show_v4: "parse_ip (show_ip (V4 a b c d)) = Some (V4 a b c d)"
  by (simp add: parse_ip_def read_ip_def read_ipv4_show)

text \<open>No address starts with a character that is neither a digit nor a colon.\<close>

lemma parse_ip_first:
  assumes "char_digit 16 c = None" and "c \<noteq> CHR '':''"
  shows "parse_ip (c # r) = None"
proof -
  have "char_digit 10 c = None"
    using assms(1) by (auto simp: char_digit_def Let_def split: if_splits)
  then have 4: "read_ipv4 (c # r) = None"
    by (simp add: read_ipv4_def read_octet_def read_number_def)
  have "read_group (c # r) = None"
    using assms(1) by (simp add: read_group_def read_number_def)
  then have "read_groups 8 0 (c # r) = ([], False, c # r)"
    by (simp add: read_sep_def 4 eval_nat_numeral)
  with assms(2) 4 show ?thesis
    by (simp add: parse_ip_def read_ip_def read_ipv6_def read_char_def)
qed

lemma read_ipv4_show_rest:
  assumes "r = [] \<or> char_digit 10 (hd r) = None"
  shows "read_ipv4 (show_v4 a b c d @ r) = Some ((a, b, c, d), r)"
  using assms by (simp add: read_ipv4_def show_v4_def read_octet_show read_sep_def read_char_def)

lemma read_port_show: "read_port (CHR '':'' # show_dec (unat (p :: u16))) = Some (p, [])"
proof -
  let ?s = "show_dec (unat p)"
  have tw: "takeWhile (\<lambda>c. char_digit 10 c \<noteq> None) ?s = ?s"
    using char_digit_show_dec by (simp add: takeWhile_eq_all_conv)
  have "read_number 10 (length ?s) True 65535 ?s = Some (unat p, [])"
    unfolding read_number_def tw Let_def by (simp add: digits_val_show_base)
  then show ?thesis by (simp add: read_port_def read_char_def)
qed

text \<open>An IPv4 socket address is read back from its text.\<close>

lemma parse_show_socket_v4:
  "parse_socket_addr (show_v4 a b c d @ CHR '':'' # show_dec (unat (p :: u16))) =
     Some \<lparr>sa_ip = V4 a b c d, sa_port = p\<rparr>"
proof -
  have "char_digit 10 CHR '':'' = None" by code_simp
  then have "read_ipv4 (show_v4 a b c d @ CHR '':'' # show_dec (unat p)) =
      Some ((a, b, c, d), CHR '':'' # show_dec (unat p))" by (simp add: read_ipv4_show_rest)
  then show ?thesis by (simp add: parse_socket_addr_def read_socket_v4_def read_port_show)
qed

text \<open>Text that starts with neither a digit nor a bracket is no socket address.\<close>

lemma parse_socket_first:
  assumes "char_digit 10 c = None" and "c \<noteq> CHR ''[''"
  shows "parse_socket_addr (c # r) = None"
  using assms by (simp add: parse_socket_addr_def read_socket_v4_def read_socket_v6_def read_ipv4_def
      read_octet_def read_number_def read_char_def)

end
