(* ===== verification/Run_Def.thy ===== *)
theory Run_Def
  imports Std_Net
begin

text \<open>
  The types and trait defaults of \<open>src/def.rs\<close> and \<open>src/util.rs\<close>: \<open>StreamInfo\<close>, \<open>RunAddr\<close>,
  \<open>UDPMeta\<close>, \<open>UDPPacket\<close> with its SOCKS5 datagram parser and reply encoder, and the default
  \<open>read_exact\<close> of the trait \<open>RunStream\<close>.  The locale \<open>byte_stream\<close> is the contract of
  \<open>RunStream::read\<close> that its callers rely on: a read returns a prefix, no longer than the buffer,
  of the bytes still to come.
\<close>

section \<open>Stream information and addresses\<close>

record stream_info =
  si_protocol_name :: string
  si_src_addr :: "string option"
  si_src_port :: "u16 option"
  si_dst_addr :: "string option"
  si_dst_port :: "u16 option"
  si_udp :: "bool option"

definition stream_info_default :: stream_info where
  "stream_info_default =
     \<lparr>si_protocol_name = [], si_src_addr = None, si_src_port = None, si_dst_addr = None,
      si_dst_port = None, si_udp = None\<rparr>"

record run_addr =
  ra_addr :: string
  ra_port :: u16
  ra_udp :: bool

definition endpoint :: "run_addr \<Rightarrow> string" where
  "endpoint a = ra_addr a @ '':'' @ show_dec (unat (ra_port a))"

text \<open>\<open>format!("{}:{}", host, port)\<close>.\<close>

definition host_port :: "string \<Rightarrow> u16 \<Rightarrow> string" where
  "host_port h p = h @ '':'' @ show_dec (unat p)"

lemma endpoint_host_port: "endpoint a = host_port (ra_addr a) (ra_port a)"
  by (simp add: endpoint_def host_port_def)

section \<open>Address bytes\<close>

text \<open>
  The address part of a SOCKS5 message as a string, by address type: the same \<open>match\<close> stands in
  \<open>UDPPacket::parse\<close> and in the conversion of a \<open>Request\<close>.
\<close>

definition be_pair :: "bytes \<Rightarrow> nat \<Rightarrow> u16" where
  "be_pair b i = of_be16 [b ! i, b ! Suc i]"

definition addr_string :: "u8 \<Rightarrow> bytes \<Rightarrow> string io" where
  "addr_string a_typ b =
     (if a_typ = 1 then
        if length b \<noteq> 4 then Inl (IoError Other ''Not a ipv4'')
        else Inr (show_ip (V4 (b ! 0) (b ! 1) (b ! 2) (b ! 3)))
      else if a_typ = 3 then
        (case from_utf8 b of Some s \<Rightarrow> Inr s | None \<Rightarrow> Inl (IoError Other ''Not a domain''))
      else if a_typ = 4 then
        if length b \<noteq> 16 then Inl (IoError Other ''Not a ipv6'')
        else Inr (show_ip (V6 (be_pair b 0) (be_pair b 2) (be_pair b 4) (be_pair b 6)
                              (be_pair b 8) (be_pair b 10) (be_pair b 12) (be_pair b 14)))
      else Inl (IoError Other ''a_type not found''))"

lemma addr_string_no_panic [simp]: "\<not> is_panic (addr_string t b)"
  by (simp add: addr_string_def split: option.split)

section \<open>UDP packets\<close>

record udp_meta =
  um_dst_addr :: string
  um_dst_port :: u16
  um_src_addr :: string
  um_src_port :: u16

record udp_packet =
  up_meta :: udp_meta
  up_data :: bytes

definition udp_empty_packet :: udp_packet where
  "udp_empty_packet =
     \<lparr>up_meta = \<lparr>um_dst_addr = [], um_dst_port = 0, um_src_addr = [], um_src_port = 0\<rparr>,
      up_data = []\<rparr>"

definition reply_bytes :: "udp_packet \<Rightarrow> bytes list \<times> string \<times> string" where
  "reply_bytes p =
     (let m = up_meta p;
          port = be16 (um_src_port m);
          head = [0, 0, 0, 1, 0, 0, 0, 0, port ! 0, port ! 1]
      in ([head @ up_data p],
          (if um_src_addr m = ''0.0.0.0'' then ''127.0.0.1'' else um_src_addr m)
             @ '':'' @ show_dec (unat (um_src_port m)),
          host_port (um_dst_addr m) (um_dst_port m)))"

text \<open>\<open>a_len\<close> is an \<open>isize\<close> in the source: it is \<open>-1\<close> for an unknown address type.\<close>

definition udp_addr_len :: "u8 \<Rightarrow> bytes \<Rightarrow> int io" where
  "udp_addr_len a_typ buf =
     (if a_typ = 1 then Inr 4
      else if a_typ = 4 then Inr 16
      else if a_typ = 3 then io_bind (index buf 4) (\<lambda>b. Inr (int (unat b)))
      else Inr (- 1))"

definition udp_parse :: "bytes \<Rightarrow> socket_addr \<Rightarrow> udp_packet io" where
  "udp_parse buf src =
     (if length buf < 5 then Inl (IoError InvalidData ''udp parse packet too short'')
      else
        io_bind (index buf 2) (\<lambda>frag.
        if frag \<noteq> 0 then Inr udp_empty_packet
        else
          io_bind (index buf 3) (\<lambda>a_typ.
          io_bind (udp_addr_len a_typ buf) (\<lambda>len.
          let start = (if a_typ = 3 then 5 else 4) in
          if len < 0 then Inl (IoError InvalidData ''udp parse invalid addr type'')
          else if int (length buf) \<le> int start + len + 2
            then Inl (IoError InvalidData ''udp parse packet too short2'')
          else
            let a_len = nat len in
            io_bind (slice buf start (start + a_len)) (\<lambda>dst_addr.
            io_bind (slice buf (start + a_len) (start + a_len + 2)) (\<lambda>dst_port.
            io_bind (slice buf (start + a_len + 2) (length buf)) (\<lambda>data.
            io_bind (addr_string a_typ dst_addr) (\<lambda>addr.
              Inr \<lparr>up_meta = \<lparr>um_dst_addr = addr, um_dst_port = of_be16 dst_port,
                               um_src_addr = show_ip (sa_ip src), um_src_port = sa_port src\<rparr>,
                   up_data = data\<rparr>))))))))"

text \<open>
  The datagram format itself, for stating what \<open>udp_parse\<close> accepts: two reserved bytes, the
  fragment number, the address type, the address (a domain is preceded by its length), the
  port and the payload.
\<close>

definition udp_addr_field :: "u8 \<Rightarrow> bytes \<Rightarrow> bytes" where
  "udp_addr_field a_typ a = (if a_typ = 3 then word_of_nat (length a) # a else a)"

definition udp_addr_wf :: "u8 \<Rightarrow> bytes \<Rightarrow> bool" where
  "udp_addr_wf a_typ a \<longleftrightarrow>
     a_typ = 1 \<and> length a = 4 \<or> a_typ = 4 \<and> length a = 16 \<or> a_typ = 3 \<and> length a < 256"

definition udp_datagram :: "u8 \<Rightarrow> u8 \<Rightarrow> bytes \<Rightarrow> u16 \<Rightarrow> bytes \<Rightarrow> bytes" where
  "udp_datagram frag a_typ a port data =
     [0, 0, frag, a_typ] @ udp_addr_field a_typ a @ be16 port @ data"

lemma udp_parse_no_panic: "\<not> is_panic (udp_parse buf src)"
proof -
  obtain k where k: "unat (buf ! 4) = k" by simp
  then have u: "uint (buf ! 4) = int k" by auto
  show ?thesis
    by (auto simp: udp_parse_def udp_addr_len_def Let_def io_bind_def slice_def index_def
        is_panic_def addr_string_def k u
        split: sum.splits fault.splits if_splits option.splits)
qed

text \<open>Past the header checks the parser is this function of the datagram's fields.\<close>

lemma drop_header:
  "drop (5 + n) (x1 # x2 # x3 # x4 # x5 # r) = drop n r"
  "drop (7 + n) (x1 # x2 # x3 # x4 # x5 # r) = drop (2 + n) r"
  by (simp_all add: eval_nat_numeral)

lemma uint_u8_of_nat: "n < 256 \<Longrightarrow> uint (word_of_nat n :: u8) = int n"
  by (simp add: unsigned_of_nat take_bit_eq_mod)

lemma udp_parse_datagram:
  assumes wf: "udp_addr_wf a_typ a"
  shows "udp_parse (udp_datagram 0 a_typ a port data) src =
    (if data = [] then Inl (IoError InvalidData ''udp parse packet too short2'')
     else io_bind (addr_string a_typ a) (\<lambda>addr.
       Inr \<lparr>up_meta = \<lparr>um_dst_addr = addr, um_dst_port = port,
                        um_src_addr = show_ip (sa_ip src), um_src_port = sa_port src\<rparr>,
            up_data = data\<rparr>))"
proof -
  consider "a_typ = 1" "length a = 4" | "a_typ = 4" "length a = 16" | "a_typ = 3" "length a < 256"
    using wf by (auto simp: udp_addr_wf_def)
  then show ?thesis
    by cases (simp_all add: udp_parse_def udp_datagram_def udp_addr_field_def udp_addr_len_def
        slice_def uint_u8_of_nat drop_header Let_def)
qed

section \<open>Reading exactly\<close>

text \<open>
  The default \<open>read_exact\<close> of \<open>RunStream\<close>: it loops over \<open>read\<close> until the buffer is full or a
  read returns nothing, and fails only when nothing at all was read.  The accumulator holds the
  bytes written to the buffer so far.
\<close>

type_synonym 's reader = "'s \<Rightarrow> nat \<Rightarrow> 's \<times> bytes io"

function read_exact_loop :: "'s reader \<Rightarrow> 's \<Rightarrow> nat \<Rightarrow> bytes \<Rightarrow> 's \<times> bytes io" where
  "read_exact_loop rd s m acc =
     (if m = 0 then (s, Inr acc)
      else case rd s m of
             (s', Inl e) \<Rightarrow> (s', Inl e)
           | (s', Inr bs) \<Rightarrow>
               if bs = [] then (s', Inr acc)
               else if m < length bs then (s', Inl (Panic ''range out of bounds''))
               else read_exact_loop rd s' (m - length bs) (acc @ bs))"
  by pat_completeness auto
termination
  by (relation "measure (\<lambda>(rd, s, m, acc). m)") auto

declare read_exact_loop.simps [simp del]

text \<open>The buffer afterwards (zero-filled by the caller before) and the count returned.\<close>

definition read_exact :: "'s reader \<Rightarrow> 's \<Rightarrow> nat \<Rightarrow> 's \<times> (bytes \<times> nat) io" where
  "read_exact rd s m =
     (case read_exact_loop rd s m [] of
        (s', Inl e) \<Rightarrow> (s', Inl e)
      | (s', Inr got) \<Rightarrow>
          if got = [] then (s', Inl (IoError UnexpectedEof ''early eof''))
          else (s', Inr (got @ replicate (m - length got) 0, length got)))"

text \<open>A series of reads, with the buffer sizes given; the bytes are concatenated.\<close>

fun read_many :: "'s reader \<Rightarrow> 's \<Rightarrow> nat list \<Rightarrow> 's \<times> bytes io" where
  "read_many rd s [] = (s, Inr [])"
| "read_many rd s (n # ns) =
     (case rd s n of
        (s', Inl e) \<Rightarrow> (s', Inl e)
      | (s', Inr bs) \<Rightarrow>
          (case read_many rd s' ns of
             (s'', Inl e) \<Rightarrow> (s'', Inl e)
           | (s'', Inr r) \<Rightarrow> (s'', Inr (bs @ r))))"

section \<open>The contract of \<open>RunStream::read\<close>\<close>

locale byte_stream =
  fixes rd :: "'s reader"
    and pending :: "'s \<Rightarrow> bytes"
  assumes rd_prefix: "rd s n = (s', Inr bs) \<Longrightarrow> length bs \<le> n \<and> pending s = bs @ pending s'"
begin

lemma read_many_prefix: "read_many rd s ns = (s', Inr bs) \<Longrightarrow> pending s = bs @ pending s'"
proof (induction ns arbitrary: s bs)
  case Nil
  then show ?case by simp
next
  case (Cons n ns)
  then obtain t b1 b2 where "rd s n = (t, Inr b1)" "read_many rd t ns = (s', Inr b2)" "bs = b1 @ b2"
    by (auto split: prod.splits sum.splits)
  with Cons.IH [of t b2] rd_prefix [of s n t b1] show ?case by simp
qed

lemma read_exact_loop_prefix:
  "read_exact_loop rd s m acc = (s', Inr got) \<Longrightarrow>
     \<exists>bs. got = acc @ bs \<and> length bs \<le> m \<and> pending s = bs @ pending s'"
proof (induction m arbitrary: s acc rule: less_induct)
  case (less m)
  show ?case
  proof (cases "m = 0")
    case True
    with less show ?thesis by (simp add: read_exact_loop.simps)
  next
    case False
    with less.prems obtain t b where rd: "rd s m = (t, Inr b)"
      by (auto simp: read_exact_loop.simps [of rd s m] split: prod.splits sum.splits)
    note p = rd_prefix [OF rd]
    show ?thesis
    proof (cases "b = []")
      case True
      with less.prems False rd p show ?thesis by (simp add: read_exact_loop.simps [of rd s m])
    next
      case False
      with less.prems \<open>m \<noteq> 0\<close> rd p
      have rest: "read_exact_loop rd t (m - length b) (acc @ b) = (s', Inr got)"
        by (simp add: read_exact_loop.simps [of rd s m])
      from False \<open>m \<noteq> 0\<close> have "m - length b < m" by simp
      from less.IH [OF this rest] p show ?thesis by fastforce
    qed
  qed
qed

text \<open>What \<open>read_exact\<close> guarantees: the buffer starts with at least one byte of the stream, and is
  zero from the count it returns on; nothing beyond those bytes is consumed.\<close>

lemma read_exact_prefix:
  assumes "read_exact rd s m = (s', Inr (buf, n))"
  shows "\<exists>bs. length bs = n \<and> 0 < n \<and> n \<le> m \<and> buf = bs @ replicate (m - n) 0
           \<and> pending s = bs @ pending s'"
  using assms read_exact_loop_prefix [of s m "[]" s']
  by (fastforce simp: read_exact_def split: prod.splits sum.splits if_splits)

end

text \<open>A stream that returns nothing only at its end, as a TCP stream does.\<close>

locale eof_stream = byte_stream +
  assumes rd_eof: "rd s n = (s', Inr []) \<Longrightarrow> 0 < n \<Longrightarrow> pending s = []"
begin

lemma read_exact_loop_full:
  "read_exact_loop rd s m acc = (s', Inr got) \<Longrightarrow> m \<le> length (pending s) \<Longrightarrow>
     got = acc @ take m (pending s) \<and> pending s' = drop m (pending s)"
proof (induction m arbitrary: s acc rule: less_induct)
  case (less m)
  show ?case
  proof (cases "m = 0")
    case True
    with less show ?thesis by (simp add: read_exact_loop.simps)
  next
    case False
    with less.prems obtain t b where rd: "rd s m = (t, Inr b)"
      by (auto simp: read_exact_loop.simps [of rd s m] split: prod.splits sum.splits)
    note p = rd_prefix [OF rd]
    have b: "b \<noteq> []"
      using rd_eof [of s m t] rd False less.prems(2) by auto
    with less.prems False rd p
    have rest: "read_exact_loop rd t (m - length b) (acc @ b) = (s', Inr got)"
      by (simp add: read_exact_loop.simps [of rd s m])
    from b False have "m - length b < m" by simp
    moreover have "m - length b \<le> length (pending t)" using less.prems(2) p by simp
    ultimately have "got = (acc @ b) @ take (m - length b) (pending t)
        \<and> pending s' = drop (m - length b) (pending t)"
      using less.IH rest by blast
    with p show ?thesis by simp
  qed
qed

text \<open>When the stream holds enough bytes, \<open>read_exact\<close> fills the buffer with exactly those.\<close>

lemma read_exact_full:
  assumes "read_exact rd s m = (s', Inr (buf, n))" and "m \<le> length (pending s)"
  shows "buf = take m (pending s) \<and> n = m \<and> pending s' = drop m (pending s)"
  using assms read_exact_loop_full [of s m "[]" s']
  by (auto simp: read_exact_def split: prod.splits sum.splits if_splits)

end

text \<open>A stream in a state from which reads do not fail.\<close>

locale live_stream = eof_stream +
  fixes alive :: "'a \<Rightarrow> bool"
  assumes rd_alive: "alive s \<Longrightarrow> \<exists>s' bs. rd s n = (s', Inr bs) \<and> alive s'"
begin

lemma read_exact_loop_alive:
  "alive s \<Longrightarrow> \<exists>s' got. read_exact_loop rd s m acc = (s', Inr got) \<and> alive s'"
proof (induction m arbitrary: s acc rule: less_induct)
  case (less m)
  show ?case
  proof (cases "m = 0")
    case True
    with less show ?thesis by (simp add: read_exact_loop.simps)
  next
    case False
    obtain t b where rd: "rd s m = (t, Inr b)" and t: "alive t"
      using rd_alive [OF less.prems] by blast
    show ?thesis
    proof (cases "b = []")
      case True
      with rd t False show ?thesis by (simp add: read_exact_loop.simps [of rd s m])
    next
      case b: False
      with False have "m - length b < m" by simp
      from less.IH [OF this t] b rd False rd_prefix [OF rd] show ?thesis
        by (simp add: read_exact_loop.simps [of rd s m])
    qed
  qed
qed

lemma read_exact_enough:
  assumes "alive s" and "0 < m" and "m \<le> length (pending s)"
  shows "\<exists>s'. read_exact rd s m = (s', Inr (take m (pending s), m))
            \<and> pending s' = drop m (pending s) \<and> alive s'"
proof -
  obtain s' got where l: "read_exact_loop rd s m [] = (s', Inr got)" and a: "alive s'"
    using read_exact_loop_alive [OF assms(1)] by blast
  from read_exact_loop_full [OF l assms(3)] have "got = take m (pending s)"
    and "pending s' = drop m (pending s)" by auto
  with l a assms(2,3) show ?thesis by (auto simp: read_exact_def)
qed

text \<open>With fewer bytes than asked for, but at least one, the rest of the buffer stays zero.\<close>

lemma read_exact_short:
  assumes "alive s" and "0 < length (pending s)" and "length (pending s) \<le> m"
  shows "\<exists>s'. read_exact rd s m =
            (s', Inr (pending s @ replicate (m - length (pending s)) 0, length (pending s)))
            \<and> pending s' = [] \<and> alive s'"
proof -
  have "alive s \<Longrightarrow> length (pending s) \<le> m \<Longrightarrow>
      \<exists>s'. read_exact_loop rd s m acc = (s', Inr (acc @ pending s)) \<and> pending s' = [] \<and> alive s'"
    for acc
  proof (induction m arbitrary: s acc rule: less_induct)
    case (less m)
    show ?case
    proof (cases "m = 0")
      case True
      with less show ?thesis by (simp add: read_exact_loop.simps)
    next
      case False
      obtain t b where rd: "rd s m = (t, Inr b)" and t: "alive t"
        using rd_alive [OF less.prems(1)] by blast
      note p = rd_prefix [OF rd]
      show ?thesis
      proof (cases "b = []")
        case True
        with rd_eof [of s m t] rd False p t show ?thesis
          by (auto simp: read_exact_loop.simps [of rd s m])
      next
        case b: False
        with False have "m - length b < m" by simp
        from less.IH [OF this t, of "acc @ b"] b rd False p less.prems(2) show ?thesis
          by (auto simp: read_exact_loop.simps [of rd s m])
      qed
    qed
  qed
  from this [OF assms(1,3), of "[]"] assms(2) show ?thesis
    by (auto simp: read_exact_def)
qed

end

end
