(* ===== verification/Tcp_Stream.thy ===== *)
theory Tcp_Stream
  imports Run_Def
begin

text \<open>
  \<open>src/stream/tcp.rs\<close>: the stream over a plain TCP connection.  The receive side is the list of
  what the network still delivers: segments, cut anywhere, and possibly an error; at its end the
  peer has closed.  A read takes what the first segment holds, at most the buffer's length.  The
  send side is the bytes written so far, and the error the next write meets, if any.
\<close>

datatype net_event = Segment bytes | NetErr error_kind string

record tcp_read_half =
  ts_rx :: "net_event list"

record tcp_write_half =
  tw_tx :: bytes
  tw_err :: "fault option"

record tcp_stream = tcp_read_half +
  ts_tx :: bytes
  ts_err :: "fault option"
  ts_info :: stream_info

text \<open>The size of the buffers TCP data is read into (\<open>src/consts.rs\<close>).\<close>

definition TCP_IO_BUFFER_SIZE :: nat where "TCP_IO_BUFFER_SIZE = 2048"

lemma buffer_size_pos [simp]: "0 < TCP_IO_BUFFER_SIZE"
  by (simp add: TCP_IO_BUFFER_SIZE_def)

fun tcp_recv :: "net_event list \<Rightarrow> nat \<Rightarrow> net_event list \<times> bytes io" where
  "tcp_recv [] n = ([], Inr [])"
| "tcp_recv (NetErr k m # r) n = (r, Inl (IoError k m))"
| "tcp_recv (Segment c # r) n =
     (if c = [] then tcp_recv r n
      else if n = 0 then (Segment c # r, Inr [])
      else (if length c \<le> n then r else Segment (drop n c) # r, Inr (take n c)))"

definition tcp_run_stream_new :: "net_event list \<Rightarrow> tcp_stream" where
  "tcp_run_stream_new rx =
     \<lparr>ts_rx = rx, ts_tx = [], ts_err = None, ts_info = stream_info_default\<rparr>"

definition tcp_get_info :: "tcp_stream \<Rightarrow> stream_info" where
  "tcp_get_info s = ts_info s"

definition tcp_set_info :: "(stream_info \<Rightarrow> stream_info) \<Rightarrow> tcp_stream \<Rightarrow> tcp_stream" where
  "tcp_set_info f s = s\<lparr>ts_info := f (ts_info s)\<rparr>"

definition tcp_read :: "tcp_stream reader" where
  "tcp_read s n = (case tcp_recv (ts_rx s) n of (rx, r) \<Rightarrow> (s\<lparr>ts_rx := rx\<rparr>, r))"

definition tcp_write :: "tcp_stream \<Rightarrow> bytes \<Rightarrow> tcp_stream \<times> unit io" where
  "tcp_write s b =
     (case ts_err s of
        Some e \<Rightarrow> (s, Inl e)
      | None \<Rightarrow> (s\<lparr>ts_tx := ts_tx s @ b\<rparr>, Inr ()))"

definition tcp_split :: "tcp_stream \<Rightarrow> tcp_read_half \<times> tcp_write_half" where
  "tcp_split s = (\<lparr>ts_rx = ts_rx s\<rparr>, \<lparr>tw_tx = ts_tx s, tw_err = ts_err s\<rparr>)"

definition tcp_half_read :: "tcp_read_half reader" where
  "tcp_half_read s n = (case tcp_recv (ts_rx s) n of (rx, r) \<Rightarrow> (s\<lparr>ts_rx := rx\<rparr>, r))"

definition tcp_half_write :: "tcp_write_half \<Rightarrow> bytes \<Rightarrow> tcp_write_half \<times> unit io" where
  "tcp_half_write s b =
     (case tw_err s of
        Some e \<Rightarrow> (s, Inl e)
      | None \<Rightarrow> (s\<lparr>tw_tx := tw_tx s @ b\<rparr>, Inr ()))"

section \<open>The bytes still to come\<close>

fun rx_pending :: "net_event list \<Rightarrow> bytes" where
  "rx_pending [] = []"
| "rx_pending (NetErr k m # r) = []"
| "rx_pending (Segment c # r) = c @ rx_pending r"

fun rx_clean :: "net_event list \<Rightarrow> bool" where
  "rx_clean [] = True"
| "rx_clean (NetErr k m # r) = False"
| "rx_clean (Segment c # r) = rx_clean r"

definition tcp_pending :: "('a) tcp_read_half_scheme \<Rightarrow> bytes" where
  "tcp_pending s = rx_pending (ts_rx s)"

definition tcp_clean :: "('a) tcp_read_half_scheme \<Rightarrow> bool" where
  "tcp_clean s = rx_clean (ts_rx s)"

text \<open>A connection without network errors; the other fields are fixed, since no read changes
  them.\<close>

definition tcp_alive :: "bytes \<Rightarrow> fault option \<Rightarrow> stream_info \<Rightarrow> tcp_stream \<Rightarrow> bool" where
  "tcp_alive tx err info s \<longleftrightarrow> tcp_clean s \<and> ts_tx s = tx \<and> ts_err s = err \<and> ts_info s = info"

lemma tcp_recv_prefix:
  "tcp_recv rx n = (rx', Inr bs) \<Longrightarrow> length bs \<le> n \<and> rx_pending rx = bs @ rx_pending rx'"
  by (induction rx n rule: tcp_recv.induct) (auto split: if_splits)

lemma tcp_recv_eof: "tcp_recv rx n = (rx', Inr []) \<Longrightarrow> 0 < n \<Longrightarrow> rx_pending rx = []"
  by (induction rx n rule: tcp_recv.induct) (auto split: if_splits)

lemma tcp_recv_clean: "rx_clean rx \<Longrightarrow> \<exists>rx' bs. tcp_recv rx n = (rx', Inr bs) \<and> rx_clean rx'"
  by (induction rx n rule: tcp_recv.induct) auto

interpretation tcp: live_stream tcp_read tcp_pending "tcp_alive tx err info" for tx err info
proof
  fix s n s' bs
  show "tcp_read s n = (s', Inr bs) \<Longrightarrow> length bs \<le> n \<and> tcp_pending s = bs @ tcp_pending s'"
    using tcp_recv_prefix [of "ts_rx s" n]
    by (auto simp: tcp_read_def tcp_pending_def split: prod.splits)
next
  fix s n s'
  show "tcp_read s n = (s', Inr []) \<Longrightarrow> 0 < n \<Longrightarrow> tcp_pending s = []"
    using tcp_recv_eof [of "ts_rx s" n]
    by (auto simp: tcp_read_def tcp_pending_def split: prod.splits)
next
  fix s n
  show "tcp_alive tx err info s \<Longrightarrow> \<exists>s' bs. tcp_read s n = (s', Inr bs) \<and> tcp_alive tx err info s'"
    using tcp_recv_clean [of "ts_rx s" n]
    by (auto simp: tcp_read_def tcp_alive_def tcp_clean_def)
qed

interpretation tcp_half: live_stream tcp_half_read tcp_pending tcp_clean
proof
  fix s n s' bs
  show "tcp_half_read s n = (s', Inr bs) \<Longrightarrow> length bs \<le> n \<and> tcp_pending s = bs @ tcp_pending s'"
    using tcp_recv_prefix [of "ts_rx s" n]
    by (auto simp: tcp_half_read_def tcp_pending_def split: prod.splits)
next
  fix s n s'
  show "tcp_half_read s n = (s', Inr []) \<Longrightarrow> 0 < n \<Longrightarrow> tcp_pending s = []"
    using tcp_recv_eof [of "ts_rx s" n]
    by (auto simp: tcp_half_read_def tcp_pending_def split: prod.splits)
next
  fix s n
  show "tcp_clean s \<Longrightarrow> \<exists>s' bs. tcp_half_read s n = (s', Inr bs) \<and> tcp_clean s'"
    using tcp_recv_clean [of "ts_rx s" n]
    by (auto simp: tcp_half_read_def tcp_clean_def)
qed

lemma tcp_read_frame:
  "tcp_read s n = (s', r) \<Longrightarrow> ts_tx s' = ts_tx s \<and> ts_err s' = ts_err s \<and> ts_info s' = ts_info s"
  by (auto simp: tcp_read_def split: prod.splits)

lemma tcp_write_ok:
  "ts_err s = None \<Longrightarrow> tcp_write s b = (s\<lparr>ts_tx := ts_tx s @ b\<rparr>, Inr ())"
  by (simp add: tcp_write_def)

end
