(* ===== verification/Socks5.thy ===== *)
theory Socks5
  imports Tcp_Stream
begin

text \<open>
  \<open>src/util/socks5/\<close> and the conversion of a request into a \<open>RunAddr\<close> in \<open>src/util.rs\<close>.  The trait
  \<open>Socks5MessageParser\<close> has one required operation, \<open>read_exact\<close>, and the message parsers are
  written against it, so here they take it as their first argument.  \<open>BytesParser\<close> (a cursor in a
  byte vector) and \<open>StreamParser\<close> (a stream's \<open>read_exact\<close>) are its two implementations.

  The locale \<open>socks5_source\<close> is the contract the parsers need: a read of \<open>n > 0\<close> bytes that are there
  returns exactly them, and every successful read fills the buffer.  It is proved for both
  implementations, and the lemmas on parsing a well-formed message are stated once inside it.
\<close>

section \<open>Parser operations\<close>

definition NO_AUTH :: u8 where "NO_AUTH = 0"
definition CMD_CONNECT :: u8 where "CMD_CONNECT = 1"
definition CMD_UDP :: u8 where "CMD_UDP = 3"

definition read_u8 :: "'p reader \<Rightarrow> ('p, u8) op" where
  "read_u8 rx = st_bind (\<lambda>p. rx p 1) (\<lambda>buf p. (p, index buf 0))"

definition read_u16 :: "'p reader \<Rightarrow> ('p, u16) op" where
  "read_u16 rx = st_bind (\<lambda>p. rx p 2) (\<lambda>buf. st_ret (of_be16 buf))"

definition read_vec :: "'p reader \<Rightarrow> nat \<Rightarrow> ('p, bytes) op" where
  "read_vec rx len = st_bind (\<lambda>p. rx p len) (\<lambda>buf. st_ret buf)"

record bytes_parser =
  bp_data :: bytes
  bp_cursor :: nat

definition bytes_parser_new :: "bytes \<Rightarrow> bytes_parser" where
  "bytes_parser_new data = \<lparr>bp_data = data, bp_cursor = 0\<rparr>"

definition bytes_read_exact :: "bytes_parser reader" where
  "bytes_read_exact p len =
     (if length (bp_data p) < bp_cursor p + len
      then (p, Inl (IoError InvalidInput ''no enough data''))
      else (p\<lparr>bp_cursor := bp_cursor p + len\<rparr>, slice (bp_data p) (bp_cursor p) (bp_cursor p + len)))"

text \<open>\<open>StreamParser\<close> keeps the buffer and drops the count that \<open>read_exact\<close> returns.\<close>

definition stream_read_exact :: "'s reader \<Rightarrow> 's reader" where
  "stream_read_exact rd s len =
     (case read_exact rd s len of
        (s', Inl e) \<Rightarrow> (s', Inl e)
      | (s', Inr (buf, _)) \<Rightarrow> (s', Inr buf))"

section \<open>Messages\<close>

record client_hello =
  ch_version :: u8
  ch_method_num :: u8
  ch_methods :: bytes

definition hello_parse_inner :: "'p reader \<Rightarrow> ('p, client_hello) op" where
  "hello_parse_inner rx =
     st_bind (read_u8 rx) (\<lambda>version.
     if version \<noteq> 5 then st_fail (IoError InvalidData ''invalid socks version'')
     else
       st_bind (read_u8 rx) (\<lambda>method_num.
       st_bind (read_vec rx (unat method_num)) (\<lambda>methods.
         st_ret \<lparr>ch_version = version, ch_method_num = method_num, ch_methods = methods\<rparr>)))"

definition hello_parse :: "'s reader \<Rightarrow> ('s, client_hello) op" where
  "hello_parse rd = hello_parse_inner (stream_read_exact rd)"

definition hello_parse_bytes :: "bytes \<Rightarrow> (client_hello \<times> nat) io" where
  "hello_parse_bytes data =
     (case hello_parse_inner bytes_read_exact (bytes_parser_new data) of
        (p, r) \<Rightarrow> io_bind r (\<lambda>h. Inr (h, bp_cursor p)))"

definition hello_contains :: "client_hello \<Rightarrow> u8 \<Rightarrow> bool" where
  "hello_contains h m \<longleftrightarrow> m \<in> set (ch_methods h)"

record server_hello =
  sh_version :: u8
  sh_method :: u8

definition server_hello_to_bytes :: "server_hello \<Rightarrow> bytes" where
  "server_hello_to_bytes h = [sh_version h, sh_method h]"

record request =
  rq_version :: u8
  rq_cmd :: u8
  rq_rsv :: u8
  rq_a_typ :: u8
  rq_dst_addr :: bytes
  rq_dst_port :: bytes

definition request_addr_len :: "u8 \<Rightarrow> int" where
  "request_addr_len a_typ = (if a_typ = 1 then 4 else if a_typ = 4 then 16 else if a_typ = 3 then 0 else - 1)"

definition request_parse_inner :: "'p reader \<Rightarrow> ('p, request) op" where
  "request_parse_inner rx =
     st_bind (read_u8 rx) (\<lambda>version.
     if version \<noteq> 5 then st_fail (IoError Other ''invalid socks version'')
     else
       st_bind (read_u8 rx) (\<lambda>cmd.
       if cmd \<noteq> CMD_CONNECT \<and> cmd \<noteq> CMD_UDP then
         st_fail (IoError InvalidData
           ''invalid socks cmd, only CONNECT and UDP ASSOCIATE supported'')
       else
         st_bind (read_u8 rx) (\<lambda>rsv.
         st_bind (read_u8 rx) (\<lambda>a_typ.
         let a_len = request_addr_len a_typ in
         if a_len < 0 then st_fail (IoError InvalidData ''invalid addr type'')
         else
           st_bind (if a_len \<noteq> 0 then read_vec rx (nat a_len)
                    else st_bind (read_u8 rx) (\<lambda>len. read_vec rx (unat len))) (\<lambda>dst_addr.
           st_bind (read_u16 rx) (\<lambda>dst_port_u16.
             st_ret \<lparr>rq_version = version, rq_cmd = cmd, rq_rsv = rsv, rq_a_typ = a_typ,
                     rq_dst_addr = dst_addr, rq_dst_port = be16 dst_port_u16\<rparr>))))))"

definition request_parse :: "'s reader \<Rightarrow> ('s, request) op" where
  "request_parse rd = request_parse_inner (stream_read_exact rd)"

definition request_parse_bytes :: "bytes \<Rightarrow> (request \<times> nat) io" where
  "request_parse_bytes data =
     (case request_parse_inner bytes_read_exact (bytes_parser_new data) of
        (p, r) \<Rightarrow> io_bind r (\<lambda>q. Inr (q, bp_cursor p)))"

record confirm =
  cf_status :: u8
  cf_port0 :: u8
  cf_port1 :: u8

definition confirm_new :: "bool \<Rightarrow> u16 \<Rightarrow> confirm" where
  "confirm_new err port =
     (let port = be16 port in
      if err then \<lparr>cf_status = 1, cf_port0 = port ! 0, cf_port1 = port ! 1\<rparr>
      else \<lparr>cf_status = 0, cf_port0 = port ! 0, cf_port1 = port ! 1\<rparr>)"

definition confirm_to_bytes :: "confirm \<Rightarrow> bytes" where
  "confirm_to_bytes c =
     [0x05, cf_status c, 0x00, 0x01, 0x00, 0x00, 0x00, 0x00, cf_port0 c, cf_port1 c]"

definition run_addr_of_request :: "request \<Rightarrow> run_addr io" where
  "run_addr_of_request q =
     (let port = of_be16 (rq_dst_port q) in
      io_bind (addr_string (rq_a_typ q) (rq_dst_addr q)) (\<lambda>addr.
        Inr \<lparr>ra_addr = addr, ra_port = port, ra_udp = (rq_cmd q = CMD_UDP)\<rparr>))"

section \<open>Wire formats\<close>

text \<open>RFC 1928, for stating what the parsers accept.\<close>

definition hello_bytes :: "bytes \<Rightarrow> bytes" where
  "hello_bytes methods = [5, word_of_nat (length methods)] @ methods"

definition request_bytes :: "u8 \<Rightarrow> u8 \<Rightarrow> u8 \<Rightarrow> bytes \<Rightarrow> u16 \<Rightarrow> bytes" where
  "request_bytes cmd rsv a_typ a port = [5, cmd, rsv, a_typ] @ udp_addr_field a_typ a @ be16 port"

definition request_wf :: "u8 \<Rightarrow> u8 \<Rightarrow> bytes \<Rightarrow> bool" where
  "request_wf cmd a_typ a \<longleftrightarrow> (cmd = CMD_CONNECT \<or> cmd = CMD_UDP) \<and> udp_addr_wf a_typ a"

section \<open>The contract of \<open>Socks5MessageParser\<close>\<close>

locale socks5_source =
  fixes rx :: "'p reader"
    and rest :: "'p \<Rightarrow> bytes"
    and good :: "'p \<Rightarrow> bool"
  assumes rx_enough: "good p \<Longrightarrow> 0 < n \<Longrightarrow> n \<le> length (rest p) \<Longrightarrow>
      \<exists>p'. rx p n = (p', Inr (take n (rest p))) \<and> rest p' = drop n (rest p) \<and> good p'"
    and rx_fills: "rx p n = (p', Inr buf) \<Longrightarrow> length buf = n"
begin

lemma read_u8_ok:
  assumes "good p" and "rest p = b # r"
  shows "\<exists>p'. read_u8 rx p = (p', Inr b) \<and> rest p' = r \<and> good p'"
  using rx_enough [of p 1] assms by (auto simp: read_u8_def st_bind_def)

lemma read_u16_ok:
  assumes "good p" and "rest p = be16 x @ r"
  shows "\<exists>p'. read_u16 rx p = (p', Inr x) \<and> rest p' = r \<and> good p'"
  using rx_enough [of p 2] assms by (auto simp: read_u16_def st_bind_def)

lemma read_vec_ok:
  assumes "good p" and "rest p = a @ r" and "a \<noteq> []"
  shows "\<exists>p'. read_vec rx (length a) p = (p', Inr a) \<and> rest p' = r \<and> good p'"
  using rx_enough [of p "length a"] assms by (auto simp: read_vec_def st_bind_def)

text \<open>A well-formed hello with at least one method is read, and nothing after it.\<close>

lemma hello_parse_inner_ok:
  assumes "good p" and "rest p = hello_bytes ms @ r" and "ms \<noteq> []" and "length ms < 256"
  shows "\<exists>p'. hello_parse_inner rx p =
           (p', Inr \<lparr>ch_version = 5, ch_method_num = word_of_nat (length ms), ch_methods = ms\<rparr>)
         \<and> rest p' = r \<and> good p'"
proof -
  have "rest p = 5 # word_of_nat (length ms) # ms @ r"
    using assms(2) by (simp add: hello_bytes_def)
  from read_u8_ok [OF assms(1) this] obtain p1
    where p1: "read_u8 rx p = (p1, Inr 5)" "rest p1 = word_of_nat (length ms) # ms @ r" "good p1"
    by blast
  from read_u8_ok [OF p1(3,2)] obtain p2
    where p2: "read_u8 rx p1 = (p2, Inr (word_of_nat (length ms)))" "rest p2 = ms @ r" "good p2"
    by blast
  from read_vec_ok [OF p2(3,2) assms(3)] obtain p3
    where p3: "read_vec rx (length ms) p2 = (p3, Inr ms)" "rest p3 = r" "good p3"
    by blast
  have "unat (word_of_nat (length ms) :: u8) = length ms"
    using assms(4) by (simp add: unat_u8_of_nat)
  with p1 p2 p3 show ?thesis by (simp add: hello_parse_inner_def st_bind_def)
qed

text \<open>The address field, by type.\<close>

lemma read_addr_ok:
  assumes "good p" and "rest p = udp_addr_field a_typ a @ r" and "udp_addr_wf a_typ a" and "a \<noteq> []"
  shows "\<exists>p'. (if request_addr_len a_typ \<noteq> 0 then read_vec rx (nat (request_addr_len a_typ))
               else st_bind (read_u8 rx) (\<lambda>len. read_vec rx (unat len))) p = (p', Inr a)
            \<and> rest p' = r \<and> good p'"
proof (cases "a_typ = 3")
  case True
  with assms(2) have "rest p = word_of_nat (length a) # a @ r" by (simp add: udp_addr_field_def)
  from read_u8_ok [OF assms(1) this] obtain p1
    where p1: "read_u8 rx p = (p1, Inr (word_of_nat (length a)))" "rest p1 = a @ r" "good p1"
    by blast
  from read_vec_ok [OF p1(3,2) assms(4)] obtain p2
    where p2: "read_vec rx (length a) p1 = (p2, Inr a)" "rest p2 = r" "good p2"
    by blast
  have "unat (word_of_nat (length a) :: u8) = length a"
    using assms(3) True by (simp add: unat_u8_of_nat udp_addr_wf_def)
  with p1 p2 True show ?thesis by (simp add: request_addr_len_def st_bind_def)
next
  case False
  with assms(2) have "rest p = a @ r" by (simp add: udp_addr_field_def)
  from read_vec_ok [OF assms(1) this assms(4)] show ?thesis
    using assms(3) False by (auto simp: request_addr_len_def udp_addr_wf_def)
qed

text \<open>Up to the port, a request's fields are read as written.\<close>

lemma request_parse_inner_until_port:
  assumes "good p" and "request_wf cmd a_typ a" and "a \<noteq> []"
    and "rest p = [5, cmd, rsv, a_typ] @ udp_addr_field a_typ a @ r"
  shows "\<exists>q. request_parse_inner rx p =
      st_bind (read_u16 rx) (\<lambda>port. st_ret \<lparr>rq_version = 5, rq_cmd = cmd, rq_rsv = rsv,
        rq_a_typ = a_typ, rq_dst_addr = a, rq_dst_port = be16 port\<rparr>) q \<and> rest q = r \<and> good q"
proof -
  have "rest p = 5 # cmd # rsv # a_typ # udp_addr_field a_typ a @ r"
    using assms(4) by simp
  from read_u8_ok [OF assms(1) this] obtain p1
    where p1: "read_u8 rx p = (p1, Inr 5)" "rest p1 = cmd # rsv # a_typ # udp_addr_field a_typ a @ r"
      "good p1" by blast
  from read_u8_ok [OF p1(3,2)] obtain p2
    where p2: "read_u8 rx p1 = (p2, Inr cmd)" "rest p2 = rsv # a_typ # udp_addr_field a_typ a @ r"
      "good p2" by blast
  from read_u8_ok [OF p2(3,2)] obtain p3
    where p3: "read_u8 rx p2 = (p3, Inr rsv)" "rest p3 = a_typ # udp_addr_field a_typ a @ r"
      "good p3" by blast
  from read_u8_ok [OF p3(3,2)] obtain p4
    where p4: "read_u8 rx p3 = (p4, Inr a_typ)" "rest p4 = udp_addr_field a_typ a @ r" "good p4"
    by blast
  have wf: "udp_addr_wf a_typ a" and cmd: "cmd = CMD_CONNECT \<or> cmd = CMD_UDP"
    using assms(2) by (auto simp: request_wf_def)
  let ?m = "if request_addr_len a_typ \<noteq> 0 then read_vec rx (nat (request_addr_len a_typ))
            else st_bind (read_u8 rx) (\<lambda>len. read_vec rx (unat len))"
  from read_addr_ok [OF p4(3,2) wf assms(3)] obtain p5
    where p5: "?m p4 = (p5, Inr a)" "rest p5 = r" "good p5" by blast
  have len: "\<not> request_addr_len a_typ < 0"
    using wf by (auto simp: request_addr_len_def udp_addr_wf_def)
  have c: "\<not> (cmd \<noteq> CMD_CONNECT \<and> cmd \<noteq> CMD_UDP)" using cmd by blast
  have "request_parse_inner rx p =
      st_bind (read_u16 rx) (\<lambda>port. st_ret \<lparr>rq_version = 5, rq_cmd = cmd, rq_rsv = rsv,
        rq_a_typ = a_typ, rq_dst_addr = a, rq_dst_port = be16 port\<rparr>) p5"
    by (simp only: request_parse_inner_def st_bind_Inr [of "read_u8 rx" p, OF p1(1)]
        st_bind_Inr [of "read_u8 rx" p1, OF p2(1)] st_bind_Inr [of "read_u8 rx" p2, OF p3(1)]
        st_bind_Inr [of "read_u8 rx" p3, OF p4(1)] st_bind_Inr [of ?m p4, OF p5(1)] Let_def len c
        simp_thms if_False)
  with p5 show ?thesis by blast
qed

lemma request_parse_inner_ok:
  assumes "good p" and "request_wf cmd a_typ a" and "a \<noteq> []"
    and "rest p = request_bytes cmd rsv a_typ a port @ r"
  shows "\<exists>p'. request_parse_inner rx p =
      (p', Inr \<lparr>rq_version = 5, rq_cmd = cmd, rq_rsv = rsv, rq_a_typ = a_typ,
                rq_dst_addr = a, rq_dst_port = be16 port\<rparr>) \<and> rest p' = r \<and> good p'"
proof -
  have "rest p = [5, cmd, rsv, a_typ] @ udp_addr_field a_typ a @ be16 port @ r"
    using assms(4) by (simp add: request_bytes_def)
  from request_parse_inner_until_port [OF assms(1,2,3) this] obtain q
    where q: "request_parse_inner rx p =
      st_bind (read_u16 rx) (\<lambda>port. st_ret \<lparr>rq_version = 5, rq_cmd = cmd, rq_rsv = rsv,
        rq_a_typ = a_typ, rq_dst_addr = a, rq_dst_port = be16 port\<rparr>) q"
      and r: "rest q = be16 port @ r" "good q"
    by blast
  from read_u16_ok [OF r(2,1)] q show ?thesis by (auto simp: st_bind_def)
qed

text \<open>A parsed request has version 5, a supported command, and an address of its type's length,
  so that only a domain that is not UTF-8 makes its conversion fail.\<close>

lemma read_u16_len: "request_parse_inner rx p = (p', Inr q) \<Longrightarrow> length (rq_dst_port q) = 2"
  by (auto simp: request_parse_inner_def st_bind_eq_Inr Let_def split: if_splits)

lemma request_parse_inner_fields:
  assumes "request_parse_inner rx p = (p', Inr q)"
  shows "rq_version q = 5 \<and> (rq_cmd q = CMD_CONNECT \<or> rq_cmd q = CMD_UDP)
    \<and> (rq_a_typ q = 1 \<and> length (rq_dst_addr q) = 4 \<or> rq_a_typ q = 4 \<and> length (rq_dst_addr q) = 16
       \<or> rq_a_typ q = 3 \<and> length (rq_dst_addr q) < 256)"
proof -
  have vec: "length b = n" if "read_vec rx n u = (v, Inr b)" for n u v b
    using that rx_fills by (auto simp: read_vec_def st_bind_eq_Inr)
  show ?thesis using assms
    by (auto simp: request_parse_inner_def st_bind_eq_Inr Let_def request_addr_len_def
        split: if_splits dest!: vec)
qed

end

section \<open>The two implementations\<close>

definition bp_rest :: "bytes_parser \<Rightarrow> bytes" where
  "bp_rest p = drop (bp_cursor p) (bp_data p)"

definition bp_good :: "bytes \<Rightarrow> bytes_parser \<Rightarrow> bool" where
  "bp_good d p \<longleftrightarrow> bp_data p = d \<and> bp_cursor p \<le> length (bp_data p)"

interpretation bp: socks5_source bytes_read_exact bp_rest "bp_good d" for d
proof
  fix p n
  show "bp_good d p \<Longrightarrow> 0 < n \<Longrightarrow> n \<le> length (bp_rest p) \<Longrightarrow>
      \<exists>p'. bytes_read_exact p n = (p', Inr (take n (bp_rest p)))
        \<and> bp_rest p' = drop n (bp_rest p) \<and> bp_good d p'"
    by (auto simp: bytes_read_exact_def bp_rest_def bp_good_def slice_def add.commute)
next
  fix p n p' buf
  show "bytes_read_exact p n = (p', Inr buf) \<Longrightarrow> length buf = n"
    by (auto simp: bytes_read_exact_def slice_def split: if_splits)
qed

lemma stream_read_exact_len:
  assumes "byte_stream rd pending" and "stream_read_exact rd s n = (s', Inr buf)"
  shows "length buf = n"
  using assms(2) byte_stream.read_exact_prefix [OF assms(1), of s n s']
  by (fastforce simp: stream_read_exact_def split: prod.splits sum.splits)

context live_stream
begin

lemma stream_read_exact_enough:
  assumes "alive s" and "0 < n" and "n \<le> length (pending s)"
  shows "\<exists>s'. stream_read_exact rd s n = (s', Inr (take n (pending s)))
            \<and> pending s' = drop n (pending s) \<and> alive s'"
  using read_exact_enough [OF assms] by (auto simp: stream_read_exact_def)

end

sublocale live_stream \<subseteq> stream_source: socks5_source "stream_read_exact rd" pending alive
  using stream_read_exact_enough stream_read_exact_len [OF byte_stream_axioms]
  by unfold_locales blast+

section \<open>Parsing byte vectors\<close>

lemma bp_new [simp]: "bp_rest (bytes_parser_new d) = d" "bp_good d (bytes_parser_new d)"
  by (simp_all add: bp_rest_def bp_good_def bytes_parser_new_def)

lemma bp_cursor_rest: "bp_good d p \<Longrightarrow> bp_rest p = r \<Longrightarrow> bp_cursor p = length d - length r"
  by (auto simp: bp_good_def bp_rest_def)

lemma hello_parse_bytes_ok:
  assumes "ms \<noteq> []" and "length ms < 256"
  shows "hello_parse_bytes (hello_bytes ms @ r) =
    Inr (\<lparr>ch_version = 5, ch_method_num = word_of_nat (length ms), ch_methods = ms\<rparr>,
         length (hello_bytes ms))"
proof -
  let ?d = "hello_bytes ms @ r"
  from bp.hello_parse_inner_ok [of ?d "bytes_parser_new ?d", OF _ _ assms] obtain p'
    where "hello_parse_inner bytes_read_exact (bytes_parser_new ?d) =
        (p', Inr \<lparr>ch_version = 5, ch_method_num = word_of_nat (length ms), ch_methods = ms\<rparr>)"
      and "bp_rest p' = r" "bp_good ?d p'"
    by auto
  then show ?thesis using bp_cursor_rest [of ?d p' r] by (simp add: hello_parse_bytes_def)
qed

lemma request_parse_bytes_ok:
  assumes "request_wf cmd a_typ a" and "a \<noteq> []"
  shows "request_parse_bytes (request_bytes cmd rsv a_typ a port @ r) =
    Inr (\<lparr>rq_version = 5, rq_cmd = cmd, rq_rsv = rsv, rq_a_typ = a_typ,
          rq_dst_addr = a, rq_dst_port = be16 port\<rparr>, length (request_bytes cmd rsv a_typ a port))"
proof -
  let ?d = "request_bytes cmd rsv a_typ a port @ r"
  have "bp_rest (bytes_parser_new ?d) = request_bytes cmd rsv a_typ a port @ r" by simp
  from bp.request_parse_inner_ok [OF bp_new(2) assms this] obtain p'
    where "request_parse_inner bytes_read_exact (bytes_parser_new ?d) =
      (p', Inr \<lparr>rq_version = 5, rq_cmd = cmd, rq_rsv = rsv, rq_a_typ = a_typ,
                rq_dst_addr = a, rq_dst_port = be16 port\<rparr>)"
      and "bp_rest p' = r" "bp_good ?d p'"
    by auto
  then show ?thesis using bp_cursor_rest [of ?d p' r] by (simp add: request_parse_bytes_def)
qed

lemma request_parse_inner_port:
  "request_parse_inner rx p = (p', Inr q) \<Longrightarrow> length (rq_dst_port q) = 2"
  by (auto simp: request_parse_inner_def st_bind_eq_Inr Let_def split: if_splits)

text \<open>The cursor never leaves the vector, and the vector is not changed.\<close>

definition bp_inv :: "bytes \<Rightarrow> bytes_parser \<Rightarrow> bool" where
  "bp_inv d p \<longleftrightarrow> bp_data p = d \<and> bp_cursor p \<le> length d"

lemma bp_inv_new: "bp_inv d (bytes_parser_new d)"
  by (simp add: bp_inv_def bytes_parser_new_def)

lemma bytes_read_exact_inv: "bp_inv d p \<Longrightarrow> bp_inv d (fst (bytes_read_exact p n))"
  by (auto simp: bp_inv_def bytes_read_exact_def)

lemma st_bind_inv:
  assumes "P p" and "\<And>p. P p \<Longrightarrow> P (fst (m p))" and "\<And>a p. P p \<Longrightarrow> P (fst (k a p))"
  shows "P (fst (st_bind m k p))"
  using assms(2) [OF assms(1)] assms(3)
  by (auto simp: st_bind_def split: prod.splits sum.splits)

lemma request_parse_inner_cursor:
  assumes "request_parse_inner bytes_read_exact (bytes_parser_new d) = (p', Inr q)"
  shows "bp_cursor p' \<le> length d"
proof -
  have u: "bp_inv d (fst (read_u8 bytes_read_exact p))" "bp_inv d (fst (read_u16 bytes_read_exact p))"
    "bp_inv d (fst (read_vec bytes_read_exact l p))" if "bp_inv d p" for p l
    using that bytes_read_exact_inv
    by (auto simp: read_u8_def read_u16_def read_vec_def intro!: st_bind_inv [where P = "bp_inv d"])
  have "bp_inv d (fst (request_parse_inner bytes_read_exact (bytes_parser_new d)))"
    unfolding request_parse_inner_def Let_def
    by (intro st_bind_inv [where P = "bp_inv d"])
      (auto intro!: bp_inv_new u st_bind_inv [where P = "bp_inv d"])
  with assms show ?thesis by (simp add: bp_inv_def)
qed

section \<open>Conversion of a parsed request\<close>

text \<open>The address a SOCKS5 address field denotes.\<close>

definition ip_of_field :: "u8 \<Rightarrow> bytes \<Rightarrow> ip_addr" where
  "ip_of_field a_typ a =
     (if a_typ = 1 then V4 (a ! 0) (a ! 1) (a ! 2) (a ! 3)
      else V6 (be_pair a 0) (be_pair a 2) (be_pair a 4) (be_pair a 6)
              (be_pair a 8) (be_pair a 10) (be_pair a 12) (be_pair a 14))"

lemma addr_string_wf:
  assumes "udp_addr_wf a_typ a"
  shows "addr_string a_typ a =
    (if a_typ = 3 then
       if utf8_ok a then Inr (str_of_bytes a) else Inl (IoError Other ''Not a domain'')
     else Inr (show_ip (ip_of_field a_typ a)))"
  using assms by (auto simp: addr_string_def udp_addr_wf_def ip_of_field_def from_utf8_def)

section \<open>Properties\<close>

text \<open>C16: A well-formed SOCKS5 request (version 5, CONNECT or UDP ASSOCIATE, an IPv4, IPv6 or
  non-empty domain address), followed by any bytes, is parsed from a byte vector to exactly its
  fields; the cursor stops right after it, and the conversion to \<open>RunAddr\<close> gives its address,
  port and UDP flag, failing only on a domain that is not UTF-8.\<close>

theorem request_bytes_roundtrip:
  assumes "request_wf cmd a_typ a" and "a \<noteq> []"
  shows "\<exists>q. request_parse_bytes (request_bytes cmd rsv a_typ a port @ r)
        = Inr (q, length (request_bytes cmd rsv a_typ a port))
      \<and> rq_cmd q = cmd \<and> rq_a_typ q = a_typ \<and> rq_dst_addr q = a
      \<and> run_addr_of_request q =
          (if a_typ = 3 \<and> \<not> utf8_ok a then Inl (IoError Other ''Not a domain'')
           else Inr \<lparr>ra_addr = (if a_typ = 3 then str_of_bytes a else show_ip (ip_of_field a_typ a)),
                     ra_port = port, ra_udp = (cmd = CMD_UDP)\<rparr>)"
  using assms
  by (simp add: request_parse_bytes_ok run_addr_of_request_def request_wf_def addr_string_wf)

lemma request_bytes_roundtrip_witness:
  "\<exists>q. request_parse_bytes (request_bytes 1 0 3 [97, 46, 98] 443 @ [22]) = Inr (q, 10)
     \<and> run_addr_of_request q = Inr \<lparr>ra_addr = ''a.b'', ra_port = 443, ra_udp = False\<rparr>"
proof -
  have "request_wf 1 3 [97, 46, 98]" by code_simp
  from request_bytes_roundtrip [OF this, of 0 443 "[22]"] obtain q
    where q: "request_parse_bytes (request_bytes 1 0 3 [97, 46, 98] 443 @ [22]) =
        Inr (q, length (request_bytes 1 0 3 [97, 46, 98] 443))"
      and c: "run_addr_of_request q = (if (3 :: u8) = 3 \<and> \<not> utf8_ok [97, 46, 98]
        then Inl (IoError Other ''Not a domain'')
        else Inr \<lparr>ra_addr = (if (3 :: u8) = 3 then str_of_bytes [97, 46, 98]
            else show_ip (ip_of_field 3 [97, 46, 98])), ra_port = 443, ra_udp = ((1 :: u8) = CMD_UDP)\<rparr>)"
    by auto
  have "length (request_bytes 1 0 3 [97, 46, 98] 443) = 10" by code_simp
  moreover have "utf8_ok [97, 46, 98]" "str_of_bytes [97, 46, 98] = ''a.b''" "(1 :: u8) \<noteq> CMD_UDP"
    by code_simp+
  ultimately show ?thesis using q c by auto
qed

text \<open>C17: Parsing a request from a TCP stream gives the same fields as parsing it from a byte vector,
  however the network cuts the bytes into segments, and leaves exactly the bytes after the
  request in the stream for the relay.\<close>

theorem request_stream_equiv_bytes:
  assumes "request_wf cmd a_typ a" and "a \<noteq> []"
    and "tcp_clean s" and "tcp_pending s = request_bytes cmd rsv a_typ a port @ r"
  shows "\<exists>s' q n. request_parse tcp_read s = (s', Inr q)
      \<and> request_parse_bytes (tcp_pending s) = Inr (q, n)
      \<and> tcp_pending s' = drop n (tcp_pending s) \<and> tcp_pending s' = r
      \<and> ts_tx s' = ts_tx s \<and> ts_info s' = ts_info s"
proof -
  have "tcp_alive (ts_tx s) (ts_err s) (ts_info s) s" using assms(3) by (simp add: tcp_alive_def)
  from tcp.stream_source.request_parse_inner_ok [OF this assms(1,2,4)] obtain s'
    where "request_parse tcp_read s = (s', Inr \<lparr>rq_version = 5, rq_cmd = cmd, rq_rsv = rsv,
        rq_a_typ = a_typ, rq_dst_addr = a, rq_dst_port = be16 port\<rparr>)"
      and "tcp_pending s' = r" "tcp_alive (ts_tx s) (ts_err s) (ts_info s) s'"
    by (auto simp: request_parse_def)
  with request_parse_bytes_ok [OF assms(1,2), of rsv port r] assms(4) show ?thesis
    by (auto simp: tcp_alive_def)
qed

definition demo_conn :: tcp_stream where
  "demo_conn = tcp_run_stream_new
     [Segment [5, 1], Segment [0, 1, 10], Segment [0, 0], Segment [1, 31, 144, 71]]"

lemma request_stream_equiv_bytes_witness:
  "\<exists>s' q n. request_parse tcp_read demo_conn = (s', Inr q)
      \<and> request_parse_bytes (tcp_pending demo_conn) = Inr (q, n) \<and> tcp_pending s' = [71]"
proof -
  have "request_wf 1 1 [10, 0, 0, 1]" "tcp_clean demo_conn"
    "tcp_pending demo_conn = request_bytes 1 0 1 [10, 0, 0, 1] 8080 @ [71]"
    by code_simp+
  from request_stream_equiv_bytes [OF this(1) _ this(2,3)] show ?thesis by auto
qed

text \<open>A request over a stream that ends one byte early, in the middle of the port, is accepted:
  the missing low byte of the port reads as zero, because \<open>RunStream::read_exact\<close> reports a short
  read as success and \<open>StreamParser\<close> drops the count.  The byte-vector parser rejects the same
  bytes.\<close>

theorem truncated_request_accepted:
  assumes "request_wf cmd a_typ a" and "a \<noteq> []"
    and "tcp_clean s" and "tcp_pending s = butlast (request_bytes cmd rsv a_typ a port)"
  shows "(\<exists>s' q. request_parse tcp_read s = (s', Inr q) \<and> rq_dst_addr q = a
            \<and> rq_dst_port q = [be16 port ! 0, 0])
      \<and> request_parse_bytes (tcp_pending s) = Inl (IoError InvalidInput ''no enough data'')"
proof -
  have split: "request_bytes cmd rsv a_typ a port =
      ([5, cmd, rsv, a_typ] @ udp_addr_field a_typ a @ [be16 port ! 0]) @ [be16 port ! 1]"
    using be16_Cons [of port] by (simp add: request_bytes_def)
  then have pend: "tcp_pending s = [5, cmd, rsv, a_typ] @ udp_addr_field a_typ a @ [be16 port ! 0]"
    using assms(4) by (simp only: butlast_snoc)
  let ?alive = "tcp_alive (ts_tx s) (ts_err s) (ts_info s)"
  have al: "?alive s" using assms(3) by (simp add: tcp_alive_def)
  from tcp.stream_source.request_parse_inner_until_port [OF al assms(1,2) pend] obtain u
    where u: "request_parse tcp_read s = st_bind (read_u16 (stream_read_exact tcp_read))
        (\<lambda>port. st_ret \<lparr>rq_version = 5, rq_cmd = cmd, rq_rsv = rsv, rq_a_typ = a_typ,
           rq_dst_addr = a, rq_dst_port = be16 port\<rparr>) u"
      and up: "tcp_pending u = [be16 port ! 0]" "?alive u"
    by (auto simp: request_parse_def)
  from tcp.read_exact_short [OF up(2), of 2] up(1) obtain v
    where "read_exact tcp_read u 2 = (v, Inr ([be16 port ! 0, 0], 1))" by auto
  then have stream: "\<exists>s' q. request_parse tcp_read s = (s', Inr q) \<and> rq_dst_addr q = a
      \<and> rq_dst_port q = [be16 port ! 0, 0]"
    by (simp add: u read_u16_def st_bind_def stream_read_exact_def be16_of_be16)
  let ?d = "tcp_pending s"
  from bp.request_parse_inner_until_port [of ?d "bytes_parser_new ?d", OF _ assms(1,2)] pend
  obtain w where w: "request_parse_inner bytes_read_exact (bytes_parser_new ?d) =
      st_bind (read_u16 bytes_read_exact)
        (\<lambda>port. st_ret \<lparr>rq_version = 5, rq_cmd = cmd, rq_rsv = rsv, rq_a_typ = a_typ,
           rq_dst_addr = a, rq_dst_port = be16 port\<rparr>) w"
      and "bp_rest w = [be16 port ! 0]" "bp_good ?d w"
    by auto
  then have "length (bp_data w) < bp_cursor w + 2"
    by (auto simp: bp_good_def bp_rest_def dest: arg_cong [where f = length])
  then have "request_parse_bytes ?d = Inl (IoError InvalidInput ''no enough data'')"
    by (simp add: request_parse_bytes_def w read_u16_def st_bind_def bytes_read_exact_def)
  with stream show ?thesis by blast
qed

lemma truncated_request_accepted_witness:
  "\<exists>s' q. request_parse tcp_read (tcp_run_stream_new [Segment [5, 1, 0, 1, 10, 0, 0, 1, 31]])
     = (s', Inr q) \<and> rq_dst_port q = [31, 0]"
proof -
  let ?s = "tcp_run_stream_new [Segment [5, 1, 0, 1, 10, 0, 0, 1, 31]]"
  have "request_wf 1 1 [10, 0, 0, 1]" "tcp_clean ?s"
    "tcp_pending ?s = butlast (request_bytes 1 0 1 [10, 0, 0, 1] 8080)" "be16 8080 ! 0 = 31"
    by code_simp+
  with truncated_request_accepted [OF this(1) _ this(2,3)] show ?thesis by auto
qed

text \<open>Every request the byte-vector parser accepts has version 5, a supported command and an
  address of the length its type requires, and neither parsing nor the conversion of the result
  panics: the length checks in the conversion can only fail for a request not built by the
  parser.\<close>

theorem parsed_request_wf:
  assumes "request_parse_bytes d = Inr (q, n)"
  shows "rq_version q = 5 \<and> request_wf (rq_cmd q) (rq_a_typ q) (rq_dst_addr q)
      \<and> length (rq_dst_port q) = 2 \<and> n \<le> length d \<and> \<not> is_panic (run_addr_of_request q)
      \<and> (\<forall>e. run_addr_of_request q = Inl e \<longrightarrow>
             rq_a_typ q = 3 \<and> \<not> utf8_ok (rq_dst_addr q) \<and> e = IoError Other ''Not a domain'')"
proof -
  from assms obtain p' where p: "request_parse_inner bytes_read_exact (bytes_parser_new d) = (p', Inr q)"
    and n: "n = bp_cursor p'"
    by (auto simp: request_parse_bytes_def io_bind_eq_Inr split: prod.splits)
  from bp.request_parse_inner_fields [OF p] have f: "rq_version q = 5"
      "request_wf (rq_cmd q) (rq_a_typ q) (rq_dst_addr q)"
    by (auto simp: request_wf_def udp_addr_wf_def)
  from request_parse_inner_port [OF p] have port: "length (rq_dst_port q) = 2" .
  have le: "n \<le> length d"
    using request_parse_inner_cursor [OF p] n by simp
  have "addr_string (rq_a_typ q) (rq_dst_addr q) = (if rq_a_typ q = 3 then
       if utf8_ok (rq_dst_addr q) then Inr (str_of_bytes (rq_dst_addr q))
       else Inl (IoError Other ''Not a domain'')
     else Inr (show_ip (ip_of_field (rq_a_typ q) (rq_dst_addr q))))"
    using f(2) by (simp add: request_wf_def addr_string_wf)
  then have "is_panic (run_addr_of_request q) = False"
      "run_addr_of_request q = Inl e \<Longrightarrow>
         rq_a_typ q = 3 \<and> \<not> utf8_ok (rq_dst_addr q) \<and> e = IoError Other ''Not a domain''" for e
    by (auto simp: run_addr_of_request_def split: if_splits)
  with f port le show ?thesis by blast
qed

lemma parsed_request_wf_witness:
  "request_parse_bytes [5, 1, 0, 1, 10, 0, 0, 1, 31, 144, 71] =
     Inr (\<lparr>rq_version = 5, rq_cmd = 1, rq_rsv = 0, rq_a_typ = 1, rq_dst_addr = [10, 0, 0, 1],
           rq_dst_port = [31, 144]\<rparr>, 10) \<and> request_wf 1 1 [10, 0, 0, 1]"
proof -
  have "request_parse_bytes [5, 1, 0, 1, 10, 0, 0, 1, 31, 144, 71] =
     Inr (\<lparr>rq_version = 5, rq_cmd = 1, rq_rsv = 0, rq_a_typ = 1, rq_dst_addr = [10, 0, 0, 1],
           rq_dst_port = [31, 144]\<rparr>, 10)"
    by code_simp
  with parsed_request_wf [OF this] show ?thesis by simp
qed

end
