(* ===== verification/Socks5_Acceptor.thy ===== *)
theory Socks5_Acceptor
  imports Socks5
begin

text \<open>
  \<open>src/listener/tcp.rs\<close> and \<open>src/listener/socks5.rs\<close>: accepting TCP connections, and the SOCKS5
  handshake on one.  A listening socket is the list of what \<open>accept\<close> still returns: connections
  with the peer's address, or errors.  An acceptor's handshake returns the requested address and
  the bytes it read beyond the handshake, if it kept any.
\<close>

section \<open>The plain TCP acceptor\<close>

type_synonym tcp_listener = "(fault + (net_event list \<times> socket_addr)) list"

definition tcp_accept :: "(tcp_listener, tcp_stream \<times> socket_addr) op" where
  "tcp_accept ls =
     (case ls of
        [] \<Rightarrow> ([], Inl (IoError Other ''listener closed''))
      | Inl e # r \<Rightarrow> (r, Inl e)
      | Inr (socket, addr) # r \<Rightarrow>
          (r, Inr (tcp_set_info (\<lambda>x. x\<lparr>si_protocol_name := ''tcp''\<rparr>) (tcp_run_stream_new socket),
                   addr)))"

definition tcp_handshake :: "(tcp_stream, run_addr \<times> bytes option) op" where
  "tcp_handshake s = (s, Inr (\<lparr>ra_addr = [], ra_port = 0, ra_udp = False\<rparr>, None))"

section \<open>The SOCKS5 acceptor\<close>

definition socks_accept :: "(tcp_listener, tcp_stream \<times> socket_addr) op" where
  "socks_accept = tcp_accept"

definition socks_handshake :: "(tcp_stream, run_addr \<times> bytes option) op" where
  "socks_handshake s =
     (let s = tcp_set_info (\<lambda>x. x\<lparr>si_protocol_name := ''socks5''\<rparr>) s in
      st_bind (hello_parse tcp_read) (\<lambda>hello.
      if \<not> hello_contains hello NO_AUTH then
        st_fail (IoError InvalidInput ''no available authentication found'')
      else
        let hello_back = \<lparr>sh_version = ch_version hello, sh_method = NO_AUTH\<rparr> in
        st_bind (\<lambda>s. tcp_write s (server_hello_to_bytes hello_back)) (\<lambda>_.
        st_bind (request_parse tcp_read) (\<lambda>req s.
          (s, io_bind (run_addr_of_request req) (\<lambda>addr. Inr (addr, None)))))) s)"

definition socks_post_handshake :: "bool \<Rightarrow> u16 \<Rightarrow> (tcp_stream, unit) op" where
  "socks_post_handshake error port s = tcp_write s (confirm_to_bytes (confirm_new error port))"

lemma hello_parse_ok:
  assumes "tcp_alive tx err info s" and "tcp_pending s = hello_bytes ms @ r"
    and "ms \<noteq> []" and "length ms < 256"
  shows "\<exists>s'. hello_parse tcp_read s =
           (s', Inr \<lparr>ch_version = 5, ch_method_num = word_of_nat (length ms), ch_methods = ms\<rparr>)
         \<and> tcp_pending s' = r \<and> tcp_alive tx err info s'"
  unfolding hello_parse_def by (rule tcp.stream_source.hello_parse_inner_ok [OF assms])

lemma request_parse_ok:
  assumes "tcp_alive tx err info s" and "request_wf cmd a_typ a" and "a \<noteq> []"
    and "tcp_pending s = request_bytes cmd rsv a_typ a port @ r"
  shows "\<exists>s'. request_parse tcp_read s = (s', Inr \<lparr>rq_version = 5, rq_cmd = cmd, rq_rsv = rsv,
        rq_a_typ = a_typ, rq_dst_addr = a, rq_dst_port = be16 port\<rparr>)
      \<and> tcp_pending s' = r \<and> tcp_alive tx err info s'"
  unfolding request_parse_def by (rule tcp.stream_source.request_parse_inner_ok [OF assms])

text \<open>What a client that follows the protocol sends, and the address it asks for.\<close>

definition socks_client_bytes :: "bytes \<Rightarrow> u8 \<Rightarrow> u8 \<Rightarrow> bytes \<Rightarrow> u16 \<Rightarrow> bytes" where
  "socks_client_bytes methods cmd a_typ a port =
     hello_bytes methods @ request_bytes cmd 0 a_typ a port"

definition requested :: "u8 \<Rightarrow> u8 \<Rightarrow> bytes \<Rightarrow> u16 \<Rightarrow> run_addr io" where
  "requested cmd a_typ a port =
     io_bind (addr_string a_typ a) (\<lambda>addr.
       Inr \<lparr>ra_addr = addr, ra_port = port, ra_udp = (cmd = CMD_UDP)\<rparr>)"

lemma socks_handshake_ok:
  assumes "tcp_clean s" and "ts_err s = None" and "NO_AUTH \<in> set methods" and "length methods < 256"
    and "request_wf cmd a_typ a" and "a \<noteq> []"
    and "tcp_pending s = socks_client_bytes methods cmd a_typ a port @ rest"
  shows "\<exists>s'. socks_handshake s =
      (s', io_bind (requested cmd a_typ a port) (\<lambda>addr. Inr (addr, None)))
    \<and> ts_tx s' = ts_tx s @ [5, 0] \<and> tcp_pending s' = rest
    \<and> si_protocol_name (ts_info s') = ''socks5'' \<and> ts_err s' = None"
proof -
  let ?s = "tcp_set_info (\<lambda>x. x\<lparr>si_protocol_name := ''socks5''\<rparr>) s"
  let ?i = "ts_info ?s"
  let ?h = "\<lparr>ch_version = 5, ch_method_num = word_of_nat (length methods), ch_methods = methods\<rparr>"
  have a: "tcp_alive (ts_tx s) None ?i ?s" and p: "tcp_pending ?s = hello_bytes methods @ request_bytes cmd 0 a_typ a port @ rest"
    using assms(1,2,7) by (simp_all add: tcp_alive_def tcp_clean_def tcp_set_info_def tcp_pending_def
        socks_client_bytes_def)
  have ne: "methods \<noteq> []" using assms(3) by auto
  from hello_parse_ok [OF a p ne assms(4)] obtain t
    where t: "hello_parse tcp_read ?s = (t, Inr ?h)"
      "tcp_pending t = request_bytes cmd 0 a_typ a port @ rest" "tcp_alive (ts_tx s) None ?i t"
    by blast
  let ?u = "t\<lparr>ts_tx := ts_tx t @ [5, 0]\<rparr>"
  have "tcp_alive (ts_tx s @ [5, 0]) None ?i ?u" "tcp_pending ?u = request_bytes cmd 0 a_typ a port @ rest"
    using t by (simp_all add: tcp_alive_def tcp_clean_def tcp_pending_def)
  from request_parse_ok [OF this(1) assms(5,6) this(2)] obtain v
    where v: "request_parse tcp_read ?u = (v, Inr \<lparr>rq_version = 5, rq_cmd = cmd, rq_rsv = 0,
        rq_a_typ = a_typ, rq_dst_addr = a, rq_dst_port = be16 port\<rparr>)"
      "tcp_pending v = rest" "tcp_alive (ts_tx s @ [5, 0]) None ?i v"
    by blast
  have w: "tcp_write t (server_hello_to_bytes \<lparr>sh_version = 5, sh_method = NO_AUTH\<rparr>) = (?u, Inr ())"
    using t(3) by (simp add: tcp_write_def tcp_alive_def server_hello_to_bytes_def NO_AUTH_def)
  have c: "hello_contains ?h NO_AUTH" using assms(3) by (simp add: hello_contains_def)
  have "socks_handshake s = (v, io_bind (requested cmd a_typ a port) (\<lambda>addr. Inr (addr, None)))"
    unfolding socks_handshake_def Let_def
    by (simp add: st_bind_Inr [of "hello_parse tcp_read" ?s, OF t(1)] c
        st_bind_Inr [of "\<lambda>s. tcp_write s (server_hello_to_bytes \<lparr>sh_version = 5, sh_method = NO_AUTH\<rparr>)" t, OF w]
        st_bind_Inr [of "request_parse tcp_read" ?u, OF v(1)] run_addr_of_request_def requested_def)
  with v show ?thesis by (auto simp: tcp_alive_def tcp_set_info_def)
qed

section \<open>Properties\<close>

text \<open>The SOCKS5 handshake: a client that offers no authentication among its methods and then
  sends a well-formed request gets the two bytes 5, 0 and nothing else, the requested address,
  port and command are what it asked for, and every byte after the request is left in the stream,
  however the network cuts what it sends.\<close>

theorem socks_handshake_accepts:
  assumes "tcp_clean s" and "ts_err s = None" and "NO_AUTH \<in> set methods" and "length methods < 256"
    and "request_wf cmd a_typ a" and "a \<noteq> []"
    and "tcp_pending s = socks_client_bytes methods cmd a_typ a port @ rest"
  shows "\<exists>s'. socks_handshake s =
      (s', io_bind (requested cmd a_typ a port) (\<lambda>addr. Inr (addr, None)))
    \<and> ts_tx s' = ts_tx s @ [5, 0] \<and> tcp_pending s' = rest
    \<and> si_protocol_name (ts_info s') = ''socks5''"
  using socks_handshake_ok [OF assms] by blast

lemma socks_handshake_accepts_witness:
  "\<exists>s'. socks_handshake (tcp_run_stream_new [Segment [5, 2, 2], Segment [0, 5, 1, 0, 1, 10, 0, 0, 1, 0], Segment [80, 71]])
      = (s', Inr (\<lparr>ra_addr = ''10.0.0.1'', ra_port = 80, ra_udp = False\<rparr>, None))
    \<and> ts_tx s' = [5, 0] \<and> tcp_pending s' = [71]"
proof -
  let ?s = "tcp_run_stream_new [Segment [5, 2, 2], Segment [0, 5, 1, 0, 1, 10, 0, 0, 1, 0], Segment [80, 71]]"
  have "tcp_clean ?s" "ts_err ?s = None" "request_wf 1 1 [10, 0, 0, 1]"
    "tcp_pending ?s = socks_client_bytes [2, 0] 1 1 [10, 0, 0, 1] 80 @ [71]"
    "NO_AUTH \<in> set [2, 0]"
    by code_simp+
  moreover have "requested 1 1 [10, 0, 0, 1] 80 = Inr \<lparr>ra_addr = ''10.0.0.1'', ra_port = 80, ra_udp = False\<rparr>"
    by code_simp
  moreover have "ts_tx ?s = []" by (simp add: tcp_run_stream_new_def)
  ultimately show ?thesis
    using socks_handshake_accepts [of ?s "[2, 0]" 1 1 "[10, 0, 0, 1]" 80 "[71]"] by auto
qed

text \<open>A client that does not offer the method without authentication is turned away with an error,
  after its hello and before anything is written to it or its request is read.\<close>

theorem socks_handshake_refuses:
  assumes "tcp_clean s" and "NO_AUTH \<notin> set methods" and "methods \<noteq> []" and "length methods < 256"
    and "tcp_pending s = hello_bytes methods @ rest"
  shows "\<exists>s'. socks_handshake s = (s', Inl (IoError InvalidInput ''no available authentication found''))
    \<and> ts_tx s' = ts_tx s \<and> tcp_pending s' = rest"
proof -
  let ?s = "tcp_set_info (\<lambda>x. x\<lparr>si_protocol_name := ''socks5''\<rparr>) s"
  let ?h = "\<lparr>ch_version = 5, ch_method_num = word_of_nat (length methods), ch_methods = methods\<rparr>"
  have a: "tcp_alive (ts_tx s) (ts_err s) (ts_info ?s) ?s" and p: "tcp_pending ?s = hello_bytes methods @ rest"
    using assms(1,5) by (simp_all add: tcp_alive_def tcp_clean_def tcp_set_info_def tcp_pending_def)
  from hello_parse_ok [OF a p assms(3,4)] obtain t
    where t: "hello_parse tcp_read ?s = (t, Inr ?h)" "tcp_pending t = rest"
      "tcp_alive (ts_tx s) (ts_err s) (ts_info ?s) t"
    by blast
  have "\<not> hello_contains ?h NO_AUTH" using assms(2) by (simp add: hello_contains_def)
  with t show ?thesis
    by (auto simp: socks_handshake_def Let_def st_bind_Inr [of "hello_parse tcp_read" ?s, OF t(1)]
        tcp_alive_def)
qed

lemma socks_handshake_refuses_witness:
  "\<exists>s'. socks_handshake (tcp_run_stream_new [Segment [5, 1], Segment [2, 5]]) =
      (s', Inl (IoError InvalidInput ''no available authentication found'')) \<and> ts_tx s' = []"
proof -
  let ?s = "tcp_run_stream_new [Segment [5, 1], Segment [2, 5]]"
  have "tcp_clean ?s" "NO_AUTH \<notin> set [2]" "tcp_pending ?s = hello_bytes [2] @ [5]" by code_simp+
  from socks_handshake_refuses [OF this(1,2) _ _ this(3)] show ?thesis
    by (auto simp: tcp_run_stream_new_def)
qed

end
