(* ===== verification/Resolver.thy ===== *)
theory Resolver
  imports Std_Net
begin

text \<open>
  \<open>src/router/resolver.rs\<close>: name resolution for the router, with a cache of answers and of errors
  that expire.  The clock is a number of milliseconds; \<open>resolve_ip\<close> reads it before the lookup and
  after it.  The DNS library and the URL parser are the arguments of the definitions, in the
  record \<open>dns_lib\<close>; a lookup may answer differently at different times.

  The locale \<open>name_resolver\<close> is the contract the router relies on: an answer is one the servers
  gave.  It is proved here for the cached resolver, for any set of configured servers whose names
  do not make two cache keys collide.
\<close>

type_synonym ips = "string + ip_addr list"

text \<open>The parts of a parsed URL the code uses: host, port, known default port and path.\<close>

record url_parts =
  up_scheme :: string
  up_host :: "string option"
  up_port :: "u16 option"
  up_known_port :: "u16 option"
  up_path :: string

definition port_or_known_default :: "url_parts \<Rightarrow> u16 option" where
  "port_or_known_default u = (case up_port u of Some p \<Rightarrow> Some p | None \<Rightarrow> up_known_port u)"

text \<open>
  The lookups by name, at a given time: with the system's servers, with one server, and over
  HTTPS with a server address, its TLS name and its endpoint.
\<close>

record dns_lib =
  dl_default :: "nat \<Rightarrow> string \<Rightarrow> ips"
  dl_server :: "nat \<Rightarrow> socket_addr \<Rightarrow> string \<Rightarrow> ips"
  dl_https :: "nat \<Rightarrow> socket_addr \<Rightarrow> string \<Rightarrow> string \<Rightarrow> string \<Rightarrow> ips"
  dl_url :: "string \<Rightarrow> string + url_parts"

section \<open>Constants\<close>

definition CACHE_EXPIRATION :: nat where "CACHE_EXPIRATION = 3 * 60 * 1000"
definition NEGATIVE_CACHE_EXPIRATION :: nat where "NEGATIVE_CACHE_EXPIRATION = 60 * 1000"
definition CACHE_CLEANUP_INTERVAL :: nat where "CACHE_CLEANUP_INTERVAL = 24 * 60 * 60 * 1000"

section \<open>Lookups\<close>

definition resolve_ip_with_default_dns :: "dns_lib \<Rightarrow> nat \<Rightarrow> string \<Rightarrow> ips" where
  "resolve_ip_with_default_dns lib t addr = dl_default lib t addr"

definition resolve_ip_with_specific_dns :: "dns_lib \<Rightarrow> nat \<Rightarrow> string \<Rightarrow> string \<Rightarrow> ips" where
  "resolve_ip_with_specific_dns lib t addr dns_addr =
     (case parse_socket_addr dns_addr of
        None \<Rightarrow> Inl ''invalid DNS server address: invalid socket address syntax''
      | Some sa \<Rightarrow> dl_server lib t sa addr)"

definition parse_doh_config :: "dns_lib \<Rightarrow> string \<Rightarrow> string + string \<times> string \<times> u16" where
  "parse_doh_config lib dns_addr =
     (case (case strip_prefix ''doh://'' dns_addr of
              Some rest \<Rightarrow> dl_url lib (''https://'' @ rest)
            | None \<Rightarrow> dl_url lib dns_addr) of
        Inl e \<Rightarrow> Inl (''invalid DoH URL '' @ [CHR 0x27] @ dns_addr @ [CHR 0x27] @ '': '' @ e)
      | Inr url \<Rightarrow>
          (case up_host url of
             None \<Rightarrow> Inl (''invalid DoH URL '' @ [CHR 0x27] @ dns_addr @ [CHR 0x27] @ '': missing host'')
           | Some host \<Rightarrow>
               let port = (case port_or_known_default url of Some p \<Rightarrow> p | None \<Rightarrow> 443);
                   endpoint = (if up_path url = [] \<or> up_path url = ''/'' then ''/dns-query''
                               else up_path url)
               in Inr (host, endpoint, port)))"

definition resolve_ip_with_doh :: "dns_lib \<Rightarrow> nat \<Rightarrow> string \<Rightarrow> string \<Rightarrow> ips" where
  "resolve_ip_with_doh lib t addr dns_addr =
     (case parse_doh_config lib dns_addr of
        Inl e \<Rightarrow> Inl e
      | Inr (host, endpoint, port) \<Rightarrow>
          (case (case parse_ip host of
                   Some ip \<Rightarrow> Inr \<lparr>sa_ip = ip, sa_port = port\<rparr>
                 | None \<Rightarrow>
                     (case resolve_ip_with_default_dns lib t host of
                        Inl e \<Rightarrow> Inl e
                      | Inr [] \<Rightarrow> Inl (''no IP found for DoH server: '' @ host)
                      | Inr (ip # _) \<Rightarrow> Inr \<lparr>sa_ip = ip, sa_port = port\<rparr>)) of
             Inl e \<Rightarrow> Inl e
           | Inr socket_addr \<Rightarrow> dl_https lib t socket_addr host endpoint addr))"

text \<open>The lookup \<open>resolve_ip\<close> makes when the cache has no answer.\<close>

definition lookup_ip :: "dns_lib \<Rightarrow> nat \<Rightarrow> string \<Rightarrow> string \<Rightarrow> ips" where
  "lookup_ip lib t addr dns_config =
     (if dns_config = [] then resolve_ip_with_default_dns lib t addr
      else if starts_with dns_config ''doh://'' \<or> starts_with dns_config ''https://''
        then resolve_ip_with_doh lib t addr dns_config
      else resolve_ip_with_specific_dns lib t addr dns_config)"

section \<open>The cache\<close>

record resolve_result =
  re_ips :: "ip_addr list"
  re_expiry :: nat
  re_err :: "string option"

type_synonym resolver = "string \<rightharpoonup> resolve_result"

definition resolver_new :: resolver where
  "resolver_new = Map.empty"

definition get_cache_expiration :: "bool \<Rightarrow> nat" where
  "get_cache_expiration is_error =
     (if is_error then NEGATIVE_CACHE_EXPIRATION else CACHE_EXPIRATION)"

definition cleanup_cache :: "nat \<Rightarrow> resolver \<Rightarrow> resolver" where
  "cleanup_cache now cache =
     (\<lambda>k. case cache k of None \<Rightarrow> None | Some res \<Rightarrow> if now < re_expiry res then Some res else None)"

definition cache_key :: "string \<Rightarrow> string \<Rightarrow> string" where
  "cache_key addr dns_config = addr @ ''-'' @ dns_config"

definition result_of :: "resolve_result \<Rightarrow> ips" where
  "result_of r = (case re_err r of Some e \<Rightarrow> Inl e | None \<Rightarrow> Inr (re_ips r))"

definition cache_entry :: "nat \<Rightarrow> ips \<Rightarrow> resolve_result" where
  "cache_entry now result =
     \<lparr>re_ips = (case result of Inl _ \<Rightarrow> [] | Inr ips \<Rightarrow> ips),
      re_expiry = now + get_cache_expiration (case result of Inl _ \<Rightarrow> True | Inr _ \<Rightarrow> False),
      re_err = (case result of Inl e \<Rightarrow> Some e | Inr _ \<Rightarrow> None)\<rparr>"

definition resolve_ip ::
    "dns_lib \<Rightarrow> nat \<Rightarrow> nat \<Rightarrow> string \<Rightarrow> string \<Rightarrow> resolver \<Rightarrow> resolver \<times> ips" where
  "resolve_ip lib now after addr dns_config cache =
     (let key = cache_key addr dns_config;
          lookup = (let result = lookup_ip lib after addr dns_config in
                    (cache(key \<mapsto> cache_entry after result), result))
      in case cache key of
           Some cached \<Rightarrow> if now < re_expiry cached then (cache, result_of cached) else lookup
         | None \<Rightarrow> lookup)"

section \<open>What the cache holds\<close>

text \<open>
  With the servers in \<open>D\<close> configured, keys do not collide when none of their names is another one
  with something and a dash in front.
\<close>

definition keys_distinct :: "string set \<Rightarrow> bool" where
  "keys_distinct D \<longleftrightarrow> (\<forall>d \<in> D. \<forall>d' \<in> D. \<forall>x. d \<noteq> x @ ''-'' @ d')"

lemma cache_key_inj:
  assumes "keys_distinct D" and "d \<in> D" and "d' \<in> D" and "cache_key a d = cache_key a' d'"
  shows "a = a' \<and> d = d'"
proof -
  from assms(4) have "a @ CHR ''-'' # d = a' @ CHR ''-'' # d'" by (simp add: cache_key_def)
  then obtain us where "a = a' @ us \<and> us @ CHR ''-'' # d = CHR ''-'' # d'
      \<or> a @ us = a' \<and> CHR ''-'' # d = us @ CHR ''-'' # d'"
    by (auto simp: append_eq_append_conv2)
  with assms(1-3) show ?thesis by (cases us) (auto simp: keys_distinct_def)
qed

text \<open>Every entry is an answer given at most its lifetime before it expires.\<close>

definition cache_inv :: "dns_lib \<Rightarrow> string set \<Rightarrow> nat \<Rightarrow> resolver \<Rightarrow> bool" where
  "cache_inv lib D now cache \<longleftrightarrow>
     (\<forall>k r. cache k = Some r \<longrightarrow>
        (\<exists>t a d. t \<le> now \<and> d \<in> D \<and> k = cache_key a d \<and> r = cache_entry t (lookup_ip lib t a d)))"

lemma result_of_entry [simp]: "result_of (cache_entry t r) = r"
  by (cases r) (simp_all add: result_of_def cache_entry_def)

lemma entry_expiry: "re_expiry (cache_entry t r) \<le> t + CACHE_EXPIRATION"
  "r = Inl e \<Longrightarrow> re_expiry (cache_entry t r) = t + NEGATIVE_CACHE_EXPIRATION"
  by (auto simp: cache_entry_def get_cache_expiration_def CACHE_EXPIRATION_def
      NEGATIVE_CACHE_EXPIRATION_def split: sum.splits)

lemma cache_inv_mono: "cache_inv lib D now c \<Longrightarrow> now \<le> now' \<Longrightarrow> cache_inv lib D now' c"
  unfolding cache_inv_def by (meson order.trans)

lemma cache_inv_new: "cache_inv lib D now resolver_new"
  by (simp add: cache_inv_def resolver_new_def)

lemma cleanup_inv: "cache_inv lib D now c \<Longrightarrow> cache_inv lib D now (cleanup_cache t c)"
  unfolding cache_inv_def cleanup_cache_def by (auto split: option.splits if_splits)

lemma resolve_ip_inv:
  assumes "resolve_ip lib now after addr dns c = (c', r)"
    and "cache_inv lib D now c" and "now \<le> after" and "dns \<in> D"
  shows "cache_inv lib D after c'"
proof -
  have "c' = c \<or> c' = c(cache_key addr dns \<mapsto> cache_entry after (lookup_ip lib after addr dns))"
    using assms(1) by (auto simp: resolve_ip_def Let_def split: option.splits if_splits)
  then show ?thesis
    using cache_inv_mono [OF assms(2,3)] assms(4) by (fastforce simp: cache_inv_def)
qed

text \<open>An answer of \<open>resolve_ip\<close> is one a lookup gave, recently.\<close>

definition recent_answer :: "dns_lib \<Rightarrow> nat \<Rightarrow> nat \<Rightarrow> string \<Rightarrow> string \<Rightarrow> ips \<Rightarrow> bool" where
  "recent_answer lib now after addr dns r \<longleftrightarrow>
     (\<exists>t \<le> after. r = lookup_ip lib t addr dns \<and> now < t + CACHE_EXPIRATION
        \<and> (\<forall>e. r = Inl e \<longrightarrow> now < t + NEGATIVE_CACHE_EXPIRATION))"

lemma resolve_ip_answer:
  assumes "resolve_ip lib now after addr dns c = (c', r)"
    and "cache_inv lib D now c" and "now \<le> after" and "dns \<in> D" and "keys_distinct D"
  shows "recent_answer lib now after addr dns r"
proof (cases "\<exists>e. c (cache_key addr dns) = Some e \<and> now < re_expiry e")
  case True
  then obtain e where e: "c (cache_key addr dns) = Some e" "now < re_expiry e" by blast
  with assms(2) obtain t a d where t: "t \<le> now" "d \<in> D" "cache_key addr dns = cache_key a d"
    "e = cache_entry t (lookup_ip lib t a d)"
    unfolding cache_inv_def by blast
  from cache_key_inj [OF assms(5,4) t(2,3)] have "a = addr" "d = dns" by simp_all
  with t e assms(1,3) entry_expiry [where t = t and r = "lookup_ip lib t addr dns"] show ?thesis
    by (auto simp: resolve_ip_def recent_answer_def intro!: exI [of _ t])
next
  case False
  with assms(1) have "r = lookup_ip lib after addr dns"
    by (auto simp: resolve_ip_def Let_def split: option.splits if_splits)
  with assms(3) show ?thesis
    by (auto simp: recent_answer_def CACHE_EXPIRATION_def NEGATIVE_CACHE_EXPIRATION_def
        intro!: exI [of _ after])
qed

section \<open>The contract of a resolver\<close>

locale name_resolver =
  fixes resolve :: "string \<Rightarrow> string \<Rightarrow> 's \<Rightarrow> 's \<times> ips"
    and servers :: "string set"
    and valid :: "'s \<Rightarrow> bool"
    and answer :: "string \<Rightarrow> string \<Rightarrow> ips \<Rightarrow> bool"
  assumes resolve_valid: "valid s \<Longrightarrow> dns \<in> servers \<Longrightarrow> resolve addr dns s = (s', r) \<Longrightarrow> valid s'"
    and resolve_answer: "valid s \<Longrightarrow> dns \<in> servers \<Longrightarrow> resolve addr dns s = (s', r) \<Longrightarrow> answer addr dns r"

text \<open>The cached resolver, its cache paired with the clock, which a call does not let run
  backwards: \<open>elapsed\<close> is what a call takes.  When \<open>D\<close> lets keys collide the contract is only
  claimed for no server.\<close>

definition timed_resolve ::
    "dns_lib \<Rightarrow> nat \<Rightarrow> string \<Rightarrow> string \<Rightarrow> nat \<times> resolver \<Rightarrow> (nat \<times> resolver) \<times> ips" where
  "timed_resolve lib elapsed addr dns s =
     (case s of (now, c) \<Rightarrow>
        (case resolve_ip lib now (now + elapsed) addr dns c of
           (c', r) \<Rightarrow> ((now + elapsed, c'), r)))"

interpretation cached_resolver: name_resolver "timed_resolve lib elapsed"
    "if keys_distinct D then D else {}" "\<lambda>(now, c). cache_inv lib D now c"
    "\<lambda>addr dns r. \<exists>t. r = lookup_ip lib t addr dns"
  for lib elapsed D
proof
  fix s :: "nat \<times> resolver" and dns addr s' r
  assume v: "case s of (now, c) \<Rightarrow> cache_inv lib D now c"
    and d: "dns \<in> (if keys_distinct D then D else {})"
    and run: "timed_resolve lib elapsed addr dns s = (s', r)"
  obtain now c where s: "s = (now, c)" by fastforce
  from d have D: "keys_distinct D" "dns \<in> D" by (auto split: if_splits)
  from run s obtain c' where c: "resolve_ip lib now (now + elapsed) addr dns c = (c', r)"
    "s' = (now + elapsed, c')"
    by (auto simp: timed_resolve_def split: prod.splits)
  show "case s' of (now, c) \<Rightarrow> cache_inv lib D now c"
    using resolve_ip_inv [OF c(1) _ _ D(2)] v s c(2) by simp
  show "\<exists>t. r = lookup_ip lib t addr dns"
    using resolve_ip_answer [OF c(1) _ _ D(2,1)] v s by (auto simp: recent_answer_def)
qed


section \<open>Reachable caches\<close>

inductive resolver_reach :: "dns_lib \<Rightarrow> string set \<Rightarrow> nat \<Rightarrow> resolver \<Rightarrow> bool"
  for lib D where
  reach_new: "resolver_reach lib D now resolver_new"
| reach_wait: "resolver_reach lib D now c \<Longrightarrow> now \<le> now' \<Longrightarrow> resolver_reach lib D now' c"
| reach_cleanup: "resolver_reach lib D now c \<Longrightarrow> resolver_reach lib D now (cleanup_cache now c)"
| reach_resolve: "resolver_reach lib D now c \<Longrightarrow> now \<le> after \<Longrightarrow> dns \<in> D \<Longrightarrow>
     resolve_ip lib now after addr dns c = (c', r) \<Longrightarrow> resolver_reach lib D after c'"

lemma resolver_reach_inv: "resolver_reach lib D now c \<Longrightarrow> cache_inv lib D now c"
  by (induction rule: resolver_reach.induct)
    (auto intro: cache_inv_new cache_inv_mono cleanup_inv resolve_ip_inv)

text \<open>The task that cleans up: the first tick of its interval is immediate, the others follow one interval
  apart; \<open>k\<close> counts the rounds of its endless loop.\<close>

fun start_cache_cleanup :: "nat \<Rightarrow> nat \<Rightarrow> resolver \<Rightarrow> resolver" where
  "start_cache_cleanup 0 now c = c"
| "start_cache_cleanup (Suc k) now c =
     start_cache_cleanup k (now + CACHE_CLEANUP_INTERVAL) (cleanup_cache now c)"

text \<open>Left alone, it goes through reachable caches and only drops entries.\<close>

lemma start_cache_cleanup_reach:
  "resolver_reach lib D now c \<Longrightarrow>
     resolver_reach lib D (now + k * CACHE_CLEANUP_INTERVAL) (start_cache_cleanup k now c)
   \<and> start_cache_cleanup k now c \<subseteq>\<^sub>m c"
proof (induction k arbitrary: now c)
  case 0
  then show ?case by simp
next
  case (Suc k)
  let ?c = "cleanup_cache now c" and ?now = "now + CACHE_CLEANUP_INTERVAL"
  have "resolver_reach lib D ?now ?c" by (rule reach_wait [OF reach_cleanup [OF Suc.prems]]) simp
  moreover have "?c \<subseteq>\<^sub>m c" by (auto simp: cleanup_cache_def map_le_def split: option.splits if_splits)
  ultimately show ?case using Suc.IH [of ?now ?c] by (auto simp: algebra_simps intro: map_le_trans)
qed

definition demo_dns :: dns_lib where
  "demo_dns = \<lparr>dl_default = \<lambda>t a. Inr [V4 10 0 0 1], dl_server = \<lambda>t s a. Inl ''refused'',
     dl_https = \<lambda>t s h e a. Inr [V4 10 0 0 2], dl_url = \<lambda>u. Inl ''empty host''\<rparr>"

section \<open>Properties\<close>



text \<open>Cleaning the cache up is invisible: it drops exactly the expired entries, and a resolution
  at the same time or later gives the same result as without it.\<close>

theorem cleanup_transparent:
  "(\<forall>k. cleanup_cache t c k = (if \<exists>r. c k = Some r \<and> t < re_expiry r then c k else None))
   \<and> (t \<le> now \<longrightarrow> snd (resolve_ip lib now after addr dns (cleanup_cache t c)) =
        snd (resolve_ip lib now after addr dns c))"
  by (auto simp: cleanup_cache_def resolve_ip_def Let_def split: option.splits)

lemma cleanup_transparent_witness:
  "snd (resolve_ip demo_dns 5 9 ''a.b'' [] (cleanup_cache 5 resolver_new)) =
   snd (resolve_ip demo_dns 5 9 ''a.b'' [] resolver_new)"
  using cleanup_transparent [of 5 resolver_new 5 demo_dns 9 "''a.b''" "[]"] by simp

text \<open>The key of the cache, \<open>{addr}-{dns}\<close>, is ambiguous: when the name of one configured server
  is another one's with a prefix \<open>x-\<close>, a resolution of \<open>a\<close> at the first is answered, from the
  cache, to a resolution of \<open>a-x\<close> at the second.\<close>

theorem resolver_key_collision:
  assumes "resolve_ip lib now after addr (x @ ''-'' @ d) c = (c', r)"
    and "c (cache_key addr (x @ ''-'' @ d)) = None"
    and "later < after + NEGATIVE_CACHE_EXPIRATION"
  shows "resolve_ip lib later later' (addr @ ''-'' @ x) d c' = (c', r)"
proof -
  have key: "cache_key (addr @ ''-'' @ x) d = cache_key addr (x @ ''-'' @ d)"
    by (simp add: cache_key_def)
  from assms(1,2) have c': "c' = c(cache_key addr (x @ ''-'' @ d) \<mapsto> cache_entry after r)"
    by (auto simp: resolve_ip_def Let_def)
  have "later < re_expiry (cache_entry after r)"
    using assms(3) by (auto simp: cache_entry_def get_cache_expiration_def CACHE_EXPIRATION_def
        NEGATIVE_CACHE_EXPIRATION_def split: sum.split)
  moreover have "c' (cache_key (addr @ ''-'' @ x) d) = Some (cache_entry after r)"
    unfolding key c' by simp
  ultimately show ?thesis by (simp only: resolve_ip_def Let_def) simp
qed

lemma resolver_key_collision_witness:
  "\<exists>c'. resolve_ip demo_dns 0 1 ''host'' ''x-1.1.1.1:53'' resolver_new = (c', Inl ''invalid DNS server address: invalid socket address syntax'')
     \<and> resolve_ip demo_dns 2 3 ''host-x'' ''1.1.1.1:53'' c' = (c', Inl ''invalid DNS server address: invalid socket address syntax'')"
proof -
  let ?e = "Inl ''invalid DNS server address: invalid socket address syntax''"
  have l: "lookup_ip demo_dns 1 ''host'' (''x'' @ ''-'' @ ''1.1.1.1:53'') = ?e" by code_simp
  obtain c' where c: "resolve_ip demo_dns 0 1 ''host'' (''x'' @ ''-'' @ ''1.1.1.1:53'') resolver_new = (c', ?e)"
    by (simp only: resolve_ip_def resolver_new_def l Let_def) simp
  have "2 < 1 + NEGATIVE_CACHE_EXPIRATION" by (simp add: NEGATIVE_CACHE_EXPIRATION_def)
  from resolver_key_collision [OF c _ this, of 3] c show ?thesis by (auto simp: resolver_new_def)
qed

end
