(* ===== verification/Http_Proxy.thy ===== *)
theory Http_Proxy
  imports Socks5_Acceptor Resolver
begin

text \<open>
  \<open>src/listener/http.rs\<close> and \<open>src/listener/htss5.rs\<close>: the HTTP proxy handshake, and the acceptor
  that tells SOCKS5 from HTTP by the first byte.  Both read the client's first bytes with a single
  \<open>read\<close>; the URL parser is an argument.  What the acceptor returns as its cache is written to
  the destination before the relay starts: the request with a \<open>Via\<close> line added, or nothing after
  \<open>CONNECT\<close>.
\<close>

section \<open>The HTTP acceptor\<close>

definition CRLF :: string where "CRLF = [CHR 0x0D, CHR 0x0A]"

definition head_end :: bytes where "head_end = [13, 10, 13, 10]"

text \<open>The header, up to and with the first empty line, and the bytes after it.\<close>

definition http_head :: "bytes \<Rightarrow> (string \<times> bytes option) io" where
  "http_head data =
     (case str_find data head_end of
        Some idx \<Rightarrow>
          (case from_utf8 (take (idx + 4) data) of
             None \<Rightarrow> Inl (IoError Other ''invalid utf-8 sequence'')
           | Some s \<Rightarrow> Inr (s, Some (drop (idx + 4) data)))
      | None \<Rightarrow>
          (case from_utf8 data of
             None \<Rightarrow> Inl (IoError Other ''invalid utf-8 sequence'')
           | Some s \<Rightarrow> Inr (s, None)))"

text \<open>The URL a request line asks for.\<close>

definition http_url :: "(string \<Rightarrow> string + url_parts) \<Rightarrow> string \<Rightarrow> url_parts io" where
  "http_url parse_url f_line =
     (let parts = split_on '' '' f_line in
      if length parts < 2 then Inl (IoError InvalidData (''invalid parts '' @ f_line))
      else if starts_with (parts ! 1) [CHR 0x2F]
        then Inl (IoError InvalidInput ''origin form request not allowed'')
      else
        let dst = parts ! 1;
            dst = (if \<not> str_contains dst ('':'' @ [CHR 0x2F, CHR 0x2F])
                   then ''http:'' @ [CHR 0x2F, CHR 0x2F] @ dst else dst)
        in case parse_url dst of
             Inl e \<Rightarrow> Inl (IoError InvalidData (''Invalid URL: '' @ e))
           | Inr url \<Rightarrow> Inr url)"

definition via_line :: "string \<Rightarrow> string" where
  "via_line server_id = ''Via: 1.1 '' @ server_id"

definition http_loop :: "string \<Rightarrow> string list \<Rightarrow> bool" where
  "http_loop server_id lines \<longleftrightarrow>
     (\<exists>line\<in>set lines. starts_with (to_lowercase line) ''via:'' \<and> str_contains line server_id)"

text \<open>The request as it is passed on; without a line end it stays as it is.\<close>

definition add_via :: "string \<Rightarrow> bytes \<Rightarrow> string \<Rightarrow> bytes option \<Rightarrow> bytes" where
  "add_via server_id data header body =
     (case str_find header CRLF of
        Some idx \<Rightarrow>
          bytes_of_str (take (idx + 2) header @ via_line server_id @ CRLF @ drop (idx + 2) header)
            @ (case body of Some b \<Rightarrow> b | None \<Rightarrow> [])
      | None \<Rightarrow> data)"

definition established :: bytes where
  "established = bytes_of_str (''HTTP'' @ [CHR 0x2F] @ ''1.1 200 Connection Established'' @ CRLF @ CRLF)"

definition http_request ::
    "(string \<Rightarrow> string + url_parts) \<Rightarrow> string \<Rightarrow> bytes
       \<Rightarrow> (tcp_stream, url_parts \<times> bytes option) op" where
  "http_request parse_url server_id data s =
     (case http_head data of
        Inl e \<Rightarrow> (s, Inl e)
      | Inr (header, body) \<Rightarrow>
          let lines = split_on CRLF header;
              f_line = hd lines
          in case http_url parse_url f_line of
               Inl e \<Rightarrow> (s, Inl e)
             | Inr url \<Rightarrow>
                 if starts_with f_line ''CONNECT'' then
                   st_bind (\<lambda>s. tcp_write s established) (\<lambda>_. st_ret (url, None)) s
                 else if http_loop server_id lines then (s, Inl (IoError Other ''Loop detected''))
                 else (s, Inr (url, Some (add_via server_id data header body))))"

definition url_addr :: "url_parts \<Rightarrow> run_addr io" where
  "url_addr url =
     (case up_host url of
        None \<Rightarrow> Inl (IoError InvalidData ''URL has no host'')
      | Some host \<Rightarrow>
          (case port_or_known_default url of
             None \<Rightarrow> Inl (IoError InvalidData ''URL has no port'')
           | Some port \<Rightarrow> Inr \<lparr>ra_addr = host, ra_port = port, ra_udp = False\<rparr>))"

definition http_accept :: "(tcp_listener, tcp_stream \<times> socket_addr) op" where
  "http_accept = tcp_accept"

definition http_handshake ::
    "(string \<Rightarrow> string + url_parts) \<Rightarrow> string \<Rightarrow> (tcp_stream, run_addr \<times> bytes option) op" where
  "http_handshake parse_url server_id s =
     (let s = tcp_set_info (\<lambda>x. x\<lparr>si_protocol_name := ''http''\<rparr>) s in
      st_bind (\<lambda>s. tcp_read s TCP_IO_BUFFER_SIZE) (\<lambda>data.
      st_bind (http_request parse_url server_id data) (\<lambda>(url, cache) s.
        (s, io_bind (url_addr url) (\<lambda>addr. Inr (addr, cache))))) s)"

section \<open>The acceptor for SOCKS5 and HTTP\<close>

definition htss5_accept :: "(tcp_listener, tcp_stream \<times> socket_addr) op" where
  "htss5_accept = tcp_accept"

text \<open>The SOCKS5 branch, on the bytes of the first read.\<close>

definition htss5_socks :: "bytes \<Rightarrow> (tcp_stream, run_addr \<times> bytes option) op" where
  "htss5_socks data s =
     (case hello_parse_bytes data of
        Inl e \<Rightarrow> (s, Inl e)
      | Inr (hello, _) \<Rightarrow>
          if \<not> hello_contains hello NO_AUTH then
            (s, Inl (IoError InvalidInput ''no available authentication found''))
          else
            let hello_back = \<lparr>sh_version = ch_version hello, sh_method = NO_AUTH\<rparr> in
            st_bind (\<lambda>s. tcp_write s (server_hello_to_bytes hello_back)) (\<lambda>_.
            st_bind (\<lambda>s. tcp_read s TCP_IO_BUFFER_SIZE) (\<lambda>data s.
              case request_parse_bytes data of
                Inl e \<Rightarrow> (s, Inl e)
              | Inr (req, readed) \<Rightarrow>
                  let rest = drop readed data;
                      s = tcp_set_info (\<lambda>x. x\<lparr>si_protocol_name := ''socks5''\<rparr>) s;
                      cache = (if rest = [] then None else Some rest)
                  in (s, io_bind (run_addr_of_request req) (\<lambda>addr. Inr (addr, cache))))) s)"

text \<open>The HTTP branch, which repeats the code of the HTTP acceptor and sets the name after it.\<close>

definition htss5_http ::
    "(string \<Rightarrow> string + url_parts) \<Rightarrow> string \<Rightarrow> bytes \<Rightarrow> (tcp_stream, run_addr \<times> bytes option) op" where
  "htss5_http parse_url server_id data =
     st_bind (http_request parse_url server_id data) (\<lambda>(url, cache) s.
       let s = tcp_set_info (\<lambda>x. x\<lparr>si_protocol_name := ''http''\<rparr>) s in
       (s, io_bind (url_addr url) (\<lambda>addr. Inr (addr, cache))))"

definition htss5_handshake ::
    "(string \<Rightarrow> string + url_parts) \<Rightarrow> string \<Rightarrow> (tcp_stream, run_addr \<times> bytes option) op" where
  "htss5_handshake parse_url server_id =
     st_bind (\<lambda>s. tcp_read s TCP_IO_BUFFER_SIZE) (\<lambda>data s.
       if data = [] then (s, Inl (IoError InvalidInput ''no enough data''))
       else if hd data = 5 then htss5_socks data s
       else htss5_http parse_url server_id data s)"

definition htss5_post_handshake :: "bool \<Rightarrow> u16 \<Rightarrow> (tcp_stream, unit) op" where
  "htss5_post_handshake error port s =
     (if si_protocol_name (tcp_get_info s) \<noteq> ''socks5'' then (s, Inr ())
      else tcp_write s (confirm_to_bytes (confirm_new error port)))"

section \<open>Searching for line ends\<close>

lemma occurs_nth:
  "take (length p) (drop k s) = p \<Longrightarrow> j < length p \<Longrightarrow> k + j < length s \<and> s ! (k + j) = p ! j"
  by (metis (no_types, lifting) add.commute length_drop less_diff_conv length_take min_less_iff_conj nth_drop
      nth_take linorder_not_le drop_all length_0_conv list.size(3) not_less_zero take_Nil nat_le_linear)

lemma str_find_skip:
  assumes "\<And>k. k < length a \<Longrightarrow> take (length p) (drop k (a @ x)) \<noteq> p"
  shows "str_find (a @ x) p = map_option (\<lambda>k. k + length a) (str_find x p)"
  using assms
proof (induction a)
  case Nil
  then show ?case by (simp add: option.map_ident)
next
  case (Cons c a)
  from Cons.prems [of 0] have "take (length p) (c # a @ x) \<noteq> p" by simp
  moreover from Cons.prems [of "Suc k" for k] Cons.IH
  have "str_find (a @ x) p = map_option (\<lambda>k. k + length a) (str_find x p)" by simp
  ultimately show ?case by (simp add: option.map_comp comp_def)
qed

lemma str_find_0: "take (length p) s = p \<Longrightarrow> str_find s p = Some 0"
  by (cases s) auto

lemma str_find_map: "inj f \<Longrightarrow> str_find (map f s) (map f p) = str_find s p"
proof (induction s)
  case Nil
  then show ?case by simp
next
  case (Cons c s)
  have "take (length p) (map f (c # s)) = map f (take (length p) (c # s))" by (simp only: take_map)
  then have "take (length p) (map f (c # s)) = map f p \<longleftrightarrow> take (length p) (c # s) = p"
    using inj_map_eq_map [OF Cons.prems] by metis
  with Cons show ?case by simp
qed

lemma str_find_bytes: "str_find (bytes_of_str s) (bytes_of_str p) = str_find s p"
proof -
  have "inj (\<lambda>c :: char. word_of_nat (of_char c) :: u8)"
  proof (rule injI)
    fix x y :: char assume "(word_of_nat (of_char x) :: u8) = word_of_nat (of_char y)"
    then have "bytes_of_str [x] = bytes_of_str [y]" by (simp add: bytes_of_str_def)
    then show "x = y" by (simp only: bytes_of_str_inj) simp
  qed
  then show ?thesis unfolding bytes_of_str_def by (rule str_find_map)
qed

text \<open>A line without a carriage return, its end, and what does not start with another one.\<close>

abbreviation cr :: char where "cr \<equiv> CHR 0x0D"

lemma head_end_str: "head_end = bytes_of_str (CRLF @ CRLF)"
  by (simp add: head_end_def CRLF_def bytes_of_str_def)

lemma find_head: "str_find (bytes_of_str s) head_end = str_find s (CRLF @ CRLF)"
  by (simp only: head_end_str str_find_bytes)

lemma occurs_head:
  assumes "take (length (CRLF @ CRLF)) (drop k s) = CRLF @ CRLF"
  shows "s ! k = cr" "s ! Suc k = CHR 0x0A" "s ! (k + 2) = cr" "k + 3 < length s"
    "take (length CRLF) (drop k s) = CRLF"
  using occurs_nth [OF assms, of 0] occurs_nth [OF assms, of 1] occurs_nth [OF assms, of 2]
    occurs_nth [OF assms, of 3] arg_cong [OF assms, of "take 2"]
  by (simp_all add: CRLF_def eval_nat_numeral)

lemma crlf_window:
  assumes "k < length l"
  shows "take (length CRLF) (drop k (l @ CRLF @ y)) = take (length CRLF) (drop k (l @ CRLF))"
proof -
  from assms obtain c d where d: "drop k l = c # d"
    by (cases "drop k l") auto
  have "drop k (l @ CRLF @ y) = (c # d) @ CRLF @ y" "drop k (l @ CRLF) = (c # d) @ CRLF"
    using assms by (simp_all flip: d)
  then show ?thesis by (cases d) (simp_all add: CRLF_def)
qed

definition one_line :: "string \<Rightarrow> bool" where
  "one_line l \<longleftrightarrow> (\<forall>k < length l. take (length CRLF) (drop k (l @ CRLF)) \<noteq> CRLF)"

lemma one_line_not: "one_line l \<Longrightarrow> k < length l \<Longrightarrow> take (length CRLF) (drop k (l @ CRLF @ y)) \<noteq> CRLF"
  by (simp add: one_line_def crlf_window)

lemma one_line_no_cr: "cr \<notin> set l \<Longrightarrow> one_line l"
  unfolding one_line_def
proof (intro allI impI notI)
  fix k assume l: "cr \<notin> set l" "k < length l" "take (length CRLF) (drop k (l @ CRLF)) = CRLF"
  from occurs_nth [OF l(3), of 0] l(2) have "l ! k = cr" by (simp add: nth_append CRLF_def)
  with l nth_mem [OF l(2)] show False by simp
qed

lemma find_line_end:
  assumes "one_line l"
  shows "str_find (l @ CRLF @ x) CRLF = Some (length l)"
proof -
  have "str_find (l @ CRLF @ x) CRLF = map_option (\<lambda>k. k + length l) (str_find (CRLF @ x) CRLF)"
    using one_line_not [OF assms] by (rule str_find_skip)
  moreover have "str_find (CRLF @ x) CRLF = Some 0" by (rule str_find_0) simp
  ultimately show ?thesis by simp
qed

lemma first_line:
  assumes "str_find s CRLF = Some i"
  obtains l x where "s = l @ CRLF @ x" "length l = i" "one_line l"
proof
  show "s = take i s @ CRLF @ drop (i + length CRLF) s" using str_find_split [OF assms] .
  show len: "length (take i s) = i" using str_find_Some [OF assms] by simp
  show "one_line (take i s)" unfolding one_line_def
  proof (intro allI impI)
    fix k assume k: "k < length (take i s)"
    have "take (length CRLF) (drop k (take i s @ CRLF @ drop (i + length CRLF) s)) \<noteq> CRLF"
      using str_find_first [OF assms, of k] k len str_find_split [OF assms] by metis
    then show "take (length CRLF) (drop k (take i s @ CRLF)) \<noteq> CRLF"
      using crlf_window [OF k] by metis
  qed
qed

text \<open>The empty line that ends the header is found past a first line and any line put after it.\<close>

lemma find_head_line:
  assumes "one_line l"
  shows "str_find (l @ CRLF @ x) (CRLF @ CRLF)
       = map_option (\<lambda>k. k + length l) (str_find (CRLF @ x) (CRLF @ CRLF))"
proof (rule str_find_skip)
  fix k assume k: "k < length l"
  show "take (length (CRLF @ CRLF)) (drop k (l @ CRLF @ x)) \<noteq> CRLF @ CRLF"
    using occurs_head(5) one_line_not [OF assms k] by blast
qed

lemma find_head_past:
  assumes "v \<noteq> []" and "cr \<notin> set v"
  shows "str_find (CRLF @ v @ x) (CRLF @ CRLF)
       = map_option (\<lambda>k. k + (2 + length v)) (str_find x (CRLF @ CRLF))"
proof -
  let ?a = "CRLF @ v"
  have "str_find (?a @ x) (CRLF @ CRLF) = map_option (\<lambda>k. k + length ?a) (str_find x (CRLF @ CRLF))"
  proof (rule str_find_skip)
    fix k assume k: "k < length ?a"
    show "take (length (CRLF @ CRLF)) (drop k (?a @ x)) \<noteq> CRLF @ CRLF"
    proof
      assume "take (length (CRLF @ CRLF)) (drop k (?a @ x)) = CRLF @ CRLF"
      note o = occurs_head [OF this]
      consider "k = 0" | "k = 1" | m where "k = 2 + m" "m < length v"
        using k by (cases k; cases "k - 1") (auto simp: CRLF_def)
      then show False
      proof cases
        case 1
        with o(3) assms(1) have "v ! 0 = cr" by (simp add: nth_append CRLF_def)
        with assms show ?thesis using nth_mem [of 0 v] by simp
      next
        case 2
        then show ?thesis using o(1) by (simp add: CRLF_def)
      next
        case 3
        with o(1) have "v ! m = cr" by (simp add: nth_append CRLF_def)
        with assms(2) nth_mem [OF 3(2)] show ?thesis by simp
      qed
    qed
  qed
  then show ?thesis by (simp add: CRLF_def)
qed

lemma find_head_insert:
  assumes "one_line l" and "v \<noteq> []" and "cr \<notin> set v"
  shows "str_find (l @ CRLF @ v @ CRLF @ x) (CRLF @ CRLF)
       = map_option (\<lambda>k. k + (2 + length v)) (str_find (l @ CRLF @ x) (CRLF @ CRLF))"
  by (simp only: find_head_line [OF assms(1)] find_head_past [OF assms(2,3)] option.map_comp)
    (simp add: comp_def add_ac)

lemma split_on_find:
  "p \<noteq> [] \<Longrightarrow> str_find s p = Some i \<Longrightarrow> split_on p s = take i s # split_on p (drop (i + length p) s)"
  by (subst split_on.simps) simp

lemma CRLF_not_Nil [simp]: "CRLF \<noteq> []" "length CRLF = 2" by (simp_all add: CRLF_def)

lemma split_line:
  assumes "one_line l"
  shows "split_on CRLF (l @ CRLF @ x) = l # split_on CRLF x"
  by (subst split_on_find [OF _ find_line_end [OF assms]]) simp_all

lemma utf8_line: "utf8_ok (bytes_of_str (l @ CRLF @ x)) \<longleftrightarrow> utf8_ok (bytes_of_str l) \<and> utf8_ok (bytes_of_str x)"
  by (simp add: CRLF_def bytes_of_str_def utf8_ok_ascii_cut)

lemma utf8_ascii: "\<forall>c\<in>set s. of_char c < (128 :: nat) \<Longrightarrow> utf8_ok (bytes_of_str s)"
proof (induction s)
  case (Cons c s)
  then have "(word_of_nat (of_char c) :: u8) < 0x80"
    by (simp add: word_less_nat_alt unat_of_nat take_bit_eq_mod)
  with Cons show ?case by (simp add: bytes_of_str_def)
qed (simp add: bytes_of_str_def)

section \<open>Adding the \<open>Via\<close> line\<close>

lemma via_not_Nil [simp]: "via_line i \<noteq> []" by (simp add: via_line_def)

lemma via_cr: "cr \<notin> set i \<Longrightarrow> cr \<notin> set (via_line i)" by (simp add: via_line_def)

lemma via_detected: "http_loop i (l # via_line i # r)"
proof -
  have "starts_with (to_lowercase (via_line i)) ''via:''"
  proof -
    have "to_lower_ascii CHR ''V'' = CHR ''v''" "to_lower_ascii CHR ''i'' = CHR ''i''"
      "to_lower_ascii CHR ''a'' = CHR ''a''" "to_lower_ascii CHR '':'' = CHR '':''"
      by code_simp+
    then show ?thesis by (simp add: via_line_def starts_with_def)
  qed
  moreover have "str_contains (via_line i) i"
    using str_contains_append [of "''Via: 1.1 ''" i "[]"] by (simp add: via_line_def)
  ultimately show ?thesis by (simp add: http_loop_def)
qed

lemma utf8_via: "utf8_ok (bytes_of_str (via_line i)) \<longleftrightarrow> utf8_ok (bytes_of_str i)"
  by (simp add: via_line_def bytes_of_str_def)

text \<open>The header found in a message whose first line ends, before and after a line is added.\<close>

lemma http_head_insert:
  assumes "http_head (bytes_of_str (l @ CRLF @ x)) = Inr (h, body)" and "one_line l"
    and "v \<noteq> []" and "cr \<notin> set v" and "utf8_ok (bytes_of_str v)"
  shows "\<exists>y. h = l @ CRLF @ y
      \<and> bytes_of_str (l @ CRLF @ x) = bytes_of_str h @ (case body of Some b \<Rightarrow> b | None \<Rightarrow> [])
      \<and> http_head (bytes_of_str (l @ CRLF @ v @ CRLF @ x)) = Inr (l @ CRLF @ v @ CRLF @ y, body)"
proof (cases "str_find (CRLF @ x) (CRLF @ CRLF)")
  case None
  then have f: "str_find (l @ CRLF @ x) (CRLF @ CRLF) = None" by (simp add: find_head_line [OF assms(2)])
  with assms(1) have h: "h = l @ CRLF @ x" "body = None" "utf8_ok (bytes_of_str (l @ CRLF @ x))"
    by (auto simp: http_head_def find_head from_utf8_def simp del: bytes_of_str_append split: if_splits)
  from f have "str_find (l @ CRLF @ v @ CRLF @ x) (CRLF @ CRLF) = None"
    by (simp add: find_head_insert [OF assms(2-4)])
  moreover have "utf8_ok (bytes_of_str (l @ CRLF @ v @ CRLF @ x))"
    using h(3) assms(5) by (simp only: utf8_line)
  ultimately show ?thesis using h
    by (simp add: http_head_def find_head from_utf8_def del: bytes_of_str_append)
next
  case (Some m)
  let ?d = "l @ CRLF @ x" and ?c = "l @ CRLF @ v @ CRLF @ x" and ?k = "length l + m"
  have f: "str_find ?d (CRLF @ CRLF) = Some ?k"
    using Some by (simp add: find_head_line [OF assms(2)])
  have g: "str_find ?c (CRLF @ CRLF) = Some (?k + (2 + length v))"
    using f by (simp add: find_head_insert [OF assms(2-4)])
  from Some have m: "m + 4 \<le> length (CRLF @ x)" using str_find_Some [OF Some] by simp
  let ?y = "take (m + 2) x"
  have t: "take (?k + 4) (bytes_of_str ?d) = bytes_of_str (l @ CRLF @ ?y)"
    "drop (?k + 4) (bytes_of_str ?d) = bytes_of_str (drop (m + 2) x)"
    by (simp_all add: bytes_of_str_def CRLF_def take_map drop_map eval_nat_numeral)
  have u: "take (?k + (2 + length v) + 4) (bytes_of_str ?c) = bytes_of_str (l @ CRLF @ v @ CRLF @ ?y)"
    "drop (?k + (2 + length v) + 4) (bytes_of_str ?c) = bytes_of_str (drop (m + 2) x)"
    by (simp_all add: bytes_of_str_def CRLF_def take_map drop_map eval_nat_numeral)
  from assms(1) f t have h: "h = l @ CRLF @ ?y" "body = Some (bytes_of_str (drop (m + 2) x))"
    "utf8_ok (bytes_of_str (l @ CRLF @ ?y))"
    by (auto simp: http_head_def find_head from_utf8_def split: if_splits simp del: bytes_of_str_append)
  have "utf8_ok (bytes_of_str (l @ CRLF @ v @ CRLF @ ?y))"
    using h(3) assms(5) by (simp only: utf8_line)
  with g u have "http_head (bytes_of_str ?c) = Inr (l @ CRLF @ v @ CRLF @ ?y, body)"
    unfolding h(2)
    by (simp add: http_head_def find_head from_utf8_def del: bytes_of_str_append)
  moreover have "bytes_of_str ?d = bytes_of_str h @ bytes_of_str (drop (m + 2) x)"
    by (simp add: h(1) flip: bytes_of_str_append)
  ultimately show ?thesis using h by auto
qed

lemma http_request_again:
  assumes "http_request up i data s = (s', Inr (url, Some c))" and "str_find data [13, 10] \<noteq> None"
    and "cr \<notin> set i" and "utf8_ok (bytes_of_str i)"
  shows "http_request up i c t = (t, Inl (IoError Other ''Loop detected''))"
proof -
  have "[13, 10] = bytes_of_str CRLF" by (simp add: CRLF_def bytes_of_str_def)
  with assms(2) have "str_find (str_of_bytes data) CRLF \<noteq> None"
    using str_find_bytes [of "str_of_bytes data" CRLF] by simp
  then obtain n where "str_find (str_of_bytes data) CRLF = Some n" by auto
  from first_line [OF this] obtain l x where d: "str_of_bytes data = l @ CRLF @ x" and l: "one_line l"
    by metis
  then have data: "data = bytes_of_str (l @ CRLF @ x)" by (metis bytes_of_str_of_bytes)
  from assms(1) obtain h body where h: "http_head data = Inr (h, body)"
    by (auto simp: http_request_def split: sum.splits)
  from http_head_insert [OF this [unfolded data] l via_not_Nil via_cr, of i] assms(3,4)
  obtain y where y: "h = l @ CRLF @ y"
    "data = bytes_of_str h @ (case body of Some b \<Rightarrow> b | None \<Rightarrow> [])"
    "http_head (bytes_of_str (l @ CRLF @ via_line i @ CRLF @ x)) = Inr (l @ CRLF @ via_line i @ CRLF @ y, body)"
    by (auto simp: utf8_via data)
  have lines: "split_on CRLF h = l # split_on CRLF y" by (simp only: y(1) split_line [OF l])
  have new_lines: "split_on CRLF (l @ CRLF @ via_line i @ CRLF @ y) = l # via_line i # split_on CRLF y"
    by (simp only: split_line [OF l] split_line [OF one_line_no_cr [OF via_cr [OF assms(3)]]])
  from assms(1) h lines have url: "http_url up l = Inr url" "\<not> starts_with l ''CONNECT''"
    and c: "c = add_via i data h body"
    by (auto simp: http_request_def st_bind_def split: sum.splits if_splits prod.splits)
  have "c = bytes_of_str (l @ CRLF @ via_line i @ CRLF @ x)"
    using y(1,2) unfolding c add_via_def by (simp add: find_line_end [OF l]) (simp add: data)
  then show ?thesis using y(3) url by (simp add: http_request_def new_lines via_detected)
qed

lemma http_request_empty: "http_request up i [] s = (s, Inl (IoError InvalidData ''invalid parts ''))"
proof -
  have "http_head [] = Inr ([], None)" "split_on CRLF [] = [[]]" "split_on '' '' [] = [[]]" by code_simp+
  then show ?thesis by (simp add: http_request_def http_url_def)
qed

lemma tcp_read_segment:
  assumes "ts_rx s = Segment c # r" and "c \<noteq> []" and "length c \<le> n"
  shows "tcp_read s n = (s\<lparr>ts_rx := r\<rparr>, Inr c)"
  using assms by (cases c) (auto simp: tcp_read_def)

text \<open>A request whose lines hold no carriage return, as it is sent.\<close>

definition http_text :: "string list \<Rightarrow> string" where
  "http_text lines = concat (map (\<lambda>l. l @ CRLF) lines) @ CRLF"

definition line_ok :: "string \<Rightarrow> bool" where
  "line_ok l \<longleftrightarrow> l \<noteq> [] \<and> cr \<notin> set l"

lemma http_text_Cons: "http_text (l # ls) = l @ CRLF @ http_text ls"
  by (simp add: http_text_def)

lemma find_head_text:
  assumes "line_ok l" and "\<forall>l\<in>set ls. line_ok l"
  shows "str_find (CRLF @ http_text (l # ls) @ x) (CRLF @ CRLF) = Some (length (http_text (l # ls)) - 2)"
  using assms
proof (induction ls arbitrary: l)
  case Nil
  have "str_find (CRLF @ CRLF @ x) (CRLF @ CRLF) = Some 0"
    by (rule str_find_0) (simp add: CRLF_def)
  with Nil show ?case
    using find_head_past [of l "CRLF @ CRLF @ x"] by (simp add: line_ok_def http_text_def)
next
  case (Cons k ls)
  then have "str_find (CRLF @ http_text (k # ls) @ x) (CRLF @ CRLF) = Some (length (http_text (k # ls)) - 2)"
    by simp
  with Cons.prems show ?case
    using find_head_past [of l "CRLF @ http_text (k # ls) @ x"]
    by (simp add: line_ok_def http_text_Cons)
qed

lemma http_head_text:
  assumes "line_ok line" and "\<forall>l\<in>set hdrs. line_ok l"
    and "utf8_ok (bytes_of_str (http_text (line # hdrs)))"
  shows "http_head (bytes_of_str (http_text (line # hdrs)) @ body) = Inr (http_text (line # hdrs), Some body)"
proof -
  let ?t = "http_text (line # hdrs)"
  have one: "one_line line" using assms(1) one_line_no_cr by (simp add: line_ok_def)
  have "str_find (?t @ str_of_bytes body) (CRLF @ CRLF) = Some (length ?t - 4)"
  proof (cases hdrs)
    case Nil
    have "str_find (CRLF @ CRLF @ str_of_bytes body) (CRLF @ CRLF) = Some 0"
      by (rule str_find_0) (simp add: CRLF_def)
    with Nil show ?thesis by (simp add: http_text_def find_head_line [OF one])
  next
    case (Cons h r)
    with assms(2) show ?thesis
      using find_head_text [of h r "str_of_bytes body"]
      by (simp add: http_text_Cons find_head_line [OF one])
  qed
  then have "str_find (bytes_of_str ?t @ body) head_end = Some (length ?t - 4)"
    using find_head [of "?t @ str_of_bytes body"] by simp
  moreover have "4 \<le> length ?t" by (simp add: http_text_def CRLF_def)
  ultimately show ?thesis using assms(3) by (simp add: http_head_def from_utf8_def)
qed

lemma split_text:
  assumes "\<forall>l\<in>set lines. cr \<notin> set l"
  shows "split_on CRLF (http_text lines) = lines @ [[], []]"
  using assms
proof (induction lines)
  case Nil
  have "split_on CRLF ([] @ CRLF @ []) = [] # split_on CRLF []" by (rule split_line) (simp add: one_line_def)
  moreover have "split_on CRLF [] = [[]]" by (subst split_on.simps) simp
  ultimately show ?case by (simp add: http_text_def)
next
  case (Cons l ls)
  then show ?case by (simp add: http_text_Cons split_line one_line_no_cr)
qed

lemma http_loop_text: "http_loop i (lines @ [[], []]) = http_loop i lines"
  by (auto simp: http_loop_def starts_with_def)

lemma http_forwards_ok:
  assumes "ts_rx s = Segment (bytes_of_str (http_text (line # hdrs)) @ body) # r"
    and "length (http_text (line # hdrs)) + length body \<le> TCP_IO_BUFFER_SIZE"
    and "\<forall>l\<in>set (line # hdrs). line_ok l" and "utf8_ok (bytes_of_str (http_text (line # hdrs)))"
    and "http_url up line = Inr url" and "url_addr url = Inr a"
    and "\<not> starts_with line ''CONNECT''" and "\<not> http_loop i (line # hdrs)"
  shows "\<exists>s'. http_handshake up i s =
      (s', Inr (a, Some (bytes_of_str (http_text (line # via_line i # hdrs)) @ body)))
    \<and> ts_rx s' = r \<and> ts_tx s' = ts_tx s"
proof -
  let ?t = "http_text (line # hdrs)" and ?s = "tcp_set_info (\<lambda>x. x\<lparr>si_protocol_name := ''http''\<rparr>) s"
  have read: "tcp_read ?s TCP_IO_BUFFER_SIZE = (?s\<lparr>ts_rx := r\<rparr>, Inr (bytes_of_str ?t @ body))"
    by (rule tcp_read_segment) (use assms(1,2) in \<open>simp_all add: tcp_set_info_def http_text_def CRLF_def\<close>)
  have one: "one_line line" using assms(3) one_line_no_cr by (simp add: line_ok_def)
  have lines: "split_on CRLF ?t = (line # hdrs) @ [[], []]"
    using split_text [of "line # hdrs"] assms(3) by (auto simp: line_ok_def)
  have "\<not> http_loop i ((line # hdrs) @ [[], []])" using assms(8) http_loop_text by blast
  moreover have "str_find ?t CRLF = Some (length line)"
    by (simp add: http_text_Cons find_line_end [OF one])
  then have "add_via i (bytes_of_str ?t @ body) ?t (Some body) =
      bytes_of_str (http_text (line # via_line i # hdrs)) @ body"
    by (simp add: add_via_def http_text_Cons)
  ultimately have "http_request up i (bytes_of_str ?t @ body) u =
      (u, Inr (url, Some (bytes_of_str (http_text (line # via_line i # hdrs)) @ body)))" for u
    using assms(3-5,7) by (simp add: http_request_def http_head_text lines)
  then show ?thesis using read assms(6)
    by (simp add: http_handshake_def st_bind_def tcp_set_info_def)
qed

text \<open>A URL parser that knows one URL.\<close>

definition demo_url :: "string \<Rightarrow> string + url_parts" where
  "demo_url u =
     (if u = ''http:'' @ [CHR 0x2F, CHR 0x2F] @ ''a.b''
      then Inr \<lparr>up_scheme = ''http'', up_host = Some ''a.b'', up_port = None, up_known_port = Some 80, up_path = [CHR 0x2F]\<rparr>
      else Inl ''unknown'')"

definition demo_get :: tcp_stream where
  "demo_get = tcp_run_stream_new
     [Segment (bytes_of_str (http_text [''GET a.b HTTP'', ''Accept: text'']) @ [1, 2]), Segment [3]]"

lemma demo_get_facts:
  "ts_rx demo_get = Segment (bytes_of_str (http_text (''GET a.b HTTP'' # [''Accept: text''])) @ [1, 2]) # [Segment [3]]"
  "length (http_text (''GET a.b HTTP'' # [''Accept: text''])) + length [1 :: u8, 2] \<le> TCP_IO_BUFFER_SIZE"
  "\<forall>l\<in>set (''GET a.b HTTP'' # [''Accept: text'']). line_ok l"
  "utf8_ok (bytes_of_str (http_text (''GET a.b HTTP'' # [''Accept: text''])))"
  "\<not> starts_with ''GET a.b HTTP'' ''CONNECT''" "\<not> http_loop ''srv'' (''GET a.b HTTP'' # [''Accept: text''])"
  by (simp add: demo_get_def tcp_run_stream_new_def, simp add: http_text_def CRLF_def TCP_IO_BUFFER_SIZE_def, code_simp+)

lemma demo_get_url:
  "\<exists>url. http_url demo_url ''GET a.b HTTP'' = Inr url
    \<and> url_addr url = Inr \<lparr>ra_addr = ''a.b'', ra_port = 80, ra_udp = False\<rparr>"
  by (rule exI [of _ "\<lparr>up_scheme = ''http'', up_host = Some ''a.b'', up_port = None, up_known_port = Some 80, up_path = [CHR 0x2F]\<rparr>"])
    code_simp

section \<open>Properties\<close>

text \<open>C27: A request that arrives in one read, other than \<open>CONNECT\<close> and not carrying this server's
  \<open>Via\<close> line, is passed on as it came with one line added: \<open>Via: 1.1\<close> and the server's id right
  after the request line.  The other header lines and the body are unchanged, nothing is
  written to the client, and the bytes of later reads stay in the stream.\<close>

theorem http_forwards_with_via:
  assumes "ts_rx s = Segment (bytes_of_str (http_text (line # hdrs)) @ body) # r"
    and "length (http_text (line # hdrs)) + length body \<le> TCP_IO_BUFFER_SIZE"
    and "\<forall>l\<in>set (line # hdrs). line_ok l" and "utf8_ok (bytes_of_str (http_text (line # hdrs)))"
    and "http_url up line = Inr url" and "url_addr url = Inr a"
    and "\<not> starts_with line ''CONNECT''" and "\<not> http_loop i (line # hdrs)"
  shows "\<exists>s'. http_handshake up i s =
      (s', Inr (a, Some (bytes_of_str (http_text (line # via_line i # hdrs)) @ body)))
    \<and> ts_rx s' = r \<and> ts_tx s' = ts_tx s"
  using http_forwards_ok [OF assms] .

lemma http_forwards_with_via_witness:
  "\<exists>s'. http_handshake demo_url ''srv'' demo_get =
      (s', Inr (\<lparr>ra_addr = ''a.b'', ra_port = 80, ra_udp = False\<rparr>,
         Some (bytes_of_str (http_text [''GET a.b HTTP'', ''Via: 1.1 srv'', ''Accept: text'']) @ [1, 2])))"
proof -
  obtain url where u: "http_url demo_url ''GET a.b HTTP'' = Inr url"
    "url_addr url = Inr \<lparr>ra_addr = ''a.b'', ra_port = 80, ra_udp = False\<rparr>"
    using demo_get_url by auto
  have "via_line ''srv'' = ''Via: 1.1 srv''" by (simp add: via_line_def)
  then show ?thesis using http_forwards_with_via [OF demo_get_facts(1-4) u demo_get_facts(5,6)] by auto
qed

text \<open>C28: A proxy never sends a request into itself twice: what it passed on, when it comes back to
  the same server id in one read, is refused with \<open>Loop detected\<close>, nothing written.  This holds
  for every request with at least one line end, whatever its other lines are.\<close>

theorem http_loop_refused:
  assumes "ts_rx s = Segment data # r" and "length data \<le> TCP_IO_BUFFER_SIZE"
    and "str_find data [13, 10] \<noteq> None"
    and "http_handshake up i s = (s', Inr (a, Some c))"
    and "cr \<notin> set i" and "utf8_ok (bytes_of_str i)"
    and "ts_rx t = Segment c # q" and "length c \<le> TCP_IO_BUFFER_SIZE"
  shows "\<exists>t'. http_handshake up i t = (t', Inl (IoError Other ''Loop detected'')) \<and> ts_tx t' = ts_tx t"
proof -
  let ?s = "tcp_set_info (\<lambda>x. x\<lparr>si_protocol_name := ''http''\<rparr>) s"
  let ?t = "tcp_set_info (\<lambda>x. x\<lparr>si_protocol_name := ''http''\<rparr>) t"
  have "data \<noteq> []" using assms(3) by auto
  then have "tcp_read ?s TCP_IO_BUFFER_SIZE = (?s\<lparr>ts_rx := r\<rparr>, Inr data)"
    by (intro tcp_read_segment) (use assms(1,2) in \<open>simp_all add: tcp_set_info_def\<close>)
  with assms(4) obtain s1 url where "http_request up i data (?s\<lparr>ts_rx := r\<rparr>) = (s1, Inr (url, Some c))"
    by (auto simp: http_handshake_def st_bind_def io_bind_eq_Inr split: prod.splits sum.splits)
  note again = http_request_again [OF this assms(3,5,6)]
  have "c \<noteq> []" using again [of t] http_request_empty [of up i t] by auto
  then have "tcp_read ?t TCP_IO_BUFFER_SIZE = (?t\<lparr>ts_rx := q\<rparr>, Inr c)"
    by (intro tcp_read_segment) (use assms(7,8) in \<open>simp_all add: tcp_set_info_def\<close>)
  with again show ?thesis by (simp add: http_handshake_def st_bind_def tcp_set_info_def)
qed

lemma http_loop_refused_witness:
  "\<exists>s' t' a c. http_handshake demo_url ''srv'' demo_get = (s', Inr (a, Some c))
     \<and> http_handshake demo_url ''srv'' (tcp_run_stream_new [Segment c]) = (t', Inl (IoError Other ''Loop detected''))"
proof -
  obtain url where u: "http_url demo_url ''GET a.b HTTP'' = Inr url"
    "url_addr url = Inr \<lparr>ra_addr = ''a.b'', ra_port = 80, ra_udp = False\<rparr>"
    using demo_get_url by auto
  let ?c = "bytes_of_str (http_text (''GET a.b HTTP'' # via_line ''srv'' # [''Accept: text''])) @ [1, 2]"
  from http_forwards_ok [OF demo_get_facts(1-4) u demo_get_facts(5,6)] obtain s'
    where s: "http_handshake demo_url ''srv'' demo_get =
      (s', Inr (\<lparr>ra_addr = ''a.b'', ra_port = 80, ra_udp = False\<rparr>, Some ?c))" by blast
  have "length (bytes_of_str (http_text (''GET a.b HTTP'' # [''Accept: text''])) @ [1, 2]) \<le> TCP_IO_BUFFER_SIZE"
    "length ?c \<le> TCP_IO_BUFFER_SIZE"
    by (simp_all add: http_text_def CRLF_def TCP_IO_BUFFER_SIZE_def via_line_def)
  moreover have "str_find (bytes_of_str (http_text (''GET a.b HTTP'' # [''Accept: text''])) @ [1, 2]) [13, 10] \<noteq> None"
    "cr \<notin> set ''srv''" "utf8_ok (bytes_of_str ''srv'')"
    by code_simp+
  moreover have "ts_rx (tcp_run_stream_new [Segment ?c]) = Segment ?c # []" by (simp add: tcp_run_stream_new_def)
  ultimately show ?thesis
    using http_loop_refused [OF demo_get_facts(1) _ _ s, of "tcp_run_stream_new [Segment ?c]" "[]"] s by blast
qed

text \<open>\<open>CONNECT\<close>: the client gets the \<open>200\<close> response and nothing else, and there is nothing to
  send ahead of the relay.  Bytes that came in the same read after the request header are lost: they are
  neither in the cache nor left in the stream.\<close>

theorem http_connect_drops_body:
  assumes "ts_rx s = Segment (bytes_of_str (http_text (line # hdrs)) @ body) # r" and "ts_err s = None"
    and "length (http_text (line # hdrs)) + length body \<le> TCP_IO_BUFFER_SIZE"
    and "\<forall>l\<in>set (line # hdrs). line_ok l" and "utf8_ok (bytes_of_str (http_text (line # hdrs)))"
    and "http_url up line = Inr url" and "url_addr url = Inr a" and "starts_with line ''CONNECT''"
  shows "\<exists>s'. http_handshake up i s = (s', Inr (a, None))
    \<and> ts_rx s' = r \<and> ts_tx s' = ts_tx s @ established"
proof -
  let ?t = "http_text (line # hdrs)" and ?s = "tcp_set_info (\<lambda>x. x\<lparr>si_protocol_name := ''http''\<rparr>) s"
  have read: "tcp_read ?s TCP_IO_BUFFER_SIZE = (?s\<lparr>ts_rx := r\<rparr>, Inr (bytes_of_str ?t @ body))"
    by (rule tcp_read_segment) (use assms(1,3) in \<open>simp_all add: tcp_set_info_def http_text_def CRLF_def\<close>)
  have "split_on CRLF ?t = (line # hdrs) @ [[], []]"
    using split_text [of "line # hdrs"] assms(4) by (auto simp: line_ok_def)
  then have "http_request up i (bytes_of_str ?t @ body) u = st_bind (\<lambda>s. tcp_write s established) (\<lambda>_. st_ret (url, None)) u"
    for u using assms(4-6,8) by (simp add: http_request_def http_head_text)
  then show ?thesis using read assms(2,7)
    by (simp add: http_handshake_def st_bind_def tcp_set_info_def tcp_write_def)
qed

lemma http_connect_drops_body_witness:
  "\<exists>s'. http_handshake demo_url ''srv'' (tcp_run_stream_new
        [Segment (bytes_of_str (http_text [''CONNECT a.b HTTP'']) @ [22, 3])])
      = (s', Inr (\<lparr>ra_addr = ''a.b'', ra_port = 80, ra_udp = False\<rparr>, None)) \<and> ts_rx s' = []"
proof -
  let ?s = "tcp_run_stream_new [Segment (bytes_of_str (http_text (''CONNECT a.b HTTP'' # [])) @ [22, 3])]"
  have "\<exists>url. http_url demo_url ''CONNECT a.b HTTP'' = Inr url
    \<and> url_addr url = Inr \<lparr>ra_addr = ''a.b'', ra_port = 80, ra_udp = False\<rparr>"
    by (rule exI [of _ "\<lparr>up_scheme = ''http'', up_host = Some ''a.b'', up_port = None, up_known_port = Some 80, up_path = [CHR 0x2F]\<rparr>"])
      code_simp
  then obtain url where u: "http_url demo_url ''CONNECT a.b HTTP'' = Inr url"
    "url_addr url = Inr \<lparr>ra_addr = ''a.b'', ra_port = 80, ra_udp = False\<rparr>" by auto
  have "ts_rx ?s = Segment (bytes_of_str (http_text (''CONNECT a.b HTTP'' # [])) @ [22, 3]) # []" "ts_err ?s = None"
    "length (http_text (''CONNECT a.b HTTP'' # [])) + length [22 :: u8, 3] \<le> TCP_IO_BUFFER_SIZE"
    by (simp_all add: tcp_run_stream_new_def http_text_def CRLF_def TCP_IO_BUFFER_SIZE_def)
  moreover have "\<forall>l\<in>set (''CONNECT a.b HTTP'' # []). line_ok l"
    "utf8_ok (bytes_of_str (http_text (''CONNECT a.b HTTP'' # [])))" "starts_with ''CONNECT a.b HTTP'' ''CONNECT''"
    by code_simp+
  ultimately show ?thesis using http_connect_drops_body [OF _ _ _ _ _ u, of ?s "[]" "[22, 3]" "[]" "''srv''"]
    by blast
qed

text \<open>C29: The mixed acceptor speaks SOCKS5 as the SOCKS5 acceptor does to a client whose hello and request
  come in whole reads: the same two bytes answer the hello, the same address is asked for, and
  the bytes that follow the request are the same, those of the same read being in the cache
  instead of the stream.\<close>

theorem htss5_agrees_with_socks5:
  assumes "ts_rx s = Segment (hello_bytes methods) # Segment (request_bytes cmd 0 a_typ a port @ rest) # r"
    and "rx_clean r" and "ts_err s = None" and "NO_AUTH \<in> set methods" and "length methods < 256"
    and "request_wf cmd a_typ a" and "a \<noteq> []"
    and "length (request_bytes cmd 0 a_typ a port) + length rest \<le> TCP_IO_BUFFER_SIZE"
  shows "\<exists>s' s'' cache.
      htss5_handshake up i s = (s', io_bind (requested cmd a_typ a port) (\<lambda>addr. Inr (addr, cache)))
    \<and> socks_handshake s = (s'', io_bind (requested cmd a_typ a port) (\<lambda>addr. Inr (addr, None)))
    \<and> ts_tx s' = ts_tx s'' \<and> si_protocol_name (ts_info s') = si_protocol_name (ts_info s'')
    \<and> (case cache of Some b \<Rightarrow> b | None \<Rightarrow> []) @ tcp_pending s' = tcp_pending s''"
proof -
  let ?h = "\<lparr>ch_version = 5, ch_method_num = word_of_nat (length methods), ch_methods = methods\<rparr>"
  let ?q = "\<lparr>rq_version = 5, rq_cmd = cmd, rq_rsv = 0, rq_a_typ = a_typ, rq_dst_addr = a, rq_dst_port = be16 port\<rparr>"
  let ?data = "request_bytes cmd 0 a_typ a port @ rest" and ?cache = "if rest = [] then None else Some rest"
  have ne: "methods \<noteq> []" using assms(4) by auto
  have hello: "hello_parse_bytes (hello_bytes methods) = Inr (?h, length (hello_bytes methods))"
    using hello_parse_bytes_ok [OF ne assms(5), of "[]"] by simp
  have c: "hello_contains ?h NO_AUTH" using assms(4) by (simp add: hello_contains_def)
  have r1: "tcp_read s TCP_IO_BUFFER_SIZE = (s\<lparr>ts_rx := Segment ?data # r\<rparr>, Inr (hello_bytes methods))"
    by (rule tcp_read_segment [OF assms(1)])
      (use assms(5) in \<open>simp_all add: hello_bytes_def TCP_IO_BUFFER_SIZE_def\<close>)
  let ?u = "s\<lparr>ts_rx := Segment ?data # r, ts_tx := ts_tx s @ [5, 0]\<rparr>"
  have w: "tcp_write (s\<lparr>ts_rx := Segment ?data # r\<rparr>) (server_hello_to_bytes \<lparr>sh_version = 5, sh_method = NO_AUTH\<rparr>)
      = (?u, Inr ())"
    using assms(3) by (simp add: tcp_write_def server_hello_to_bytes_def NO_AUTH_def)
  have r2: "tcp_read ?u TCP_IO_BUFFER_SIZE = (?u\<lparr>ts_rx := r\<rparr>, Inr ?data)"
    by (rule tcp_read_segment) (use assms(8) in \<open>simp_all add: request_bytes_def\<close>)
  let ?v = "tcp_set_info (\<lambda>x. x\<lparr>si_protocol_name := ''socks5''\<rparr>) (?u\<lparr>ts_rx := r\<rparr>)"
  have "htss5_socks (hello_bytes methods) (s\<lparr>ts_rx := Segment ?data # r\<rparr>) =
      (?v, io_bind (run_addr_of_request ?q) (\<lambda>addr. Inr (addr, ?cache)))"
    by (simp add: htss5_socks_def hello c st_bind_def w r2 request_parse_bytes_ok [OF assms(6,7)])
  then have h: "htss5_handshake up i s =
      (?v, io_bind (requested cmd a_typ a port) (\<lambda>addr. Inr (addr, ?cache)))"
    by (simp add: htss5_handshake_def st_bind_def r1 hello_bytes_def run_addr_of_request_def requested_def)
  have p: "tcp_pending s = socks_client_bytes methods cmd a_typ a port @ rest @ rx_pending r"
    by (simp add: tcp_pending_def assms(1) socks_client_bytes_def)
  have "tcp_clean s" by (simp add: tcp_clean_def assms(1,2))
  from socks_handshake_ok [OF this assms(3-7) p] obtain s''
    where "socks_handshake s = (s'', io_bind (requested cmd a_typ a port) (\<lambda>addr. Inr (addr, None)))"
      "ts_tx s'' = ts_tx s @ [5, 0]" "tcp_pending s'' = rest @ rx_pending r"
      "si_protocol_name (ts_info s'') = ''socks5''"
    by blast
  then show ?thesis
    by (intro exI [of _ ?v] exI [of _ s''] exI [of _ ?cache])
      (simp add: h tcp_pending_def tcp_set_info_def)
qed

lemma htss5_agrees_with_socks5_witness:
  "\<exists>s' s'' cache a. htss5_handshake demo_url ''srv''
        (tcp_run_stream_new [Segment [5, 1, 0], Segment [5, 1, 0, 1, 10, 0, 0, 1, 0, 80, 7]]) = (s', Inr (a, cache))
     \<and> socks_handshake
        (tcp_run_stream_new [Segment [5, 1, 0], Segment [5, 1, 0, 1, 10, 0, 0, 1, 0, 80, 7]]) = (s'', Inr (a, None))
     \<and> ts_tx s' = ts_tx s''"
proof -
  let ?s = "tcp_run_stream_new [Segment [5, 1, 0], Segment [5, 1, 0, 1, 10, 0, 0, 1, 0, 80, 7]]"
  have "ts_rx ?s = Segment (hello_bytes [0]) # Segment (request_bytes 1 0 1 [10, 0, 0, 1] 80 @ [7]) # []"
    "request_wf 1 1 [10, 0, 0, 1]" "NO_AUTH \<in> set [0]"
    by code_simp+
  moreover have "length (request_bytes 1 0 1 [10, 0, 0, 1] 80) + length [7 :: u8] \<le> TCP_IO_BUFFER_SIZE"
    by (simp add: request_bytes_def udp_addr_field_def TCP_IO_BUFFER_SIZE_def)
  moreover have "requested 1 1 [10, 0, 0, 1] 80 = Inr \<lparr>ra_addr = ''10.0.0.1'', ra_port = 80, ra_udp = False\<rparr>"
    by code_simp
  moreover have "ts_err ?s = None" by (simp add: tcp_run_stream_new_def)
  ultimately show ?thesis
    using htss5_agrees_with_socks5 [of ?s "[0]" 1 1 "[10, 0, 0, 1]" 80 "[7]" "[]" demo_url "''srv''"]
    by (auto intro: exI)
qed

text \<open>Any other first byte is the start of an HTTP request, treated as the HTTP acceptor treats it.\<close>

lemma htss5_agrees_with_http:
  assumes "ts_rx s = Segment data # r" and "data \<noteq> []" and "length data \<le> TCP_IO_BUFFER_SIZE"
    and "hd data \<noteq> 5"
  shows "snd (htss5_handshake up i s) = snd (http_handshake up i s)
    \<and> ts_tx (fst (htss5_handshake up i s)) = ts_tx (fst (http_handshake up i s))
    \<and> ts_rx (fst (htss5_handshake up i s)) = ts_rx (fst (http_handshake up i s))"
proof -
  have "tcp_read s TCP_IO_BUFFER_SIZE = (s\<lparr>ts_rx := r\<rparr>, Inr data)"
    "tcp_read (tcp_set_info f s) TCP_IO_BUFFER_SIZE = ((tcp_set_info f s)\<lparr>ts_rx := r\<rparr>, Inr data)" for f
    by (rule tcp_read_segment; use assms in \<open>simp add: tcp_set_info_def\<close>)+
  then show ?thesis using assms(2,4)
    by (auto simp: htss5_handshake_def http_handshake_def htss5_http_def st_bind_def http_request_def
        tcp_set_info_def tcp_write_def Let_def split: sum.splits option.splits)
qed

text \<open>What a client sends right behind its hello, in the same read, is dropped: the handshake goes on as
  if those bytes had never been sent, and takes the next read for the request.\<close>

lemma htss5_drops_pipelined:
  assumes "methods \<noteq> []" and "length methods < 256"
    and "length (hello_bytes methods) + length x \<le> TCP_IO_BUFFER_SIZE"
  shows "htss5_handshake up i (s\<lparr>ts_rx := Segment (hello_bytes methods @ x) # r\<rparr>)
       = htss5_handshake up i (s\<lparr>ts_rx := Segment (hello_bytes methods) # r\<rparr>)"
proof -
  have "tcp_read (s\<lparr>ts_rx := Segment (hello_bytes methods @ y) # r\<rparr>) TCP_IO_BUFFER_SIZE =
      (s\<lparr>ts_rx := r\<rparr>, Inr (hello_bytes methods @ y))" if "length y \<le> length x" for y
    using tcp_read_segment [of "s\<lparr>ts_rx := Segment (hello_bytes methods @ y) # r\<rparr>" "hello_bytes methods @ y" r] assms(3) that
    by (simp add: hello_bytes_def)
  from this [of x] this [of "[]"] show ?thesis
    using hello_parse_bytes_ok [OF assms(1,2), of x] hello_parse_bytes_ok [OF assms(1,2), of "[]"]
    by (simp add: htss5_handshake_def st_bind_def htss5_socks_def) (simp add: hello_bytes_def)
qed

end
