(* ===== verification/Proto.thy ===== *)
theory Proto
  imports Run_Def
begin

text \<open>
  The protobuf messages of \<open>proto/rog.proto\<close> and \<open>proto/rog_reverse.proto\<close> as records (a field
  marked \<open>optional\<close> is an option), and the conversions of \<open>src/proto/v1.rs\<close> between them and
  \<open>UDPPacket\<close>.  Ports travel as 32-bit numbers.
\<close>

section \<open>Messages of the forward service\<close>

record stream_req =
  sq_auth :: string
  sq_payload :: "bytes option"
  sq_dst_addr :: "string option"
  sq_dst_port :: "u32 option"

definition stream_req_default :: stream_req where
  "stream_req_default = \<lparr>sq_auth = [], sq_payload = None, sq_dst_addr = None, sq_dst_port = None\<rparr>"

record stream_res =
  sr_payload :: bytes

record udp_req =
  uq_auth :: string
  uq_payload :: "bytes option"
  uq_dst_addr :: "string option"
  uq_dst_port :: "u32 option"
  uq_src_addr :: "string option"
  uq_src_port :: "u32 option"

record udp_res =
  us_payload :: bytes
  us_dst_addr :: "string option"
  us_dst_port :: "u32 option"
  us_src_addr :: "string option"
  us_src_port :: "u32 option"

section \<open>Messages of the reverse service\<close>

record addr_info =
  ai_dst_addr :: string
  ai_dst_port :: u32
  ai_src_addr :: string
  ai_src_port :: u32

record rev_stream_req =
  vq_auth :: string
  vq_payload :: "bytes option"
  vq_conn_id :: "string option"

definition rev_stream_req_default :: rev_stream_req where
  "rev_stream_req_default = \<lparr>vq_auth = [], vq_payload = None, vq_conn_id = None\<rparr>"

record rev_stream_res =
  vr_payload :: bytes

record rev_udp_req =
  wq_auth :: string
  wq_payload :: "bytes option"
  wq_addr_info :: "addr_info option"
  wq_conn_id :: "string option"

definition rev_udp_req_default :: rev_udp_req where
  "rev_udp_req_default = \<lparr>wq_auth = [], wq_payload = None, wq_addr_info = None, wq_conn_id = None\<rparr>"

record rev_udp_res =
  wr_payload :: bytes
  wr_addr_info :: "addr_info option"

record manager_req =
  mq_auth :: string
  mq_tag :: string
  mq_addr_info :: "addr_info option"
  mq_udp :: "u32 option"
  mq_conn_id :: "string option"

record manager_res =
  ms_addr_info :: "addr_info option"
  ms_udp :: "u32 option"
  ms_conn_id :: "string option"

section \<open>Conversions of UDP packets\<close>

text \<open>
  \<open>try_into\<close> has the error type \<open>()\<close>: its result is a sum inside the result that also allows a
  panic.
\<close>

definition udp_req_try_into :: "udp_req \<Rightarrow> (unit + udp_packet) io" where
  "udp_req_try_into r =
     io_bind (unwrap (uq_dst_addr r)) (\<lambda>dst_addr.
     io_bind (unwrap (uq_dst_port r)) (\<lambda>dst_port.
     io_bind (unwrap (uq_src_addr r)) (\<lambda>src_addr.
     io_bind (unwrap (uq_src_port r)) (\<lambda>src_port.
     io_bind (unwrap (uq_payload r)) (\<lambda>data.
       Inr (Inr \<lparr>up_meta = \<lparr>um_dst_addr = dst_addr, um_dst_port = port_of_u32 dst_port,
                           um_src_addr = src_addr, um_src_port = port_of_u32 src_port\<rparr>,
                 up_data = data\<rparr>))))))"

definition udp_req_from_packet :: "udp_packet \<Rightarrow> string \<Rightarrow> udp_req" where
  "udp_req_from_packet packet auth =
     (let m = up_meta packet in
      \<lparr>uq_auth = auth, uq_payload = Some (up_data packet), uq_dst_addr = Some (um_dst_addr m),
       uq_dst_port = Some (u32_of_port (um_dst_port m)), uq_src_addr = Some (um_src_addr m),
       uq_src_port = Some (u32_of_port (um_src_port m))\<rparr>)"

definition udp_res_try_into :: "udp_res \<Rightarrow> (unit + udp_packet) io" where
  "udp_res_try_into r =
     io_bind (unwrap (us_dst_addr r)) (\<lambda>dst_addr.
     io_bind (unwrap (us_dst_port r)) (\<lambda>dst_port.
     io_bind (unwrap (us_src_addr r)) (\<lambda>src_addr.
     io_bind (unwrap (us_src_port r)) (\<lambda>src_port.
       Inr (Inr \<lparr>up_meta = \<lparr>um_dst_addr = dst_addr, um_dst_port = port_of_u32 dst_port,
                           um_src_addr = src_addr, um_src_port = port_of_u32 src_port\<rparr>,
                 up_data = us_payload r\<rparr>)))))"

definition udp_res_try_from :: "udp_packet \<Rightarrow> unit + udp_res" where
  "udp_res_try_from packet =
     (let m = up_meta packet in
      Inr \<lparr>us_payload = up_data packet, us_dst_addr = Some (um_dst_addr m),
           us_dst_port = Some (u32_of_port (um_dst_port m)), us_src_addr = Some (um_src_addr m),
           us_src_port = Some (u32_of_port (um_src_port m))\<rparr>)"

definition rev_udp_req_try_into :: "rev_udp_req \<Rightarrow> unit + udp_packet" where
  "rev_udp_req_try_into r =
     (case wq_addr_info r of
        None \<Rightarrow> Inl ()
      | Some info \<Rightarrow>
          Inr \<lparr>up_meta = \<lparr>um_dst_addr = ai_dst_addr info,
                          um_dst_port = port_of_u32 (ai_dst_port info),
                          um_src_addr = ai_src_addr info,
                          um_src_port = port_of_u32 (ai_src_port info)\<rparr>,
               up_data = (case wq_payload r of None \<Rightarrow> [] | Some d \<Rightarrow> d)\<rparr>)"

definition addr_info_of_meta :: "udp_meta \<Rightarrow> addr_info" where
  "addr_info_of_meta m =
     \<lparr>ai_dst_addr = um_dst_addr m, ai_dst_port = u32_of_port (um_dst_port m),
      ai_src_addr = um_src_addr m, ai_src_port = u32_of_port (um_src_port m)\<rparr>"

definition rev_udp_req_from_packet :: "udp_packet \<Rightarrow> string \<Rightarrow> rev_udp_req" where
  "rev_udp_req_from_packet packet auth =
     \<lparr>wq_auth = auth, wq_payload = Some (up_data packet),
      wq_addr_info = Some (addr_info_of_meta (up_meta packet)), wq_conn_id = None\<rparr>"

definition rev_udp_res_try_into :: "rev_udp_res \<Rightarrow> unit + udp_packet" where
  "rev_udp_res_try_into r =
     (case wr_addr_info r of
        None \<Rightarrow> Inl ()
      | Some info \<Rightarrow>
          Inr \<lparr>up_meta = \<lparr>um_dst_addr = ai_dst_addr info,
                          um_dst_port = port_of_u32 (ai_dst_port info),
                          um_src_addr = ai_src_addr info,
                          um_src_port = port_of_u32 (ai_src_port info)\<rparr>,
               up_data = wr_payload r\<rparr>)"

definition rev_udp_res_try_from :: "udp_packet \<Rightarrow> unit + rev_udp_res" where
  "rev_udp_res_try_from packet =
     Inr \<lparr>wr_payload = up_data packet, wr_addr_info = Some (addr_info_of_meta (up_meta packet))\<rparr>"

lemmas udp_convert_defs = udp_req_try_into_def udp_req_from_packet_def udp_res_try_into_def
  udp_res_try_from_def rev_udp_req_try_into_def rev_udp_req_from_packet_def
  rev_udp_res_try_into_def rev_udp_res_try_from_def addr_info_of_meta_def Let_def

lemma udp_convert_roundtrip:
  "udp_req_try_into (udp_req_from_packet p auth) = Inr (Inr p)"
  "\<exists>r. udp_res_try_from p = Inr r \<and> udp_res_try_into r = Inr (Inr p)"
  "rev_udp_req_try_into (rev_udp_req_from_packet p auth) = Inr p"
  "\<exists>r. rev_udp_res_try_from p = Inr r \<and> rev_udp_res_try_into r = Inr p"
  by (simp_all add: udp_convert_defs)

section \<open>Properties\<close>

text \<open>A UDP packet survives each of the four message types that carry it: converted to a request
  or a response of either service and back it is unchanged, and the request carries the sender's
  token.\<close>

theorem udp_messages_roundtrip:
  "udp_req_try_into (udp_req_from_packet p auth) = Inr (Inr p)
   \<and> uq_auth (udp_req_from_packet p auth) = auth
   \<and> (\<exists>r. udp_res_try_from p = Inr r \<and> udp_res_try_into r = Inr (Inr p))
   \<and> rev_udp_req_try_into (rev_udp_req_from_packet p auth) = Inr p
   \<and> wq_auth (rev_udp_req_from_packet p auth) = auth
   \<and> (\<exists>r. rev_udp_res_try_from p = Inr r \<and> rev_udp_res_try_into r = Inr p)"
  using udp_convert_roundtrip by (simp add: udp_req_from_packet_def rev_udp_req_from_packet_def Let_def)

text \<open>What a peer sends is not checked: a request of the forward service panics the reader exactly
  when one of its optional fields is missing, one of the reverse service is an error exactly
  when its address is, and a port above 65535 is silently taken modulo 65536.\<close>

theorem udp_request_unchecked:
  "(is_panic (udp_req_try_into q) \<longleftrightarrow>
      uq_dst_addr q = None \<or> uq_dst_port q = None \<or> uq_src_addr q = None \<or> uq_src_port q = None
        \<or> uq_payload q = None)
   \<and> (rev_udp_req_try_into w = Inl () \<longleftrightarrow> wq_addr_info w = None)
   \<and> (\<forall>p. udp_req_try_into q = Inr (Inr p) \<longrightarrow>
        unat (um_dst_port (up_meta p)) = unat (the (uq_dst_port q)) mod 65536)"
  by (auto simp: udp_req_try_into_def rev_udp_req_try_into_def unwrap_def unat_port_of_u32
      split: option.splits)

lemma udp_request_unchecked_witness:
  "\<exists>p. udp_req_try_into \<lparr>uq_auth = [], uq_payload = Some [1], uq_dst_addr = Some ''a'',
      uq_dst_port = Some 65589, uq_src_addr = Some ''b'', uq_src_port = Some 7\<rparr> = Inr (Inr p)
     \<and> unat (um_dst_port (up_meta p)) = 53"
proof -
  let ?q = "\<lparr>uq_auth = [], uq_payload = Some [1], uq_dst_addr = Some ''a'',
      uq_dst_port = Some 65589, uq_src_addr = Some ''b'', uq_src_port = Some 7\<rparr>"
  obtain p where p: "udp_req_try_into ?q = Inr (Inr p)" by (simp add: udp_req_try_into_def)
  then have "unat (um_dst_port (up_meta p)) = unat (the (uq_dst_port ?q)) mod 65536"
    using udp_request_unchecked [of ?q] by blast
  with p show ?thesis by simp
qed

end
