(* ===== verification/Tcp_Frame.thy ===== *)
theory Tcp_Frame
  imports Tcp_Stream
begin

text \<open>
  \<open>src/util/tcp_frame.rs\<close>: protobuf messages over a TCP connection.  A frame is a random 64-bit
  number \<open>r\<close>, the length of the data minus \<open>r\<close> (wrapping), and the data; the reader adds the two
  numbers.  The random number is an argument of the writer.  The protobuf encoding is generated
  code: \<open>enc\<close> and \<open>dec\<close> are arguments.

  The reading functions are written over the read operation of the connection, and use
  \<open>AsyncReadExt::read_exact\<close>, which, unlike \<open>RunStream::read_exact\<close>, fails unless the whole buffer
  is filled.
\<close>

definition CONN_TYPE_STREAM :: u8 where "CONN_TYPE_STREAM = 1"
definition CONN_TYPE_UDP :: u8 where "CONN_TYPE_UDP = 2"

text \<open>The largest frame a reader accepts.\<close>

definition max_frame :: nat where "max_frame = 16 * 1024 * 1024"

section \<open>Filling a buffer\<close>

function fill_loop :: "'s reader \<Rightarrow> 's \<Rightarrow> nat \<Rightarrow> bytes \<Rightarrow> 's \<times> bytes io" where
  "fill_loop rd s m acc =
     (if m = 0 then (s, Inr acc)
      else case rd s m of
             (s', Inl e) \<Rightarrow> (s', Inl e)
           | (s', Inr bs) \<Rightarrow>
               if bs = [] then (s', Inl (IoError UnexpectedEof ''early eof''))
               else fill_loop rd s' (m - length bs) (acc @ bs))"
  by pat_completeness auto
termination
  by (relation "measure (\<lambda>(rd, s, m, acc). m)") auto

declare fill_loop.simps [simp del]

text \<open>\<open>AsyncReadExt::read_exact\<close> on a buffer of \<open>m\<close> bytes.\<close>

definition fill :: "'s reader \<Rightarrow> nat \<Rightarrow> ('s, bytes) op" where
  "fill rd m s = fill_loop rd s m []"

section \<open>Frames\<close>

definition write_frame ::
    "('w \<Rightarrow> bytes \<Rightarrow> 'w \<times> unit io) \<Rightarrow> ('m \<Rightarrow> bytes) \<Rightarrow> u64 \<Rightarrow> 'm \<Rightarrow> ('w, unit) op" where
  "write_frame wr enc r msg =
     (let data = enc msg;
          len = (word_of_nat (length data) :: u64);
          second = len - r
      in st_bind (\<lambda>w. wr w (be64 r)) (\<lambda>_.
         st_bind (\<lambda>w. wr w (be64 second)) (\<lambda>_ w.
           wr w data)))"

definition read_frame :: "'s reader \<Rightarrow> ('s, bytes) op" where
  "read_frame rd =
     st_bind (fill rd 16) (\<lambda>buf16.
       let r = of_be64 (take 8 buf16);
           second = of_be64 (drop 8 buf16);
           len = unat (r + second)
       in if max_frame < len then st_fail (IoError Other ''frame too large'')
          else fill rd len)"

definition read_msg :: "'s reader \<Rightarrow> (bytes \<Rightarrow> string + 'm) \<Rightarrow> ('s, 'm) op" where
  "read_msg rd dec =
     st_bind (read_frame rd) (\<lambda>data.
       case dec data of
         Inl e \<Rightarrow> st_fail (IoError Other (''protobuf decode: '' @ e))
       | Inr m \<Rightarrow> st_ret m)"

lemma read_msg_eq_Inr:
  "read_msg rd dec s = (s', Inr m) \<longleftrightarrow> (\<exists>d. read_frame rd s = (s', Inr d) \<and> dec d = Inr m)"
proof -
  have "(case dec d of Inl e \<Rightarrow> st_fail (IoError Other (''protobuf decode: '' @ e)) | Inr m \<Rightarrow> st_ret m) u
      = (s', Inr m) \<longleftrightarrow> u = s' \<and> dec d = Inr m" for d u
    by (cases "dec d") auto
  then show ?thesis by (auto simp: read_msg_def st_bind_eq_Inr)
qed

definition read_conn_type :: "'s reader \<Rightarrow> ('s, u8) op" where
  "read_conn_type rd = st_bind (fill rd 1) (\<lambda>buf s. (s, index buf 0))"

definition write_conn_type :: "('w \<Rightarrow> bytes \<Rightarrow> 'w \<times> unit io) \<Rightarrow> u8 \<Rightarrow> ('w, unit) op" where
  "write_conn_type wr conn_type w = wr w [conn_type]"

text \<open>The bytes of a frame, and what it takes for them to be read back.\<close>

definition frame_bytes :: "u64 \<Rightarrow> bytes \<Rightarrow> bytes" where
  "frame_bytes r data = be64 r @ be64 (word_of_nat (length data) - r) @ data"

definition codec_ok :: "('m \<Rightarrow> bytes) \<Rightarrow> (bytes \<Rightarrow> string + 'm) \<Rightarrow> bool" where
  "codec_ok enc dec \<longleftrightarrow> (\<forall>m. dec (enc m) = Inr m)"

section \<open>Reading from a byte stream\<close>

context byte_stream
begin

lemma fill_loop_prefix:
  "fill_loop rd s m acc = (s', Inr got) \<Longrightarrow>
     \<exists>bs. got = acc @ bs \<and> length bs = m \<and> pending s = bs @ pending s'"
proof (induction m arbitrary: s acc rule: less_induct)
  case (less m)
  show ?case
  proof (cases "m = 0")
    case True
    with less.prems show ?thesis by (simp add: fill_loop.simps)
  next
    case False
    with less.prems obtain t b where rd: "rd s m = (t, Inr b)" "b \<noteq> []"
      and rest: "fill_loop rd t (m - length b) (acc @ b) = (s', Inr got)"
      by (auto simp: fill_loop.simps [of rd s m] split: prod.splits sum.splits if_splits)
    note p = rd_prefix [OF rd(1)]
    from rd(2) False have "m - length b < m" by simp
    from less.IH [OF this rest] p show ?thesis by fastforce
  qed
qed

lemma fill_prefix:
  "fill rd m s = (s', Inr bs) \<Longrightarrow> length bs = m \<and> pending s = bs @ pending s'"
  using fill_loop_prefix [of s m "[]"] by (auto simp: fill_def)

text \<open>A frame that was read is exactly the bytes that left the stream.\<close>

lemma read_frame_prefix:
  assumes "read_frame rd s = (s', Inr data)"
  shows "\<exists>r. pending s = frame_bytes r data @ pending s' \<and> length data \<le> max_frame"
proof -
  from assms obtain u h where h: "fill rd 16 s = (u, Inr h)"
    and d: "fill rd (unat (of_be64 (take 8 h) + of_be64 (drop 8 h))) u = (s', Inr data)"
    and le: "unat (of_be64 (take 8 h) + of_be64 (drop 8 h)) \<le> max_frame"
    by (auto simp: read_frame_def st_bind_eq_Inr Let_def split: if_splits)
  note ph = fill_prefix [OF h] and pd = fill_prefix [OF d]
  have len: "length data = unat (of_be64 (take 8 h) + of_be64 (drop 8 h))" using pd by simp
  have "(word_of_nat (length data) :: u64) = of_be64 (take 8 h) + of_be64 (drop 8 h)"
    unfolding len by simp
  then have "word_of_nat (length data) - of_be64 (take 8 h) = (of_be64 (drop 8 h) :: u64)" by simp
  moreover have "be64 (of_be64 (take 8 h)) = take 8 h" "be64 (of_be64 (drop 8 h)) = drop 8 h"
    using ph by (simp_all add: be64_of_be64)
  ultimately have "frame_bytes (of_be64 (take 8 h)) data = h @ data"
    by (simp add: frame_bytes_def)
  with ph pd len le show ?thesis by (metis append_assoc)
qed

end

context live_stream
begin

lemma fill_loop_enough:
  "alive s \<Longrightarrow> m \<le> length (pending s) \<Longrightarrow>
     \<exists>s'. fill_loop rd s m acc = (s', Inr (acc @ take m (pending s)))
        \<and> pending s' = drop m (pending s) \<and> alive s'"
proof (induction m arbitrary: s acc rule: less_induct)
  case (less m)
  show ?case
  proof (cases "m = 0")
    case True
    with less.prems show ?thesis by (simp add: fill_loop.simps)
  next
    case False
    obtain t b where rd: "rd s m = (t, Inr b)" and t: "alive t"
      using rd_alive [OF less.prems(1)] by blast
    note p = rd_prefix [OF rd]
    have b: "b \<noteq> []" using rd_eof [of s m t] rd False less.prems(2) by auto
    with False have "m - length b < m" by simp
    from less.IH [OF this t, of "acc @ b"] less.prems(2) p b rd False show ?thesis
      by (auto simp: fill_loop.simps [of rd s m])
  qed
qed

lemma fill_enough:
  assumes "alive s" and "pending s = bs @ r"
  shows "\<exists>s'. fill rd (length bs) s = (s', Inr bs) \<and> pending s' = r \<and> alive s'"
  using fill_loop_enough [of s "length bs" "[]"] assms by (simp add: fill_def)

lemma fill_short:
  "alive s \<Longrightarrow> length (pending s) < m \<Longrightarrow>
     \<exists>s'. fill_loop rd s m acc = (s', Inl (IoError UnexpectedEof ''early eof''))"
proof (induction m arbitrary: s acc rule: less_induct)
  case (less m)
  obtain t b where rd: "rd s m = (t, Inr b)" and t: "alive t"
    using rd_alive [OF less.prems(1)] by blast
  note p = rd_prefix [OF rd]
  show ?case
  proof (cases "b = []")
    case True
    with less.prems(2) rd show ?thesis by (simp add: fill_loop.simps [of rd s m])
  next
    case False
    with less.prems(2) have "m - length b < m" by simp
    moreover have "length (pending t) < m - length b" using less.prems(2) p by simp
    ultimately show ?thesis
      using less.IH [of "m - length b" t "acc @ b"] t rd False less.prems(2)
      by (simp add: fill_loop.simps [of rd s m])
  qed
qed

lemma read_frame_ok:
  assumes "alive s" and "pending s = frame_bytes r data @ rest" and "length data \<le> max_frame"
  shows "\<exists>s'. read_frame rd s = (s', Inr data) \<and> pending s' = rest \<and> alive s'"
proof -
  let ?h = "be64 r @ be64 (word_of_nat (length data) - r)"
  have "pending s = ?h @ data @ rest" using assms(2) by (simp add: frame_bytes_def)
  from fill_enough [OF assms(1) this] obtain u
    where u: "fill rd 16 s = (u, Inr ?h)" "pending u = data @ rest" "alive u" by auto
  from fill_enough [OF u(3,2)] obtain v
    where v: "fill rd (length data) u = (v, Inr data)" "pending v = rest" "alive v" by blast
  have "unat (word_of_nat (length data) :: u64) = length data"
    using assms(3) by (simp add: unat_of_nat take_bit_eq_mod max_frame_def)
  with u v assms(3) show ?thesis
    by (simp add: read_frame_def st_bind_Inr [of "fill rd 16" s u ?h])
qed

lemma read_frame_too_large:
  assumes "alive s" and "pending s = frame_bytes r data @ rest"
    and "max_frame < length data" and "length data < 2 ^ 64"
  shows "\<exists>s'. read_frame rd s = (s', Inl (IoError Other ''frame too large''))
           \<and> pending s' = data @ rest"
proof -
  let ?h = "be64 r @ be64 (word_of_nat (length data) - r)"
  have "pending s = ?h @ data @ rest" using assms(2) by (simp add: frame_bytes_def)
  from fill_enough [OF assms(1) this] obtain u
    where u: "fill rd 16 s = (u, Inr ?h)" "pending u = data @ rest" "alive u" by auto
  have "unat (word_of_nat (length data) :: u64) = length data"
    using assms(4) by (simp add: unat_of_nat take_bit_eq_mod)
  with u assms(3) show ?thesis
    by (simp add: read_frame_def st_bind_Inr [of "fill rd 16" s u ?h])
qed

lemma read_frame_truncated:
  assumes "alive s" and "pending s = take k (frame_bytes r data)" and "length data \<le> max_frame"
    and "k < length (frame_bytes r data)"
  shows "\<exists>s'. read_frame rd s = (s', Inl (IoError UnexpectedEof ''early eof''))"
proof (cases "k < 16")
  case True
  then have "length (pending s) < 16" by (simp add: assms(2))
  from fill_short [OF assms(1) this, of "[]"] show ?thesis
    by (auto simp: read_frame_def fill_def st_bind_def)
next
  case False
  let ?h = "be64 r @ be64 (word_of_nat (length data) - r)"
  have "pending s = ?h @ take (k - 16) data"
    using assms(2) False by (simp add: frame_bytes_def)
  from fill_enough [OF assms(1) this] obtain u
    where u: "fill rd 16 s = (u, Inr ?h)" "pending u = take (k - 16) data" "alive u" by auto
  have "unat (word_of_nat (length data) :: u64) = length data"
    using assms(3) by (simp add: unat_of_nat take_bit_eq_mod max_frame_def)
  moreover have "length (pending u) < length data"
    using assms(4) u(2) False by (simp add: frame_bytes_def)
  ultimately show ?thesis using u assms(3) fill_short [OF u(3), of "length data" "[]"]
    by (auto simp: read_frame_def st_bind_Inr [of "fill rd 16" s u ?h] fill_def)
qed

end


section \<open>Writing\<close>

lemma write_frame_bytes:
  assumes "\<And>w bs. wr w bs = (app w bs, Inr ())"
  shows "write_frame wr enc r msg w =
    (app (app (app w (be64 r)) (be64 (word_of_nat (length (enc msg)) - r))) (enc msg), Inr ())"
  by (simp add: write_frame_def Let_def st_bind_def assms)

lemma tcp_write_frame:
  assumes "tw_err w = None"
  shows "write_frame tcp_half_write enc r msg w =
    (w\<lparr>tw_tx := tw_tx w @ frame_bytes r (enc msg)\<rparr>, Inr ())"
  using assms by (simp add: write_frame_def Let_def st_bind_def tcp_half_write_def frame_bytes_def)

text \<open>Several messages, each with its random number, and their reading back.\<close>

fun write_frames ::
    "('w \<Rightarrow> bytes \<Rightarrow> 'w \<times> unit io) \<Rightarrow> ('m \<Rightarrow> bytes) \<Rightarrow> (u64 \<times> 'm) list \<Rightarrow> ('w, unit) op" where
  "write_frames wr enc [] = st_ret ()"
| "write_frames wr enc ((r, msg) # ms) =
     st_bind (write_frame wr enc r msg) (\<lambda>_. write_frames wr enc ms)"

fun read_msgs :: "'s reader \<Rightarrow> (bytes \<Rightarrow> string + 'm) \<Rightarrow> nat \<Rightarrow> ('s, 'm list) op" where
  "read_msgs rd dec 0 = st_ret []"
| "read_msgs rd dec (Suc k) =
     st_bind (read_msg rd dec) (\<lambda>m. st_bind (read_msgs rd dec k) (\<lambda>ms. st_ret (m # ms)))"

definition frames_bytes :: "('m \<Rightarrow> bytes) \<Rightarrow> (u64 \<times> 'm) list \<Rightarrow> bytes" where
  "frames_bytes enc ms = concat (map (\<lambda>(r, m). frame_bytes r (enc m)) ms)"

lemma tcp_write_frames:
  "tw_err w = None \<Longrightarrow>
     write_frames tcp_half_write enc ms w = (w\<lparr>tw_tx := tw_tx w @ frames_bytes enc ms\<rparr>, Inr ())"
  by (induction ms arbitrary: w)
    (auto simp: frames_bytes_def st_bind_def tcp_write_frame split: prod.splits)

context live_stream
begin

lemma read_msg_ok:
  assumes "codec_ok enc dec" and "alive s" and "pending s = frame_bytes r (enc m) @ rest"
    and "length (enc m) \<le> max_frame"
  shows "\<exists>s'. read_msg rd dec s = (s', Inr m) \<and> pending s' = rest \<and> alive s'"
  using read_frame_ok [OF assms(2-4)] assms(1)
  by (auto simp: read_msg_def st_bind_def codec_ok_def)

lemma read_msgs_ok:
  assumes "codec_ok enc dec"
  shows "alive s \<Longrightarrow> pending s = frames_bytes enc ms @ rest
    \<Longrightarrow> (\<forall>(r, m) \<in> set ms. length (enc m) \<le> max_frame)
    \<Longrightarrow> \<exists>s'. read_msgs rd dec (length ms) s = (s', Inr (map snd ms)) \<and> pending s' = rest \<and> alive s'"
proof (induction ms arbitrary: s)
  case Nil
  then show ?case by (simp add: frames_bytes_def)
next
  case (Cons rm ms)
  obtain r m where rm: "rm = (r, m)" by fastforce
  have "pending s = frame_bytes r (enc m) @ frames_bytes enc ms @ rest"
    using Cons.prems(2) by (simp add: rm frames_bytes_def)
  from read_msg_ok [OF assms Cons.prems(1) this] Cons.prems(3) obtain t
    where "read_msg rd dec s = (t, Inr m)" "pending t = frames_bytes enc ms @ rest" "alive t"
    by (auto simp: rm)
  with Cons.IH [of t] Cons.prems(3) show ?case
    by (auto simp: rm st_bind_def)
qed

end

section \<open>Properties\<close>

text \<open>C14: Messages survive the framing: whatever random numbers are chosen, messages written to a
  connection and read at the other end, with the bytes cut into segments anywhere, come back
  unchanged and in order, and what follows them is left in the connection.\<close>

theorem frames_roundtrip:
  assumes "codec_ok enc dec" and "\<forall>(r, m) \<in> set ms. length (enc m) \<le> max_frame"
    and "tw_err w = None" and "tw_tx w = []"
    and "tcp_clean s" and "tcp_pending s = tw_tx (fst (write_frames tcp_half_write enc ms w)) @ rest"
  shows "\<exists>s'. read_msgs tcp_half_read dec (length ms) s = (s', Inr (map snd ms))
           \<and> tcp_pending s' = rest"
  using tcp_half.read_msgs_ok [OF assms(1,5) _ assms(2), of rest] assms(3,4,6)
  by (auto simp: tcp_write_frames)

lemma frames_roundtrip_witness:
  "let f = frames_bytes (\<lambda>m. m) [(7, [5, 6]), (1, [])] in
   \<exists>s'. read_msgs tcp_half_read Inr 2 \<lparr>ts_rx = [Segment (take 10 f), Segment (drop 10 f @ [9])]\<rparr>
      = (s', Inr [[5, 6], []]) \<and> tcp_pending s' = [9]"
proof -
  let ?ms = "[(7, [5, 6]), (1, [])] :: (u64 \<times> bytes) list"
  let ?f = "frames_bytes (\<lambda>m. m) ?ms"
  let ?s = "\<lparr>ts_rx = [Segment (take 10 ?f), Segment (drop 10 ?f @ [9])]\<rparr>"
  let ?w = "\<lparr>tw_tx = [], tw_err = None\<rparr>"
  have ok: "codec_ok (\<lambda>m :: bytes. m) Inr" by (simp add: codec_ok_def)
  have small: "\<forall>(r, m) \<in> set ?ms. length m \<le> max_frame" by (simp add: max_frame_def)
  have "tcp_clean ?s" by (simp add: tcp_clean_def)
  moreover have "tcp_pending ?s = take 10 ?f @ drop 10 ?f @ [9]" by (simp add: tcp_pending_def)
  then have "tcp_pending ?s = ?f @ [9]" by (simp only: append_assoc [symmetric] append_take_drop_id)
  moreover have "tw_tx (fst (write_frames tcp_half_write (\<lambda>m. m) ?ms ?w)) = ?f"
    by (subst tcp_write_frames) simp_all
  ultimately show ?thesis
    using frames_roundtrip [OF ok small, of ?w ?s "[9]"] by (simp add: numeral_2_eq_2 Let_def)
qed

text \<open>C15: A reader never accepts a frame that is cut short or longer than 16 MiB: a truncated frame is
  an \<open>UnexpectedEof\<close> error, a longer one is refused before any of its data is read, and every
  frame it does accept is byte for byte what left the connection.\<close>

theorem read_frame_bounds:
  assumes "tcp_clean s"
  shows "(k < length (frame_bytes r data) \<and> length data \<le> max_frame
            \<and> tcp_pending s = take k (frame_bytes r data) \<longrightarrow>
            (\<exists>s'. read_frame tcp_half_read s = (s', Inl (IoError UnexpectedEof ''early eof''))))
       \<and> (max_frame < length data \<and> length data < 2 ^ 64
            \<and> tcp_pending s = frame_bytes r data @ rest \<longrightarrow>
            (\<exists>s'. read_frame tcp_half_read s = (s', Inl (IoError Other ''frame too large''))
               \<and> tcp_pending s' = data @ rest))
       \<and> (\<forall>s' d. read_frame tcp_half_read s = (s', Inr d) \<longrightarrow>
            (\<exists>r. tcp_pending s = frame_bytes r d @ tcp_pending s') \<and> length d \<le> max_frame)"
  using tcp_half.read_frame_truncated [OF assms] tcp_half.read_frame_too_large [OF assms]
    tcp_half.read_frame_prefix by blast

lemma read_frame_bounds_witness:
  "\<exists>s'. read_frame tcp_half_read \<lparr>ts_rx = [Segment (take 17 (frame_bytes 3 [1, 2]))]\<rparr>
     = (s', Inl (IoError UnexpectedEof ''early eof''))"
proof -
  let ?s = "\<lparr>ts_rx = [Segment (take 17 (frame_bytes 3 [1, 2]))]\<rparr>"
  have "tcp_clean ?s" by (simp add: tcp_clean_def)
  from read_frame_bounds [OF this, of 17 3 "[1, 2]" "[]"] show ?thesis
    by (simp add: tcp_pending_def frame_bytes_def max_frame_def)
qed

end
