(* ===== verification/Demo_Codec.thy ===== *)
theory Demo_Codec
  imports Proto Tcp_Frame
begin

text \<open>
  A concrete encoding of the messages, to show that the hypothesis \<open>codec_ok\<close>, which stands for the
  generated protobuf code, can hold for the message types of the model: byte strings are escaped
  and terminated, options are tagged, numbers are big-endian.  It is used in concrete instances of
  properties only.
\<close>

type_synonym 'a parse = "bytes \<Rightarrow> ('a \<times> bytes) option"

definition reads_back :: "('a \<Rightarrow> bytes) \<Rightarrow> 'a parse \<Rightarrow> bool" where
  "reads_back e p \<longleftrightarrow> (\<forall>x r. p (e x @ r) = Some (x, r))"

fun put_bytes :: "bytes \<Rightarrow> bytes" where
  "put_bytes [] = [0]"
| "put_bytes (b # bs) = 1 # b # put_bytes bs"

lemma length_put_bytes [simp]: "length (put_bytes bs) = 2 * length bs + 1"
  by (induction bs) simp_all

fun get_bytes :: "bytes parse" where
  "get_bytes [] = None"
| "get_bytes [t] = (if t = 0 then Some ([], []) else None)"
| "get_bytes (t # b # r) =
     (if t = 0 then Some ([], b # r)
      else case get_bytes r of None \<Rightarrow> None | Some (bs, r') \<Rightarrow> Some (b # bs, r'))"

lemma get_put_bytes [simp]: "get_bytes (put_bytes bs @ r) = Some (bs, r)"
proof (induction bs)
  case Nil
  then show ?case by (cases r) simp_all
qed simp

definition put_str :: "string \<Rightarrow> bytes" where
  "put_str s = put_bytes (bytes_of_str s)"

definition get_str :: "string parse" where
  "get_str b = (case get_bytes b of None \<Rightarrow> None | Some (x, r) \<Rightarrow> Some (str_of_bytes x, r))"

lemma get_put_str [simp]: "get_str (put_str s @ r) = Some (s, r)"
  by (simp add: get_str_def put_str_def)

definition put_u32 :: "u32 \<Rightarrow> bytes" where
  "put_u32 w = be_enc 4 (unat w)"

definition get_u32 :: "u32 parse" where
  "get_u32 b = Some (word_of_nat (be_dec (take 4 b)), drop 4 b)"

lemma get_put_u32 [simp]: "get_u32 (put_u32 w @ r) = Some (w, r)"
  by (simp add: get_u32_def put_u32_def be_dec_enc)

fun put_opt :: "('a \<Rightarrow> bytes) \<Rightarrow> 'a option \<Rightarrow> bytes" where
  "put_opt e None = [0]"
| "put_opt e (Some x) = 1 # e x"

fun get_opt :: "'a parse \<Rightarrow> 'a option parse" where
  "get_opt p [] = None"
| "get_opt p (t # r) = (if t = 0 then Some (None, r)
     else case p r of None \<Rightarrow> None | Some (x, r') \<Rightarrow> Some (Some x, r'))"

lemma get_put_opt:
  "(\<And>x r. p (e x @ r) = Some (x, r)) \<Longrightarrow> get_opt p (put_opt e x @ r) = Some (x, r)"
  by (cases x) simp_all

lemmas get_put_opts [simp] = get_put_opt [of get_bytes put_bytes, OF get_put_bytes]
  get_put_opt [of get_str put_str, OF get_put_str] get_put_opt [of get_u32 put_u32, OF get_put_u32]

definition bind_parse :: "('a \<times> bytes) option \<Rightarrow> ('a \<Rightarrow> bytes \<Rightarrow> string + 'b) \<Rightarrow> string + 'b" where
  "bind_parse r k = (case r of None \<Rightarrow> Inl ''invalid message'' | Some (x, b) \<Rightarrow> k x b)"

lemma bind_parse_Some [simp]: "bind_parse (Some (x, b)) k = k x b"
  by (simp add: bind_parse_def)

definition enc_stream_req :: "stream_req \<Rightarrow> bytes" where
  "enc_stream_req q = put_str (sq_auth q) @ put_opt put_bytes (sq_payload q)
     @ put_opt put_str (sq_dst_addr q) @ put_opt put_u32 (sq_dst_port q)"

definition dec_stream_req :: "bytes \<Rightarrow> string + stream_req" where
  "dec_stream_req b =
     bind_parse (get_str b) (\<lambda>auth b. bind_parse (get_opt get_bytes b) (\<lambda>payload b.
     bind_parse (get_opt get_str b) (\<lambda>addr b. bind_parse (get_opt get_u32 b) (\<lambda>port b.
       Inr \<lparr>sq_auth = auth, sq_payload = payload, sq_dst_addr = addr, sq_dst_port = port\<rparr>))))"

lemma codec_stream_req: "codec_ok enc_stream_req dec_stream_req"
  unfolding codec_ok_def
proof
  fix q
  have "enc_stream_req q = put_str (sq_auth q) @ put_opt put_bytes (sq_payload q)
     @ put_opt put_str (sq_dst_addr q) @ put_opt put_u32 (sq_dst_port q) @ []"
    by (simp add: enc_stream_req_def)
  then show "dec_stream_req (enc_stream_req q) = Inr q"
    by (simp add: dec_stream_req_def del: append_Nil2)
qed

definition enc_stream_res :: "stream_res \<Rightarrow> bytes" where
  "enc_stream_res q = sr_payload q"

definition dec_stream_res :: "bytes \<Rightarrow> string + stream_res" where
  "dec_stream_res b = Inr \<lparr>sr_payload = b\<rparr>"

lemma codec_stream_res: "codec_ok enc_stream_res dec_stream_res"
  by (simp add: codec_ok_def enc_stream_res_def dec_stream_res_def)

definition enc_udp_req :: "udp_req \<Rightarrow> bytes" where
  "enc_udp_req q = put_str (uq_auth q) @ put_opt put_bytes (uq_payload q)
     @ put_opt put_str (uq_dst_addr q) @ put_opt put_u32 (uq_dst_port q)
     @ put_opt put_str (uq_src_addr q) @ put_opt put_u32 (uq_src_port q)"

definition dec_udp_req :: "bytes \<Rightarrow> string + udp_req" where
  "dec_udp_req b =
     bind_parse (get_str b) (\<lambda>auth b. bind_parse (get_opt get_bytes b) (\<lambda>payload b.
     bind_parse (get_opt get_str b) (\<lambda>dst b. bind_parse (get_opt get_u32 b) (\<lambda>dport b.
     bind_parse (get_opt get_str b) (\<lambda>src b. bind_parse (get_opt get_u32 b) (\<lambda>sport b.
       Inr \<lparr>uq_auth = auth, uq_payload = payload, uq_dst_addr = dst, uq_dst_port = dport,
            uq_src_addr = src, uq_src_port = sport\<rparr>))))))"

lemma codec_udp_req: "codec_ok enc_udp_req dec_udp_req"
  unfolding codec_ok_def
proof
  fix q
  have "enc_udp_req q = put_str (uq_auth q) @ put_opt put_bytes (uq_payload q)
     @ put_opt put_str (uq_dst_addr q) @ put_opt put_u32 (uq_dst_port q)
     @ put_opt put_str (uq_src_addr q) @ put_opt put_u32 (uq_src_port q) @ []"
    by (simp add: enc_udp_req_def)
  then show "dec_udp_req (enc_udp_req q) = Inr q"
    by (simp add: dec_udp_req_def del: append_Nil2)
qed

definition enc_udp_res :: "udp_res \<Rightarrow> bytes" where
  "enc_udp_res q = put_bytes (us_payload q)
     @ put_opt put_str (us_dst_addr q) @ put_opt put_u32 (us_dst_port q)
     @ put_opt put_str (us_src_addr q) @ put_opt put_u32 (us_src_port q)"

definition dec_udp_res :: "bytes \<Rightarrow> string + udp_res" where
  "dec_udp_res b =
     bind_parse (get_bytes b) (\<lambda>payload b.
     bind_parse (get_opt get_str b) (\<lambda>dst b. bind_parse (get_opt get_u32 b) (\<lambda>dport b.
     bind_parse (get_opt get_str b) (\<lambda>src b. bind_parse (get_opt get_u32 b) (\<lambda>sport b.
       Inr \<lparr>us_payload = payload, us_dst_addr = dst, us_dst_port = dport,
            us_src_addr = src, us_src_port = sport\<rparr>)))))"

lemma codec_udp_res: "codec_ok enc_udp_res dec_udp_res"
  unfolding codec_ok_def
proof
  fix q
  have "enc_udp_res q = put_bytes (us_payload q)
     @ put_opt put_str (us_dst_addr q) @ put_opt put_u32 (us_dst_port q)
     @ put_opt put_str (us_src_addr q) @ put_opt put_u32 (us_src_port q) @ []"
    by (simp add: enc_udp_res_def)
  then show "dec_udp_res (enc_udp_res q) = Inr q"
    by (simp add: dec_udp_res_def del: append_Nil2)
qed

end
