(* ===== verification/Crypto.thy ===== *)
theory Crypto
  imports Rust_Std
begin

text \<open>
  \<open>src/util/crypto.rs\<close>: encryption of payloads and of text fields with a password.  SHA-256,
  ChaCha20-Poly1305 and base64 are library code and the arguments of the definitions, gathered in
  the record \<open>crypto\<close>; an error they report carries its text.  The nonce, drawn at random by the
  code, is an argument.  \<open>crypto_ok\<close> is the documented behaviour the round trips rely on.
\<close>

record 'k crypto =
  cr_sha256 :: "bytes \<Rightarrow> 'k"
  cr_seal :: "'k \<Rightarrow> bytes \<Rightarrow> bytes \<Rightarrow> string + bytes"
  cr_open :: "'k \<Rightarrow> bytes \<Rightarrow> bytes \<Rightarrow> string + bytes"
  cr_b64 :: "bytes \<Rightarrow> string"
  cr_unb64 :: "string \<Rightarrow> string + bytes"
  cr_utf8_err :: "bytes \<Rightarrow> string"

definition nonce_len :: nat where "nonce_len = 12"

definition derive_key :: "'k crypto \<Rightarrow> string \<Rightarrow> 'k" where
  "derive_key cr password = cr_sha256 cr (bytes_of_str password)"

definition encrypt_bytes :: "'k crypto \<Rightarrow> bytes \<Rightarrow> bytes \<Rightarrow> string \<Rightarrow> bytes io" where
  "encrypt_bytes cr nonce plaintext password =
     (let key = derive_key cr password in
      case cr_seal cr key nonce plaintext of
        Inl e \<Rightarrow> Inl (IoError Other (''encrypt error: '' @ e))
      | Inr ciphertext \<Rightarrow> Inr (nonce @ ciphertext))"

definition decrypt_bytes :: "'k crypto \<Rightarrow> bytes \<Rightarrow> string \<Rightarrow> bytes io" where
  "decrypt_bytes cr combined password =
     (let key = derive_key cr password in
      if length combined < nonce_len then Inl (IoError Other ''ciphertext too short'')
      else
        case cr_open cr key (take nonce_len combined) (drop nonce_len combined) of
          Inl e \<Rightarrow> Inl (IoError Other (''decrypt error: '' @ e))
        | Inr plaintext \<Rightarrow> Inr plaintext)"

definition encrypt_field :: "'k crypto \<Rightarrow> bytes \<Rightarrow> string \<Rightarrow> string \<Rightarrow> string io" where
  "encrypt_field cr nonce plaintext password =
     io_bind (encrypt_bytes cr nonce (bytes_of_str plaintext) password) (\<lambda>combined.
       Inr (cr_b64 cr combined))"

definition decrypt_field :: "'k crypto \<Rightarrow> string \<Rightarrow> string \<Rightarrow> string io" where
  "decrypt_field cr ciphertext_b64 password =
     (case cr_unb64 cr ciphertext_b64 of
        Inl e \<Rightarrow> Inl (IoError Other (''base64 decode error: '' @ e))
      | Inr combined \<Rightarrow>
          io_bind (decrypt_bytes cr combined password) (\<lambda>plaintext.
            case from_utf8 plaintext of
              Some s \<Rightarrow> Inr s
            | None \<Rightarrow> Inl (IoError Other (''utf8 error: '' @ cr_utf8_err cr plaintext))))"

text \<open>
  What the libraries document: sealing a plaintext under the length limit of the cipher succeeds,
  opening with the same key and nonce gives it back, and base64 decodes what it encoded.
\<close>

definition crypto_ok :: "'k crypto \<Rightarrow> bool" where
  "crypto_ok cr \<longleftrightarrow>
     (\<forall>k n p. length n = nonce_len \<and> length p < 2 ^ 32 \<longrightarrow>
        (\<exists>c. cr_seal cr k n p = Inr c \<and> cr_open cr k n c = Inr p))
   \<and> (\<forall>b. cr_unb64 cr (cr_b64 cr b) = Inr b)"

lemma encrypt_bytes_ok:
  assumes "crypto_ok cr" and "length nonce = nonce_len" and "length p < 2 ^ 32"
  shows "\<exists>c. encrypt_bytes cr nonce p pw = Inr c \<and> decrypt_bytes cr c pw = Inr p \<and> c \<noteq> []"
proof -
  obtain c where "cr_seal cr (derive_key cr pw) nonce p = Inr c"
      "cr_open cr (derive_key cr pw) nonce c = Inr p"
    using assms unfolding crypto_ok_def by blast
  with assms(2) show ?thesis
    by (intro exI [of _ "nonce @ c"])
      (auto simp: encrypt_bytes_def decrypt_bytes_def Let_def nonce_len_def)
qed

lemma encrypt_field_ok:
  assumes "crypto_ok cr" and "length nonce = nonce_len" and "length s < 2 ^ 32"
    and "utf8_ok (bytes_of_str s)"
  shows "\<exists>c. encrypt_field cr nonce s pw = Inr c \<and> decrypt_field cr c pw = Inr s"
proof -
  from encrypt_bytes_ok [OF assms(1,2), of "bytes_of_str s" pw] assms(3) obtain c
    where "encrypt_bytes cr nonce (bytes_of_str s) pw = Inr c"
      "decrypt_bytes cr c pw = Inr (bytes_of_str s)" by auto
  with assms(1,4) show ?thesis
    by (auto simp: encrypt_field_def decrypt_field_def crypto_ok_def from_utf8_def)
qed

text \<open>A toy instance, for concrete instances of properties: the key is a sum, sealing appends it.\<close>

definition toy_crypto :: "u8 crypto" where
  "toy_crypto = \<lparr>cr_sha256 = (\<lambda>p. sum_list p), cr_seal = (\<lambda>k n p. Inr (k # p)),
     cr_open = (\<lambda>k n c. case c of [] \<Rightarrow> Inl ''aead::Error'' | t # p \<Rightarrow>
        if t = k then Inr p else Inl ''aead::Error''),
     cr_b64 = str_of_bytes, cr_unb64 = (\<lambda>s. Inr (bytes_of_str s)), cr_utf8_err = (\<lambda>_. '''')\<rparr>"

lemma toy_crypto_ok [simp]: "crypto_ok toy_crypto"
  by (auto simp: crypto_ok_def toy_crypto_def)

section \<open>Properties\<close>

text \<open>A text field encrypted with a password and any nonce decrypts to itself with the same
  password, and so does a byte payload; a combined text shorter than a nonce is refused without
  reaching the cipher, and decryption never panics.\<close>

theorem crypto_roundtrip:
  assumes "crypto_ok cr" and "length nonce = nonce_len"
    and "length p < 2 ^ 32" and "length s < 2 ^ 32" and "utf8_ok (bytes_of_str s)"
  shows "(\<exists>c. encrypt_bytes cr nonce p pw = Inr c \<and> decrypt_bytes cr c pw = Inr p)
       \<and> (\<exists>c. encrypt_field cr nonce s pw = Inr c \<and> decrypt_field cr c pw = Inr s)
       \<and> (length b < nonce_len \<longrightarrow> decrypt_bytes cr b pw = Inl (IoError Other ''ciphertext too short''))
       \<and> \<not> is_panic (decrypt_field cr t pw)"
proof -
  have "\<not> is_panic (decrypt_field cr t pw)"
    by (auto simp: decrypt_field_def decrypt_bytes_def Let_def io_bind_def
        split: sum.splits option.splits)
  moreover have "length b < nonce_len \<Longrightarrow>
      decrypt_bytes cr b pw = Inl (IoError Other ''ciphertext too short'')"
    by (simp add: decrypt_bytes_def Let_def)
  ultimately show ?thesis
    using encrypt_bytes_ok [OF assms(1-3), of pw] encrypt_field_ok [OF assms(1,2,4,5), of pw]
    by blast
qed

lemma crypto_roundtrip_witness:
  "\<exists>c. encrypt_field toy_crypto (replicate 12 1) ''tok'' ''pw'' = Inr c
     \<and> decrypt_field toy_crypto c ''pw'' = Inr ''tok''"
proof -
  have "utf8_ok (bytes_of_str ''tok'')" by code_simp
  from crypto_roundtrip [OF toy_crypto_ok _ _ _ this, of "replicate 12 1" "[]" "''pw''" "[]" "[]"]
  show ?thesis by (simp add: nonce_len_def)
qed

end
