(* ===== verification/Block.thy ===== *)
theory Block
  imports Prelude
begin

text \<open>
  \<open>src/block.rs\<close>: the back-pressure buffer.  Every relay direction owns a \<open>DataBlock\<close>, a queue
  between one producer task and one consumer task; all of them share one \<open>BlockManager\<close>, a counter
  of taken blocks with a limit.

  The operations are split at every access to shared state (a lock of the queue, an atomic
  operation on the counter, a notification), and the tasks of all blocks interleave at those
  points: \<open>prod_step\<close> runs one such action of \<open>provide\<close>, \<open>cons_step\<close> one of \<open>consume\<close>, and
  \<open>pool_step\<close> lets any task of any block move.  A task can be cancelled where it awaits.  The
  atomics are interleaved, that is, a load sees the last store.

  \<open>tokio::sync::Notify\<close> is not part of the repository: its operations are the argument \<open>ops\<close>, and
  only the properties on wake-ups use a hypothesis about it, \<open>notify_laws\<close>.
\<close>

section \<open>Notifications\<close>

text \<open>\<open>notify_one\<close>, polling the \<open>notified()\<close> future of a waiter, and dropping that future.\<close>

record 'n notify_ops =
  n_new :: 'n
  n_one :: "'n \<Rightarrow> 'n"
  n_poll :: "nat \<Rightarrow> 'n \<Rightarrow> 'n \<times> bool"
  n_drop :: "nat \<Rightarrow> 'n \<Rightarrow> 'n"

section \<open>The block manager\<close>

record 'n block_manager =
  bm_limit :: u64
  bm_taken :: u64
  bm_count :: u64
  bm_notify :: 'n

definition bm_new :: "'n notify_ops \<Rightarrow> u64 \<Rightarrow> 'n block_manager" where
  "bm_new ops block_limit =
     \<lparr>bm_limit = block_limit, bm_taken = 0, bm_count = 0, bm_notify = n_new ops\<rparr>"

definition can_take :: "'n block_manager \<Rightarrow> bool" where
  "can_take m \<longleftrightarrow> bm_taken m < bm_limit m"

definition bm_take :: "'n block_manager \<Rightarrow> 'n block_manager" where
  "bm_take m = m\<lparr>bm_taken := bm_taken m + 1, bm_count := bm_count m + 1\<rparr>"

definition release :: "'n notify_ops \<Rightarrow> 'n block_manager \<Rightarrow> 'n block_manager" where
  "release ops m = m\<lparr>bm_taken := bm_taken m - 1, bm_notify := n_one ops (bm_notify m)\<rparr>"

lemma manager_sel [simp]:
  "bm_limit (bm_take m) = bm_limit m" "bm_taken (bm_take m) = bm_taken m + 1"
  "bm_limit (release ops m) = bm_limit m" "bm_taken (release ops m) = bm_taken m - 1"
  by (simp_all add: bm_take_def release_def)

section \<open>The data block and its two tasks\<close>

record 'n data_block =
  db_data :: "bytes list"
  db_provide_notify :: 'n
  db_consume_notify :: 'n

definition db_new :: "'n notify_ops \<Rightarrow> 'n data_block" where
  "db_new ops = \<lparr>db_data = [], db_provide_notify = n_new ops, db_consume_notify = n_new ops\<rparr>"

text \<open>
  Where the producer is in \<open>provide\<close> and \<open>inner_provide\<close>: not inside, at the test of the queue, at
  the test of the limit, about to take a block, about to push, about to notify, or awaiting in
  the \<open>select!\<close> of the loop.
\<close>

datatype prod_pc =
  PIdle | PTry bytes | PCheck bytes | PTake bytes | PPush bytes | PNotify | PWait bytes

text \<open>
  Where the consumer is in \<open>consume\<close>: not inside, at the first test, awaiting, at the test after a
  wake-up, about to pop, about to release, about to notify with the popped data, or stopped by
  the \<open>unwrap\<close> of an empty pop.
\<close>

datatype cons_pc =
  CIdle | CCheck | CWait | CRecheck | CPop | CRelease bytes | CNotify bytes | CPanic

text \<open>
  A slot is a block with its tasks.  \<open>sl_in\<close> and \<open>sl_out\<close> record the pushes and the pops so far;
  \<open>sl_drop\<close> is the number of releases \<open>drop\<close> still has to make once the block is being dropped.
\<close>

record 'n slot =
  sl_block :: "'n data_block"
  sl_prod :: prod_pc
  sl_cons :: cons_pc
  sl_in :: "bytes list"
  sl_out :: "bytes list"
  sl_drop :: "nat option"

definition slot_new :: "'n notify_ops \<Rightarrow> 'n slot" where
  "slot_new ops = \<lparr>sl_block = db_new ops, sl_prod = PIdle, sl_cons = CIdle, sl_in = [], sl_out = [],
     sl_drop = None\<rparr>"

section \<open>\<open>provide\<close>\<close>

text \<open>
  One poll of the \<open>select!\<close> in \<open>provide\<close>, which polls its branches in either order; when one is
  ready both \<open>notified()\<close> futures are dropped.
\<close>

definition provide_select ::
    "'n notify_ops \<Rightarrow> nat \<Rightarrow> bool \<Rightarrow> 'n block_manager \<Rightarrow> 'n data_block
      \<Rightarrow> 'n block_manager \<times> 'n data_block \<times> bool" where
  "provide_select ops i consume_first m b =
     (let (cn, r1) = n_poll ops i (db_consume_notify b);
          (mn, r2) = n_poll ops i (bm_notify m);
          done = (\<lambda>mn cn. (m\<lparr>bm_notify := n_drop ops i mn\<rparr>,
                           b\<lparr>db_consume_notify := n_drop ops i cn\<rparr>, True))
      in if consume_first then
           if r1 then done (bm_notify m) cn
           else if r2 then done mn cn
           else (m\<lparr>bm_notify := mn\<rparr>, b\<lparr>db_consume_notify := cn\<rparr>, False)
         else
           if r2 then done mn (db_consume_notify b)
           else if r1 then done mn cn
           else (m\<lparr>bm_notify := mn\<rparr>, b\<lparr>db_consume_notify := cn\<rparr>, False))"

definition push_back :: "bytes \<Rightarrow> 'n data_block \<Rightarrow> 'n data_block" where
  "push_back d b = b\<lparr>db_data := db_data b @ [d]\<rparr>"

text \<open>The next action of the producer of slot \<open>i\<close>; none when it is not inside \<open>provide\<close>.\<close>

definition prod_step ::
    "'n notify_ops \<Rightarrow> nat \<Rightarrow> bool \<Rightarrow> 'n block_manager \<Rightarrow> 'n slot
      \<Rightarrow> ('n block_manager \<times> 'n slot) option" where
  "prod_step ops i ord m s =
     (let b = sl_block s in
      case sl_prod s of
        PIdle \<Rightarrow> None
      | PTry d \<Rightarrow> Some (m, s\<lparr>sl_prod := (if db_data b = [] then PTake d else PCheck d)\<rparr>)
      | PCheck d \<Rightarrow> Some (m, s\<lparr>sl_prod := (if can_take m then PTake d else PWait d)\<rparr>)
      | PTake d \<Rightarrow> Some (bm_take m, s\<lparr>sl_prod := PPush d\<rparr>)
      | PPush d \<Rightarrow>
          Some (m, s\<lparr>sl_block := push_back d b, sl_prod := PNotify, sl_in := sl_in s @ [d]\<rparr>)
      | PNotify \<Rightarrow>
          Some (m, s\<lparr>sl_block := b\<lparr>db_provide_notify := n_one ops (db_provide_notify b)\<rparr>,
                     sl_prod := PIdle\<rparr>)
      | PWait d \<Rightarrow>
          (let (m', b', ready) = provide_select ops i ord m b in
           Some (m', s\<lparr>sl_block := b', sl_prod := (if ready then PTry d else PWait d)\<rparr>)))"

section \<open>\<open>consume\<close>\<close>

definition pop_front :: "'n data_block \<Rightarrow> ('n data_block \<times> bytes) option" where
  "pop_front b = (case db_data b of [] \<Rightarrow> None | d # q \<Rightarrow> Some (b\<lparr>db_data := q\<rparr>, d))"

definition cons_step ::
    "'n notify_ops \<Rightarrow> nat \<Rightarrow> 'n block_manager \<Rightarrow> 'n slot \<Rightarrow> ('n block_manager \<times> 'n slot) option" where
  "cons_step ops i m s =
     (let b = sl_block s in
      case sl_cons s of
        CIdle \<Rightarrow> None
      | CCheck \<Rightarrow> Some (m, s\<lparr>sl_cons := (if db_data b = [] then CWait else CPop)\<rparr>)
      | CWait \<Rightarrow>
          (let (pn, ready) = n_poll ops i (db_provide_notify b) in
           Some (m, s\<lparr>sl_block := b\<lparr>db_provide_notify := pn\<rparr>,
                      sl_cons := (if ready then CRecheck else CWait)\<rparr>))
      | CRecheck \<Rightarrow> Some (m, s\<lparr>sl_cons := (if db_data b = [] then CWait else CPop)\<rparr>)
      | CPop \<Rightarrow>
          (case pop_front b of
             None \<Rightarrow> Some (m, s\<lparr>sl_cons := CPanic\<rparr>)
           | Some (b', d) \<Rightarrow>
               Some (m, s\<lparr>sl_block := b', sl_cons := CRelease d, sl_out := sl_out s @ [d]\<rparr>))
      | CRelease d \<Rightarrow> Some (release ops m, s\<lparr>sl_cons := CNotify d\<rparr>)
      | CNotify d \<Rightarrow>
          Some (m, s\<lparr>sl_block := b\<lparr>db_consume_notify := n_one ops (db_consume_notify b)\<rparr>,
                     sl_cons := CIdle\<rparr>)
      | CPanic \<Rightarrow> None)"

section \<open>All tasks of all blocks\<close>

record 'n pool =
  pl_manager :: "'n block_manager"
  pl_slots :: "nat \<rightharpoonup> 'n slot"

definition pool_new :: "'n notify_ops \<Rightarrow> u64 \<Rightarrow> 'n pool" where
  "pool_new ops limit = \<lparr>pl_manager = bm_new ops limit, pl_slots = Map.empty\<rparr>"

definition put_slot :: "'n pool \<Rightarrow> nat \<Rightarrow> 'n block_manager \<Rightarrow> 'n slot \<Rightarrow> 'n pool" where
  "put_slot p i m s = \<lparr>pl_manager = m, pl_slots = (pl_slots p)(i \<mapsto> s)\<rparr>"

text \<open>
  \<open>n\<close> bounds the number of blocks alive at a time.  A task is cancelled only where it awaits; the
  futures it awaited are then dropped.  A block is dropped once both tasks have let go of it, and
  \<open>drop\<close> releases one by one the entries that remain.
\<close>

inductive pool_step :: "'n notify_ops \<Rightarrow> nat \<Rightarrow> 'n pool \<Rightarrow> 'n pool \<Rightarrow> bool"
  for ops :: "'n notify_ops" and n :: nat where
  step_new: "pl_slots p i = None \<Longrightarrow> card (dom (pl_slots p)) < n \<Longrightarrow>
     pool_step ops n p (put_slot p i (pl_manager p) (slot_new ops))"
| step_provide: "pl_slots p i = Some s \<Longrightarrow> sl_drop s = None \<Longrightarrow> sl_prod s = PIdle \<Longrightarrow>
     pool_step ops n p (put_slot p i (pl_manager p) (s\<lparr>sl_prod := PTry d\<rparr>))"
| step_prod: "pl_slots p i = Some s \<Longrightarrow> prod_step ops i ord (pl_manager p) s = Some (m', s') \<Longrightarrow>
     pool_step ops n p (put_slot p i m' s')"
| step_cancel_provide: "pl_slots p i = Some s \<Longrightarrow> sl_prod s = PWait d \<Longrightarrow>
     pool_step ops n p (put_slot p i
       ((pl_manager p)\<lparr>bm_notify := n_drop ops i (bm_notify (pl_manager p))\<rparr>)
       (s\<lparr>sl_block := (sl_block s)\<lparr>db_consume_notify :=
             n_drop ops i (db_consume_notify (sl_block s))\<rparr>, sl_prod := PIdle\<rparr>))"
| step_consume: "pl_slots p i = Some s \<Longrightarrow> sl_drop s = None \<Longrightarrow> sl_cons s = CIdle \<Longrightarrow>
     pool_step ops n p (put_slot p i (pl_manager p) (s\<lparr>sl_cons := CCheck\<rparr>))"
| step_cons: "pl_slots p i = Some s \<Longrightarrow> cons_step ops i (pl_manager p) s = Some (m', s') \<Longrightarrow>
     pool_step ops n p (put_slot p i m' s')"
| step_cancel_consume: "pl_slots p i = Some s \<Longrightarrow> sl_cons s = CWait \<Longrightarrow>
     pool_step ops n p (put_slot p i (pl_manager p)
       (s\<lparr>sl_block := (sl_block s)\<lparr>db_provide_notify :=
             n_drop ops i (db_provide_notify (sl_block s))\<rparr>, sl_cons := CIdle\<rparr>))"
| step_drop: "pl_slots p i = Some s \<Longrightarrow> sl_drop s = None \<Longrightarrow> sl_prod s = PIdle \<Longrightarrow>
     sl_cons s = CIdle \<Longrightarrow>
     pool_step ops n p (put_slot p i (pl_manager p)
       (s\<lparr>sl_drop := Some (length (db_data (sl_block s)))\<rparr>))"
| step_release: "pl_slots p i = Some s \<Longrightarrow> sl_drop s = Some (Suc k) \<Longrightarrow>
     pool_step ops n p (put_slot p i (release ops (pl_manager p)) (s\<lparr>sl_drop := Some k\<rparr>))"
| step_gone: "pl_slots p i = Some s \<Longrightarrow> sl_drop s = Some 0 \<Longrightarrow>
     pool_step ops n p (p\<lparr>pl_slots := (pl_slots p)(i := None)\<rparr>)"

inductive pool_reach :: "'n notify_ops \<Rightarrow> nat \<Rightarrow> u64 \<Rightarrow> 'n pool \<Rightarrow> bool"
  for ops :: "'n notify_ops" and n :: nat and limit :: u64 where
  reach_new: "pool_reach ops n limit (pool_new ops limit)"
| reach_step: "pool_reach ops n limit p \<Longrightarrow> pool_step ops n p p' \<Longrightarrow> pool_reach ops n limit p'"


section \<open>Accounting\<close>

text \<open>
  The blocks a slot holds (queued, taken but not pushed, popped but not released), the blocks it
  is about to take, and the excess over the limit it may cause: one block for a queue that is or
  will be non-empty, and one for a pop that is not released yet.
\<close>

fun prod_held :: "prod_pc \<Rightarrow> nat" where
  "prod_held (PPush _) = 1" | "prod_held _ = 0"

fun prod_reserve :: "prod_pc \<Rightarrow> nat" where
  "prod_reserve (PTake _) = 1" | "prod_reserve _ = 0"

fun cons_held :: "cons_pc \<Rightarrow> nat" where
  "cons_held (CRelease _) = 1" | "cons_held _ = 0"

definition held :: "'n slot \<Rightarrow> nat" where
  "held s = (case sl_drop s of
      Some k \<Rightarrow> k
    | None \<Rightarrow> length (db_data (sl_block s)) + prod_held (sl_prod s) + cons_held (sl_cons s))"

definition reserve :: "'n slot \<Rightarrow> nat" where
  "reserve s = prod_reserve (sl_prod s)"

definition slack :: "'n slot \<Rightarrow> nat" where
  "slack s = (case sl_drop s of
      Some k \<Rightarrow> (if k = 0 then 0 else 1)
    | None \<Rightarrow> (if db_data (sl_block s) \<noteq> [] then 1
               else prod_held (sl_prod s) + prod_reserve (sl_prod s)) + cons_held (sl_cons s))"

definition slot_inv :: "'n slot \<Rightarrow> bool" where
  "slot_inv s \<longleftrightarrow> sl_in s = sl_out s @ db_data (sl_block s)
     \<and> (sl_cons s = CPop \<longrightarrow> db_data (sl_block s) \<noteq> []) \<and> sl_cons s \<noteq> CPanic
     \<and> (sl_drop s \<noteq> None \<longrightarrow> sl_prod s = PIdle \<and> sl_cons s = CIdle
          \<and> the (sl_drop s) \<le> length (db_data (sl_block s)))"

lemma slot_inv_new [simp]: "slot_inv (slot_new ops)"
  by (simp add: slot_inv_def slot_new_def db_new_def)

lemma reserve_le_slack: "slot_inv s \<Longrightarrow> reserve s \<le> slack s"
  by (cases "sl_prod s") (auto simp: reserve_def slack_def slot_inv_def split: option.splits)

lemmas counts = held_def reserve_def slack_def

text \<open>A step of one slot is accounted when the counter moves with the blocks held, and either the
  excess does not grow or the limit was tested.\<close>

definition accounted ::
    "'n block_manager \<Rightarrow> 'n slot \<Rightarrow> 'n block_manager \<Rightarrow> 'n slot \<Rightarrow> bool" where
  "accounted m s m' s' \<longleftrightarrow>
     bm_limit m' = bm_limit m
   \<and> bm_taken m' + word_of_nat (held s) = bm_taken m + word_of_nat (held s')
   \<and> (held s' + reserve s' + slack s \<le> held s + reserve s + slack s'
       \<or> can_take m \<and> held s' = held s)"

lemma provide_select_frame:
  assumes "provide_select ops i ord m b = (m', b', r)"
  shows "bm_limit m' = bm_limit m \<and> bm_taken m' = bm_taken m \<and> db_data b' = db_data b
       \<and> db_provide_notify b' = db_provide_notify b"
  using assms by (auto simp: provide_select_def Let_def split: prod.splits if_splits)

lemma prod_step_ok:
  assumes "prod_step ops i ord m s = Some (m', s')" and "slot_inv s"
  shows "slot_inv s' \<and> accounted m s m' s'"
proof -
  have act: "sl_prod s \<noteq> PIdle" using assms(1) by (auto simp: prod_step_def Let_def)
  with assms(2) have nd: "sl_drop s = None" by (auto simp: slot_inv_def)
  note defs = slot_inv_def accounted_def counts nd
  show ?thesis
  proof (cases "sl_prod s")
    case (PWait d)
    with assms(1) obtain b r where sel: "provide_select ops i ord m (sl_block s) = (m', b, r)"
      and "s' = s\<lparr>sl_block := b, sl_prod := (if r then PTry d else PWait d)\<rparr>"
      by (auto simp: prod_step_def Let_def split: prod.splits)
    with assms(2) PWait provide_select_frame [OF sel] show ?thesis by (auto simp: defs)
  next
    case (PCheck d)
    with assms show ?thesis
      by (cases "can_take m") (auto simp: prod_step_def Let_def defs)
  next
    case (PPush d)
    with assms show ?thesis by (auto simp: prod_step_def Let_def defs push_back_def)
  qed (use assms act in \<open>auto simp: prod_step_def Let_def defs\<close>)
qed

lemma cons_step_ok:
  assumes "cons_step ops i m s = Some (m', s')" and "slot_inv s"
  shows "slot_inv s' \<and> accounted m s m' s'"
proof -
  have act: "sl_cons s \<noteq> CIdle" using assms(1) by (auto simp: cons_step_def Let_def)
  with assms(2) have nd: "sl_drop s = None" by (auto simp: slot_inv_def)
  note defs = slot_inv_def accounted_def counts nd
  show ?thesis
  proof (cases "sl_cons s")
    case CPop
    with assms(2) obtain d q where "db_data (sl_block s) = d # q"
      by (auto simp: slot_inv_def neq_Nil_conv)
    with assms CPop show ?thesis
      by (cases "sl_prod s") (auto simp: cons_step_def Let_def defs pop_front_def)
  next
    case CWait
    with assms show ?thesis
      by (cases "snd (n_poll ops i (db_provide_notify (sl_block s)))")
        (auto simp: cons_step_def Let_def defs split: prod.splits)
  qed (use assms act in \<open>auto simp: cons_step_def Let_def defs\<close>)
qed

section \<open>The invariant of the pool\<close>

definition total :: "('n slot \<Rightarrow> nat) \<Rightarrow> 'n pool \<Rightarrow> nat" where
  "total f p = (\<Sum>i\<in>dom (pl_slots p). f (the (pl_slots p i)))"

definition pool_inv :: "nat \<Rightarrow> u64 \<Rightarrow> 'n pool \<Rightarrow> bool" where
  "pool_inv n limit p \<longleftrightarrow>
     finite (dom (pl_slots p)) \<and> card (dom (pl_slots p)) \<le> n
   \<and> (\<forall>i s. pl_slots p i = Some s \<longrightarrow> slot_inv s)
   \<and> bm_limit (pl_manager p) = limit
   \<and> bm_taken (pl_manager p) = word_of_nat (total held p)
   \<and> total held p + total reserve p \<le> unat limit + total slack p"

lemma pool_inv_slot: "pool_inv n limit p \<Longrightarrow> pl_slots p i = Some s \<Longrightarrow> slot_inv s"
  by (simp add: pool_inv_def)

lemma slack_le_2: "slack s \<le> 2"
  by (cases "sl_prod s"; cases "sl_cons s") (auto simp: slack_def split: option.splits)

lemma total_slack_le: "finite (dom (pl_slots p)) \<Longrightarrow> total slack p \<le> 2 * card (dom (pl_slots p))"
  using sum_bounded_above [of "dom (pl_slots p)" "\<lambda>i. slack (the (pl_slots p i))" 2, OF slack_le_2]
  by (simp add: total_def mult.commute)

lemma total_held_bound:
  "pool_inv n limit p \<Longrightarrow> total held p \<le> unat limit + 2 * card (dom (pl_slots p))"
  using total_slack_le [of p] by (auto simp: pool_inv_def)

lemma taken_exact:
  assumes "pool_inv n limit p" and "unat limit + 2 * n < 2 ^ 64"
  shows "unat (bm_taken (pl_manager p)) = total held p"
proof -
  have "total held p < 2 ^ 64"
    using assms total_held_bound [OF assms(1)] by (auto simp: pool_inv_def)
  moreover have "bm_taken (pl_manager p) = word_of_nat (total held p)"
    using assms(1) by (simp add: pool_inv_def)
  ultimately show ?thesis by (simp add: unat_of_nat take_bit_eq_mod)
qed

lemma total_put:
  assumes "finite (dom (pl_slots p))" and "pl_slots p i = Some s"
  shows "total f (put_slot p i m' s') + f s = total f p + f s'"
  using sum_dom_upd [OF assms, of f s'] by (simp add: total_def put_slot_def)

lemma put_slot_inv:
  assumes inv: "pool_inv n limit p" and i: "pl_slots p i = Some s"
    and ok: "slot_inv s'" "accounted (pl_manager p) s m' s'"
    and small: "unat limit + 2 * n < 2 ^ 64"
  shows "pool_inv n limit (put_slot p i m' s')"
proof -
  let ?p = "put_slot p i m' s'"
  note t = total_put [OF _ i, of _ m' s']
  have fin: "finite (dom (pl_slots p))" using inv by (simp add: pool_inv_def)
  have slots: "dom (pl_slots ?p) = dom (pl_slots p)"
      "\<forall>j u. pl_slots ?p j = Some u \<longrightarrow> slot_inv u"
    using inv i ok(1) by (auto simp: put_slot_def pool_inv_def)
  have taken: "bm_taken m' = word_of_nat (total held ?p)"
  proof -
    have "bm_taken m' + word_of_nat (held s) = word_of_nat (total held p + held s')"
      using ok(2) inv by (simp add: accounted_def pool_inv_def)
    also have "\<dots> = word_of_nat (total held ?p) + word_of_nat (held s)"
      using t [OF fin, of held] by (metis of_nat_add)
    finally show ?thesis by simp
  qed
  have res: "total reserve ?p \<le> total slack ?p"
    unfolding total_def
  proof (rule sum_mono)
    fix j assume "j \<in> dom (pl_slots ?p)"
    then obtain u where "pl_slots ?p j = Some u" by blast
    then show "reserve (the (pl_slots ?p j)) \<le> slack (the (pl_slots ?p j))"
      using slots(2) reserve_le_slack by fastforce
  qed
  have "total held ?p + total reserve ?p \<le> unat limit + total slack ?p"
  proof (cases "can_take (pl_manager p) \<and> held s' = held s")
    case True
    then have "total held p < unat limit"
      using taken_exact [OF inv small] inv
      by (simp add: can_take_def word_less_nat_alt pool_inv_def)
    moreover have "total held ?p = total held p" using True t [OF fin, of held] by simp
    ultimately show ?thesis using res by simp
  next
    case False
    with ok(2) have "held s' + reserve s' + slack s \<le> held s + reserve s + slack s'"
      by (auto simp: accounted_def)
    with t [OF fin, of held] t [OF fin, of reserve] t [OF fin, of slack] inv
    show ?thesis by (simp add: pool_inv_def)
  qed
  with fin slots inv taken ok(2) show ?thesis
    by (simp add: pool_inv_def accounted_def put_slot_def)
qed

lemma pool_step_inv:
  assumes "pool_step ops n p p'" and inv: "pool_inv n limit p"
    and small: "unat limit + 2 * n < 2 ^ 64"
  shows "pool_inv n limit p'"
  using assms(1)
proof cases
  case (step_new i)
  have fin: "finite (dom (pl_slots p))" using inv by (simp add: pool_inv_def)
  have "total f p' = total f p" if "f (slot_new ops) = 0" for f :: "'a slot \<Rightarrow> nat"
    using sum_dom_insert [OF fin step_new(2), of f "slot_new ops"] that
    by (simp add: total_def step_new put_slot_def)
  then have "total held p' = total held p" "total reserve p' = total reserve p"
      "total slack p' = total slack p"
    by (simp_all add: counts slot_new_def db_new_def)
  moreover have "card (dom (pl_slots p')) \<le> n"
    using step_new fin by (simp add: put_slot_def card_insert_if)
  ultimately show ?thesis using inv step_new by (auto simp: pool_inv_def put_slot_def)
next
  case (step_gone i s)
  have fin: "finite (dom (pl_slots p))" using inv by (simp add: pool_inv_def)
  have "total f p' = total f p" if "f s = 0" for f :: "'a slot \<Rightarrow> nat"
    using sum_dom_remove [OF fin step_gone(2), of f] that by (simp add: total_def step_gone)
  moreover have "held s = 0" "reserve s = 0" "slack s = 0"
    using step_gone inv by (auto simp: counts pool_inv_def slot_inv_def)
  moreover have "card (dom (pl_slots p')) \<le> n"
    using step_gone inv fin by (auto simp: pool_inv_def intro: order.trans [OF card_Diff1_le])
  ultimately show ?thesis using inv step_gone by (auto simp: pool_inv_def)
next
  case (step_prod i s ord m' s')
  with put_slot_inv [OF inv step_prod(2) _ _ small] prod_step_ok [OF step_prod(3)]
    pool_inv_slot [OF inv step_prod(2)] show ?thesis by blast
next
  case (step_cons i s m' s')
  with put_slot_inv [OF inv step_cons(2) _ _ small] cons_step_ok [OF step_cons(3)]
    pool_inv_slot [OF inv step_cons(2)] show ?thesis by blast
next
  case (step_provide i s d)
  with pool_inv_slot [OF inv step_provide(2)] show ?thesis
    unfolding step_provide(1)
    by (intro put_slot_inv [OF inv step_provide(2) _ _ small])
      (auto simp: slot_inv_def accounted_def counts split: option.splits)
next
  case (step_cancel_provide i s d)
  with pool_inv_slot [OF inv step_cancel_provide(2)] show ?thesis
    unfolding step_cancel_provide(1)
    by (intro put_slot_inv [OF inv step_cancel_provide(2) _ _ small])
      (auto simp: slot_inv_def accounted_def counts split: option.splits)
next
  case (step_consume i s)
  with pool_inv_slot [OF inv step_consume(2)] show ?thesis
    unfolding step_consume(1)
    by (intro put_slot_inv [OF inv step_consume(2) _ _ small])
      (auto simp: slot_inv_def accounted_def counts split: option.splits)
next
  case (step_cancel_consume i s)
  with pool_inv_slot [OF inv step_cancel_consume(2)] show ?thesis
    unfolding step_cancel_consume(1)
    by (intro put_slot_inv [OF inv step_cancel_consume(2) _ _ small])
      (auto simp: slot_inv_def accounted_def counts split: option.splits)
next
  case (step_drop i s)
  with pool_inv_slot [OF inv step_drop(2)] show ?thesis
    unfolding step_drop(1)
    by (intro put_slot_inv [OF inv step_drop(2) _ _ small])
      (auto simp: slot_inv_def accounted_def counts split: option.splits)
next
  case (step_release i s k)
  with pool_inv_slot [OF inv step_release(2)] show ?thesis
    unfolding step_release(1)
    by (intro put_slot_inv [OF inv step_release(2) _ _ small])
      (auto simp: slot_inv_def accounted_def counts split: option.splits)
qed

lemma pool_reach_inv:
  "pool_reach ops n limit p \<Longrightarrow> unat limit + 2 * n < 2 ^ 64 \<Longrightarrow> pool_inv n limit p"
proof (induction rule: pool_reach.induct)
  case reach_new
  then show ?case by (simp add: pool_inv_def pool_new_def bm_new_def total_def)
next
  case (reach_step p p')
  then show ?case using pool_step_inv by blast
qed


section \<open>Order of the data\<close>

lemma put_slot_sel [simp]:
  "pl_slots (put_slot p i m s) j = (if j = i then Some s else pl_slots p j)"
  "pl_manager (put_slot p i m s) = m"
  by (simp_all add: put_slot_def)

text \<open>An invariant of single slots, kept by every step of its own tasks.\<close>

lemma pool_reach_slots:
  assumes "pool_reach ops n limit p" and "pl_slots p i = Some s"
    and new: "\<And>i. Q i (slot_new ops)"
    and provide: "\<And>i s d. Q i s \<Longrightarrow> sl_drop s = None \<Longrightarrow> sl_prod s = PIdle \<Longrightarrow>
        Q i (s\<lparr>sl_prod := PTry d\<rparr>)"
    and prod: "\<And>i s ord m m' s'. Q i s \<Longrightarrow> prod_step ops i ord m s = Some (m', s') \<Longrightarrow> Q i s'"
    and cancel_provide: "\<And>i s d. Q i s \<Longrightarrow> sl_prod s = PWait d \<Longrightarrow>
        Q i (s\<lparr>sl_block := (sl_block s)\<lparr>db_consume_notify :=
             n_drop ops i (db_consume_notify (sl_block s))\<rparr>, sl_prod := PIdle\<rparr>)"
    and consume: "\<And>i s. Q i s \<Longrightarrow> sl_drop s = None \<Longrightarrow> sl_cons s = CIdle \<Longrightarrow>
        Q i (s\<lparr>sl_cons := CCheck\<rparr>)"
    and cons: "\<And>i s m m' s'. Q i s \<Longrightarrow> cons_step ops i m s = Some (m', s') \<Longrightarrow> Q i s'"
    and cancel_consume: "\<And>i s. Q i s \<Longrightarrow> sl_cons s = CWait \<Longrightarrow>
        Q i (s\<lparr>sl_block := (sl_block s)\<lparr>db_provide_notify :=
             n_drop ops i (db_provide_notify (sl_block s))\<rparr>, sl_cons := CIdle\<rparr>)"
    and drop: "\<And>i s. Q i s \<Longrightarrow> sl_drop s = None \<Longrightarrow> sl_prod s = PIdle \<Longrightarrow> sl_cons s = CIdle \<Longrightarrow>
        Q i (s\<lparr>sl_drop := Some (length (db_data (sl_block s)))\<rparr>)"
    and rel: "\<And>i s k. Q i s \<Longrightarrow> sl_drop s = Some (Suc k) \<Longrightarrow> Q i (s\<lparr>sl_drop := Some k\<rparr>)"
  shows "Q i s"
  using assms(1,2)
proof (induction arbitrary: i s rule: pool_reach.induct)
  case reach_new
  then show ?case by (simp add: pool_new_def)
next
  case (reach_step p p')
  note IH = reach_step.IH
  from reach_step.hyps(2) show ?case
  proof cases
    case step_new
    with IH new reach_step.prems show ?thesis by (auto split: if_splits)
  next
    case step_provide
    with IH provide reach_step.prems show ?thesis by (auto split: if_splits)
  next
    case (step_prod j u ord m' u')
    then have "Q j u'" using IH prod by blast
    with step_prod IH reach_step.prems show ?thesis by (auto split: if_splits)
  next
    case step_cancel_provide
    with IH cancel_provide reach_step.prems show ?thesis by (auto split: if_splits)
  next
    case step_consume
    with IH consume reach_step.prems show ?thesis by (auto split: if_splits)
  next
    case (step_cons j u m' u')
    then have "Q j u'" using IH cons by blast
    with step_cons IH reach_step.prems show ?thesis by (auto split: if_splits)
  next
    case step_cancel_consume
    with IH cancel_consume reach_step.prems show ?thesis by (auto split: if_splits)
  next
    case step_drop
    with IH drop reach_step.prems show ?thesis by (auto split: if_splits)
  next
    case step_release
    with IH rel reach_step.prems show ?thesis by (auto split: if_splits)
  next
    case step_gone
    with IH reach_step.prems show ?thesis by (auto split: if_splits)
  qed
qed

lemma reach_slot_inv:
  assumes "pool_reach ops n limit p" and "pl_slots p i = Some s"
  shows "slot_inv s"
proof (rule pool_reach_slots [where Q = "\<lambda>_. slot_inv", OF assms], goal_cases)
  case 3
  then show ?case using prod_step_ok by blast
next
  case 6
  then show ?case using cons_step_ok by blast
qed (simp_all add: slot_inv_def slot_new_def db_new_def)

section \<open>Wake-ups\<close>

text \<open>
  What the documentation of \<open>Notify\<close> promises to a single waiter: a notification is kept until
  the waiter's next poll, a poll tells whether there was one, and dropping the future does not
  lose it.  \<open>sole i n\<close> says that no waiter but \<open>i\<close> ever used \<open>n\<close>, \<open>rdy i n\<close> that a notification is
  there for it.
\<close>

definition notify_laws ::
    "'n notify_ops \<Rightarrow> (nat \<Rightarrow> 'n \<Rightarrow> bool) \<Rightarrow> (nat \<Rightarrow> 'n \<Rightarrow> bool) \<Rightarrow> bool" where
  "notify_laws ops sole rdy \<longleftrightarrow>
     (\<forall>i. sole i (n_new ops))
   \<and> (\<forall>i n. sole i n \<longrightarrow> sole i (n_one ops n) \<and> rdy i (n_one ops n))
   \<and> (\<forall>i n. sole i n \<longrightarrow> sole i (fst (n_poll ops i n)) \<and> snd (n_poll ops i n) = rdy i n)
   \<and> (\<forall>i n. sole i n \<longrightarrow> sole i (n_drop ops i n) \<and> (rdy i n \<longrightarrow> rdy i (n_drop ops i n)))"

definition wake_inv ::
    "(nat \<Rightarrow> 'n \<Rightarrow> bool) \<Rightarrow> (nat \<Rightarrow> 'n \<Rightarrow> bool) \<Rightarrow> nat \<Rightarrow> 'n slot \<Rightarrow> bool" where
  "wake_inv sole rdy i s \<longleftrightarrow>
     (let b = sl_block s in
      sole i (db_provide_notify b) \<and> sole i (db_consume_notify b)
    \<and> ((\<exists>d. sl_prod s = PCheck d \<or> sl_prod s = PWait d) \<and> db_data b = [] \<longrightarrow>
         rdy i (db_consume_notify b) \<or> (\<exists>d. sl_cons s = CRelease d \<or> sl_cons s = CNotify d))
    \<and> (sl_cons s = CWait \<and> db_data b \<noteq> [] \<longrightarrow>
         rdy i (db_provide_notify b) \<or> sl_prod s = PNotify))"

lemma laws_simps:
  assumes "notify_laws ops sole rdy"
  shows "sole i (n_new ops)"
    and "sole i n \<Longrightarrow> sole i (n_one ops n)" and "sole i n \<Longrightarrow> rdy i (n_one ops n)"
    and "sole i n \<Longrightarrow> sole i (n_drop ops i n)"
    and "sole i n \<Longrightarrow> rdy i n \<Longrightarrow> rdy i (n_drop ops i n)"
  using assms by (simp_all add: notify_laws_def)

lemma laws_poll:
  assumes "notify_laws ops sole rdy" and "n_poll ops i n = (n', r)" and "sole i n"
  shows "sole i n' \<and> r = rdy i n"
  using assms by (metis notify_laws_def fst_conv snd_conv)

lemma provide_select_wake:
  assumes laws: "notify_laws ops sole rdy"
    and "provide_select ops i ord m b = (m', b', r)" and "sole i (db_consume_notify b)"
  shows "sole i (db_consume_notify b') \<and> (\<not> r \<longrightarrow> \<not> rdy i (db_consume_notify b))"
  using assms(2,3)
  by (auto simp: provide_select_def Let_def laws_simps [OF laws] dest: laws_poll [OF laws]
      split: prod.splits if_splits)

lemma prod_step_wake:
  assumes laws: "notify_laws ops sole rdy"
    and step: "prod_step ops i ord m s = Some (m', s')" and inv: "wake_inv sole rdy i s"
  shows "wake_inv sole rdy i s'"
proof (cases "sl_prod s")
  case (PWait d)
  with step obtain b r where sel: "provide_select ops i ord m (sl_block s) = (m', b, r)"
    and "s' = s\<lparr>sl_block := b, sl_prod := (if r then PTry d else PWait d)\<rparr>"
    by (auto simp: prod_step_def Let_def split: prod.splits)
  with inv PWait provide_select_frame [OF sel] provide_select_wake [OF laws sel] show ?thesis
    by (cases r) (auto simp: wake_inv_def Let_def)
qed (use step inv in \<open>auto simp: prod_step_def Let_def wake_inv_def push_back_def
      laws_simps [OF laws]\<close>)

lemma cons_step_wake:
  assumes laws: "notify_laws ops sole rdy"
    and step: "cons_step ops i m s = Some (m', s')" and inv: "wake_inv sole rdy i s"
  shows "wake_inv sole rdy i s'"
proof (cases "sl_cons s")
  case CWait
  obtain pn r where poll: "n_poll ops i (db_provide_notify (sl_block s)) = (pn, r)" by fastforce
  with step inv CWait laws_poll [OF laws poll] show ?thesis
    by (cases r) (auto simp: cons_step_def Let_def wake_inv_def)
next
  case CPop
  with step inv show ?thesis
    by (cases "db_data (sl_block s)") (auto simp: cons_step_def Let_def wake_inv_def pop_front_def)
qed (use step inv in \<open>auto simp: cons_step_def Let_def wake_inv_def laws_simps [OF laws]\<close>)

lemma reach_wake_inv:
  assumes laws: "notify_laws ops sole rdy"
    and "pool_reach ops n limit p" and "pl_slots p i = Some s"
  shows "wake_inv sole rdy i s"
proof (rule pool_reach_slots [where Q = "wake_inv sole rdy", OF assms(2,3)], goal_cases)
  case 3
  then show ?case using prod_step_wake [OF laws] by blast
next
  case 6
  then show ?case using cons_step_wake [OF laws] by blast
qed (auto simp: wake_inv_def Let_def slot_new_def db_new_def laws_simps [OF laws])


section \<open>Uninterrupted calls\<close>

definition inner_provide ::
    "'n notify_ops \<Rightarrow> 'n block_manager \<Rightarrow> 'n data_block \<Rightarrow> bytes
      \<Rightarrow> 'n block_manager \<times> 'n data_block \<times> bool" where
  "inner_provide ops m b d =
     (let pushed = (push_back d b)\<lparr>db_provide_notify := n_one ops (db_provide_notify b)\<rparr> in
      if db_data b = [] then (bm_take m, pushed, True)
      else if can_take m then (bm_take m, pushed, True)
      else (m, b, False))"

text \<open>\<open>k\<close> actions of one producer with nothing in between.\<close>

fun prod_run ::
    "'n notify_ops \<Rightarrow> nat \<Rightarrow> nat \<Rightarrow> 'n block_manager \<Rightarrow> 'n slot
      \<Rightarrow> ('n block_manager \<times> 'n slot) option" where
  "prod_run ops i 0 m s = Some (m, s)"
| "prod_run ops i (Suc k) m s =
     (case prod_step ops i True m s of
        None \<Rightarrow> None
      | Some (m', s') \<Rightarrow> prod_run ops i k m' s')"

definition consume_ready ::
    "'n notify_ops \<Rightarrow> 'n block_manager \<Rightarrow> 'n data_block
      \<Rightarrow> ('n block_manager \<times> 'n data_block \<times> bytes) option" where
  "consume_ready ops m b =
     (case pop_front b of
        None \<Rightarrow> None
      | Some (b', d) \<Rightarrow>
          Some (release ops m, b'\<lparr>db_consume_notify := n_one ops (db_consume_notify b')\<rparr>, d))"

text \<open>\<open>consume_ready\<close> is what the actions of an uninterrupted consumer add up to on a queue with
  data.\<close>

fun cons_run ::
    "'n notify_ops \<Rightarrow> nat \<Rightarrow> nat \<Rightarrow> 'n block_manager \<Rightarrow> 'n slot
      \<Rightarrow> ('n block_manager \<times> 'n slot) option" where
  "cons_run ops i 0 m s = Some (m, s)"
| "cons_run ops i (Suc k) m s =
     (case cons_step ops i m s of
        None \<Rightarrow> None
      | Some (m', s') \<Rightarrow> cons_run ops i k m' s')"

lemma consume_ready_refines:
  assumes "sl_cons s = CCheck" and "consume_ready ops m (sl_block s) = Some (m', b', d)"
  shows "cons_run ops i 4 m s =
    Some (m', s\<lparr>sl_block := b', sl_cons := CIdle, sl_out := sl_out s @ [d]\<rparr>)"
  using assms
  by (auto simp: consume_ready_def pop_front_def cons_step_def Let_def numeral_eq_Suc
      split: list.splits)

section \<open>Schedules\<close>

text \<open>Runs of the pool as lists of events, for concrete instances.\<close>

datatype block_event =
  ENew nat | EProvide nat bytes | EProd nat | EConsume nat | ECons nat

fun run_event :: "'n notify_ops \<Rightarrow> nat \<Rightarrow> 'n pool \<Rightarrow> block_event \<Rightarrow> 'n pool option" where
  "run_event ops n p (ENew i) =
     (if pl_slots p i = None \<and> card (dom (pl_slots p)) < n
      then Some (put_slot p i (pl_manager p) (slot_new ops)) else None)"
| "run_event ops n p (EProvide i d) =
     (case pl_slots p i of None \<Rightarrow> None | Some s \<Rightarrow>
        if sl_drop s = None \<and> sl_prod s = PIdle
        then Some (put_slot p i (pl_manager p) (s\<lparr>sl_prod := PTry d\<rparr>)) else None)"
| "run_event ops n p (EProd i) =
     (case pl_slots p i of None \<Rightarrow> None | Some s \<Rightarrow>
        (case prod_step ops i True (pl_manager p) s of
           None \<Rightarrow> None | Some (m', s') \<Rightarrow> Some (put_slot p i m' s')))"
| "run_event ops n p (EConsume i) =
     (case pl_slots p i of None \<Rightarrow> None | Some s \<Rightarrow>
        if sl_drop s = None \<and> sl_cons s = CIdle
        then Some (put_slot p i (pl_manager p) (s\<lparr>sl_cons := CCheck\<rparr>)) else None)"
| "run_event ops n p (ECons i) =
     (case pl_slots p i of None \<Rightarrow> None | Some s \<Rightarrow>
        (case cons_step ops i (pl_manager p) s of
           None \<Rightarrow> None | Some (m', s') \<Rightarrow> Some (put_slot p i m' s')))"

fun run_events :: "'n notify_ops \<Rightarrow> nat \<Rightarrow> 'n pool \<Rightarrow> block_event list \<Rightarrow> 'n pool option" where
  "run_events ops n p [] = Some p"
| "run_events ops n p (e # es) =
     (case run_event ops n p e of None \<Rightarrow> None | Some p' \<Rightarrow> run_events ops n p' es)"

lemma run_event_step: "run_event ops n p e = Some p' \<Longrightarrow> pool_step ops n p p'"
  by (cases e) (auto intro: pool_step.intros split: option.splits if_splits prod.splits)

lemma run_events_reach:
  "run_events ops n p es = Some p' \<Longrightarrow> pool_reach ops n limit p \<Longrightarrow> pool_reach ops n limit p'"
proof (induction es arbitrary: p)
  case (Cons e es)
  then obtain q where "run_event ops n p e = Some q" "run_events ops n q es = Some p'"
    by (auto split: option.splits)
  with Cons show ?case using run_event_step pool_reach.reach_step by blast
qed simp

text \<open>A notification that is one permit, which suffices for a single waiter.\<close>

definition permit_ops :: "bool notify_ops" where
  "permit_ops = \<lparr>n_new = False, n_one = \<lambda>_. True, n_poll = \<lambda>_ r. (False, r), n_drop = \<lambda>_ r. r\<rparr>"

lemma permit_laws: "notify_laws permit_ops (\<lambda>_ _. True) (\<lambda>_ r. r)"
  by (simp add: notify_laws_def permit_ops_def)

lemmas run_simps = put_slot_def pool_new_def bm_new_def slot_new_def db_new_def prod_step_def
  cons_step_def can_take_def bm_take_def push_back_def pop_front_def release_def
  provide_select_def permit_ops_def card_insert_if Let_def

section \<open>Properties\<close>

definition queued :: "'n slot \<Rightarrow> nat" where
  "queued s = (case sl_drop s of Some k \<Rightarrow> k | None \<Rightarrow> length (db_data (sl_block s)))"

lemma block_bounds:
  assumes "pool_reach ops n limit p" and "unat limit + 2 * n < 2 ^ 64"
  shows "total queued p \<le> unat limit + card (dom (pl_slots p))"
proof -
  note inv = pool_reach_inv [OF assms]
  have fin: "finite (dom (pl_slots p))" using inv by (simp add: pool_inv_def)
  have "total (\<lambda>s. queued s + slack s) p \<le> total (\<lambda>s. held s + 1) p"
    unfolding total_def
  proof (rule sum_mono)
    fix i assume "i \<in> dom (pl_slots p)"
    then obtain s where "pl_slots p i = Some s" by blast
    with pool_inv_slot [OF inv] show "queued (the (pl_slots p i)) + slack (the (pl_slots p i))
        \<le> held (the (pl_slots p i)) + 1"
      by (cases "sl_prod s") (auto simp: counts queued_def slot_inv_def split: option.splits)
  qed
  then have "total queued p + total slack p \<le> total held p + card (dom (pl_slots p))"
    by (simp add: total_def sum.distrib sum_Suc)
  moreover have "total held p \<le> unat limit + total slack p"
    using inv by (simp add: pool_inv_def)
  ultimately show ?thesis by simp
qed

text \<open>C1: In every interleaving of the producers and consumers of all blocks, with cancellations and
  drops, the counter of the manager is exactly the number of blocks taken and not released, so
  it never wraps below zero and is zero once every block is gone.  The bytes buffered stay
  bounded although the limit test and the take are separate atomic operations and an empty queue
  is always filled: at most one block per live queue is queued beyond the limit.\<close>

theorem block_accounting:
  assumes "pool_reach ops n limit p" and "unat limit + 2 * n < 2 ^ 64"
  shows "unat (bm_taken (pl_manager p)) = total held p
      \<and> total queued p \<le> unat limit + card (dom (pl_slots p))
      \<and> total held p \<le> unat limit + 2 * card (dom (pl_slots p))
      \<and> (pl_slots p = Map.empty \<longrightarrow> bm_taken (pl_manager p) = 0)"
proof -
  note inv = pool_reach_inv [OF assms]
  show ?thesis
    using taken_exact [OF inv assms(2)] total_held_bound [OF inv] block_bounds [OF assms]
    by (auto simp: total_def unat_eq_0)
qed

definition demo_events :: "block_event list" where
  "demo_events = [ENew 0, ENew 1, EProvide 0 [7], EProd 0, EProd 0, EProd 0, EProd 0,
     EProvide 1 [8], EProd 1, EProd 1, EProd 1, EProd 1, EProvide 0 [9], EProd 0, EProd 0]"

definition demo_pool :: "bool pool" where
  "demo_pool = the (run_events permit_ops 2 (pool_new permit_ops 1) demo_events)"

lemma demo_pool_reach: "pool_reach permit_ops 2 1 demo_pool"
  and demo_pool_slots: "bm_taken (pl_manager demo_pool) = 2"
    "sl_prod (the (pl_slots demo_pool 0)) = PWait [9]" "pl_slots demo_pool 0 \<noteq> None"
    "db_data (sl_block (the (pl_slots demo_pool 0))) = [[7]]"
    "dom (pl_slots demo_pool) = {0, 1}"
proof -
  have "run_events permit_ops 2 (pool_new permit_ops 1) demo_events = Some demo_pool"
    by (simp add: demo_pool_def demo_events_def run_simps)
  then show "pool_reach permit_ops 2 1 demo_pool"
    using run_events_reach pool_reach.reach_new by blast
  show "bm_taken (pl_manager demo_pool) = 2"
    "sl_prod (the (pl_slots demo_pool 0)) = PWait [9]" "pl_slots demo_pool 0 \<noteq> None"
    "db_data (sl_block (the (pl_slots demo_pool 0))) = [[7]]"
    "dom (pl_slots demo_pool) = {0, 1}"
    by (auto simp: demo_pool_def demo_events_def run_simps)
qed

lemma block_accounting_witness:
  "bm_limit (pl_manager demo_pool) = 1 \<and> total held demo_pool = 2 \<and> total queued demo_pool \<le> 3"
proof -
  have "unat (1 :: u64) + 2 * 2 < 2 ^ 64" by simp
  from block_accounting [OF demo_pool_reach this] demo_pool_slots(1,5)
  show ?thesis by (simp add: demo_pool_def demo_events_def run_simps)
qed

text \<open>C2: A block hands its data on in order: in every interleaving the chunks pushed so far are the
  chunks popped so far followed by the queue, nothing is lost, duplicated or reordered by
  \<open>provide\<close> and \<open>consume\<close>, and the \<open>unwrap\<close> of a pop never meets an empty queue.\<close>

theorem block_fifo:
  assumes "pool_reach ops n limit p" and "pl_slots p i = Some s"
  shows "sl_in s = sl_out s @ db_data (sl_block s) \<and> sl_cons s \<noteq> CPanic"
  using reach_slot_inv [OF assms] by (simp add: slot_inv_def)

lemma block_fifo_witness: "sl_in (the (pl_slots demo_pool 0)) = sl_out (the (pl_slots demo_pool 0)) @ [[7]]"
proof -
  obtain s where "pl_slots demo_pool 0 = Some s" using demo_pool_slots(3) by blast
  from block_fifo [OF demo_pool_reach this] this demo_pool_slots(4) show ?thesis by simp
qed

text \<open>C3: No wake-up is lost.  When a producer waits and a poll of its notification would not wake it,
  its queue has data for the consumer, or the consumer has popped and is about to notify it;
  when a consumer waits unwoken, its queue is empty or the producer is about to notify it.  So
  the two tasks of a block never wait for each other.\<close>

theorem block_no_lost_wakeup:
  assumes "notify_laws ops sole rdy"
    and "pool_reach ops n limit p" and "pl_slots p i = Some s"
  shows "(sl_prod s = PWait d \<and> \<not> snd (n_poll ops i (db_consume_notify (sl_block s))) \<longrightarrow>
            db_data (sl_block s) \<noteq> [] \<or> (\<exists>e. sl_cons s = CRelease e \<or> sl_cons s = CNotify e))
       \<and> (sl_cons s = CWait \<and> \<not> snd (n_poll ops i (db_provide_notify (sl_block s))) \<longrightarrow>
            db_data (sl_block s) = [] \<or> sl_prod s = PNotify)
       \<and> \<not> (sl_prod s = PWait d \<and> \<not> snd (n_poll ops i (db_consume_notify (sl_block s)))
            \<and> sl_cons s = CWait \<and> \<not> snd (n_poll ops i (db_provide_notify (sl_block s))))"
proof -
  have w: "wake_inv sole rdy i s" by (rule reach_wake_inv [OF assms])
  have "snd (n_poll ops i x) = rdy i x" if "sole i x" for x
    using laws_poll [OF assms(1) _ that] by (metis prod.collapse)
  with w show ?thesis by (auto simp: wake_inv_def Let_def)
qed

lemma block_no_lost_wakeup_witness:
  "sl_prod (the (pl_slots demo_pool 0)) = PWait [9]
   \<and> \<not> snd (n_poll permit_ops 0 (db_consume_notify (sl_block (the (pl_slots demo_pool 0)))))
   \<and> (0 < length (db_data (sl_block (the (pl_slots demo_pool 0))))
       \<or> (\<exists>e. sl_cons (the (pl_slots demo_pool 0)) = CRelease e
              \<or> sl_cons (the (pl_slots demo_pool 0)) = CNotify e))"
proof -
  obtain s where s: "pl_slots demo_pool 0 = Some s" using demo_pool_slots(3) by blast
  have "\<not> snd (n_poll permit_ops 0 (db_consume_notify (sl_block (the (pl_slots demo_pool 0)))))"
    by (simp add: demo_pool_def demo_events_def run_simps)
  with block_no_lost_wakeup [OF permit_laws demo_pool_reach s, of "[9]"] demo_pool_slots(2) s
  show ?thesis by auto
qed

text \<open>C9: \<open>inner_provide\<close> is what the actions of an uninterrupted producer add up to: on an empty queue
  it always pushes, whatever the limit, so a relay direction can never be starved by the others;
  on a non-empty queue it pushes exactly when the limit allows, and otherwise changes nothing
  and the producer waits.\<close>

theorem inner_provide_refines:
  assumes "sl_prod s = PTry d" and "inner_provide ops m (sl_block s) d = (m', b', ok)"
  shows "(\<exists>k \<le> 5. prod_run ops i k m s = Some (m', s\<lparr>sl_block := b',
             sl_prod := (if ok then PIdle else PWait d),
             sl_in := (if ok then sl_in s @ [d] else sl_in s)\<rparr>))
       \<and> ok = (db_data (sl_block s) = [] \<or> can_take m)
       \<and> (\<not> ok \<longrightarrow> m' = m \<and> b' = sl_block s)
       \<and> (ok \<longrightarrow> db_data b' = db_data (sl_block s) @ [d] \<and> bm_taken m' = bm_taken m + 1)"
proof -
  consider "db_data (sl_block s) = []" | "db_data (sl_block s) \<noteq> []" "can_take m"
    | "db_data (sl_block s) \<noteq> []" "\<not> can_take m" by blast
  then show ?thesis
  proof cases
    case 1
    with assms show ?thesis
      by (auto simp: inner_provide_def push_back_def bm_take_def prod_step_def Let_def numeral_eq_Suc
          intro!: exI [of _ "4 :: nat"])
  next
    case 2
    with assms show ?thesis
      by (auto simp: inner_provide_def push_back_def bm_take_def prod_step_def Let_def numeral_eq_Suc
          intro!: exI [of _ "5 :: nat"])
  next
    case 3
    with assms show ?thesis
      by (auto simp: inner_provide_def prod_step_def Let_def numeral_eq_Suc intro!: exI [of _ "2 :: nat"])
  qed
qed

lemma inner_provide_refines_witness:
  "\<exists>k \<le> 5. prod_run permit_ops 0 k (bm_new permit_ops 0) ((slot_new permit_ops)\<lparr>sl_prod := PTry [1]\<rparr>)
     = Some (bm_take (bm_new permit_ops 0), (slot_new permit_ops)\<lparr>sl_block :=
         \<lparr>db_data = [[1]], db_provide_notify = True, db_consume_notify = False\<rparr>,
         sl_prod := PIdle, sl_in := [[1]]\<rparr>)"
proof -
  let ?s = "(slot_new permit_ops)\<lparr>sl_prod := PTry [1]\<rparr>"
  have "inner_provide permit_ops (bm_new permit_ops 0) (sl_block ?s) [1]
      = (bm_take (bm_new permit_ops 0),
         \<lparr>db_data = [[1]], db_provide_notify = True, db_consume_notify = False\<rparr>, True)"
    by (simp add: inner_provide_def run_simps)
  from inner_provide_refines [OF _ this, of 0] show ?thesis
    by (simp add: slot_new_def)
qed

end
