(* ===== verification/Relay.thy ===== *)
theory Relay
  imports Block Tcp_Stream
begin

text \<open>
  \<open>src/object/tcp.rs\<close>: \<open>handle_tcp_connection\<close>, which copies bytes between a client stream (the
  connection a connector opened towards the destination) and a server stream (the connection a
  listener accepted) until one direction ends.  Without a block manager each direction is one task that
  reads and writes; with one, a reader task and a writer task share a \<open>DataBlock\<close>.  All tasks
  share a cancellation token: a task that ends cancels the others, except when it panics.

  The streams are those of any protocol: \<open>rd\<close> and \<open>wr\<close> are the \<open>read\<close> and \<open>write\<close> of their halves.
  A \<open>select!\<close> whose branches are both ready takes either, so the steps of a task and its
  cancellation are separate rules.
\<close>

section \<open>Writers\<close>

type_synonym 'w writer = "'w \<Rightarrow> bytes \<Rightarrow> 'w \<times> unit io"

text \<open>The contract of \<open>RunWriteHalf::write\<close>: a successful write sends all the bytes, a failed one a
  prefix of them.\<close>

locale byte_sink =
  fixes wr :: "'w writer"
    and written :: "'w \<Rightarrow> bytes"
  assumes wr_ok: "wr w bs = (w', Inr ()) \<Longrightarrow> written w' = written w @ bs"
    and wr_err: "wr w bs = (w', Inl e) \<Longrightarrow> \<exists>k. written w' = written w @ take k bs"

interpretation tcp_sink: byte_sink tcp_half_write tw_tx
  by unfold_locales
    (auto simp: tcp_half_write_def split: option.splits intro!: exI [of _ "0 :: nat"])

section \<open>One direction without a buffer\<close>

text \<open>How a task ended: its source was at its end, a read or write failed, it was cancelled, or it
  panicked.\<close>

datatype task_end = Eof | Failed | Cancelled | Panicked

definition end_of_fault :: "fault \<Rightarrow> task_end" where
  "end_of_fault e = (case e of IoError _ _ \<Rightarrow> Failed | Panic _ \<Rightarrow> Panicked)"

lemma end_of_fault_not [simp]: "end_of_fault e \<noteq> Eof" "end_of_fault e \<noteq> Cancelled"
  by (simp_all add: end_of_fault_def split: fault.split)

text \<open>The statement after the loop, \<open>token.cancel()\<close>, runs unless the task panicked.\<close>

definition cancels :: "task_end \<Rightarrow> bool" where
  "cancels e \<longleftrightarrow> e \<noteq> Panicked"

text \<open>\<open>cp_obs\<close> are the lengths reported to the observer, if there is one.\<close>

record ('r, 'w) copier =
  cp_rd :: 'r
  cp_wr :: 'w
  cp_obs :: "nat list"
  cp_end :: "task_end option"

definition copier_new :: "'r \<Rightarrow> 'w \<Rightarrow> ('r, 'w) copier" where
  "copier_new r w = \<lparr>cp_rd = r, cp_wr = w, cp_obs = [], cp_end = None\<rparr>"

text \<open>One round of the loop of the tasks \<open>s2c\<close> and \<open>c2s\<close> that takes the branch of the read.\<close>

definition copy_step :: "'r reader \<Rightarrow> 'w writer \<Rightarrow> bool \<Rightarrow> ('r, 'w) copier \<Rightarrow> ('r, 'w) copier" where
  "copy_step rd wr observed c =
     (case rd (cp_rd c) TCP_IO_BUFFER_SIZE of
        (r, Inl e) \<Rightarrow> c\<lparr>cp_rd := r, cp_end := Some (end_of_fault e)\<rparr>
      | (r, Inr bs) \<Rightarrow>
          if bs = [] then c\<lparr>cp_rd := r, cp_end := Some Eof\<rparr>
          else
            (case wr (cp_wr c) bs of
               (w, Inl e) \<Rightarrow> c\<lparr>cp_rd := r, cp_wr := w, cp_end := Some (end_of_fault e)\<rparr>
             | (w, Inr _) \<Rightarrow>
                 c\<lparr>cp_rd := r, cp_wr := w,
                   cp_obs := (if observed then cp_obs c @ [length bs] else cp_obs c)\<rparr>))"

section \<open>Both directions\<close>

record ('sr, 'cw, 'cr, 'sw) relay =
  rl_s2c :: "('sr, 'cw) copier"
  rl_c2s :: "('cr, 'sw) copier"
  rl_cancel :: bool

text \<open>The token after a step of one copier.\<close>

definition cancelled_by :: "bool \<Rightarrow> task_end option \<Rightarrow> bool" where
  "cancelled_by tok e \<longleftrightarrow> tok \<or> (case e of None \<Rightarrow> False | Some e \<Rightarrow> cancels e)"

inductive relay_step ::
    "'sr reader \<Rightarrow> 'cw writer \<Rightarrow> 'cr reader \<Rightarrow> 'sw writer \<Rightarrow> bool
      \<Rightarrow> ('sr, 'cw, 'cr, 'sw) relay \<Rightarrow> ('sr, 'cw, 'cr, 'sw) relay \<Rightarrow> bool"
  for srd cwr crd swr observed where
  relay_s2c: "cp_end (rl_s2c s) = None \<Longrightarrow> c = copy_step srd cwr observed (rl_s2c s) \<Longrightarrow>
     relay_step srd cwr crd swr observed s
       (s\<lparr>rl_s2c := c, rl_cancel := cancelled_by (rl_cancel s) (cp_end c)\<rparr>)"
| relay_c2s: "cp_end (rl_c2s s) = None \<Longrightarrow> c = copy_step crd swr observed (rl_c2s s) \<Longrightarrow>
     relay_step srd cwr crd swr observed s
       (s\<lparr>rl_c2s := c, rl_cancel := cancelled_by (rl_cancel s) (cp_end c)\<rparr>)"
| relay_s2c_cancel: "cp_end (rl_s2c s) = None \<Longrightarrow> rl_cancel s \<Longrightarrow>
     relay_step srd cwr crd swr observed s (s\<lparr>rl_s2c := (rl_s2c s)\<lparr>cp_end := Some Cancelled\<rparr>\<rparr>)"
| relay_c2s_cancel: "cp_end (rl_c2s s) = None \<Longrightarrow> rl_cancel s \<Longrightarrow>
     relay_step srd cwr crd swr observed s (s\<lparr>rl_c2s := (rl_c2s s)\<lparr>cp_end := Some Cancelled\<rparr>\<rparr>)"

text \<open>The start of the copying: the bytes a listener read ahead are written to the client stream first, and
  a failure of that write ends the call before any task is spawned.\<close>

definition relay_start ::
    "'cw writer \<Rightarrow> bytes option \<Rightarrow> 'sr \<Rightarrow> 'cw \<Rightarrow> 'cr \<Rightarrow> 'sw \<Rightarrow> ('sr, 'cw, 'cr, 'sw) relay io" where
  "relay_start cwr cache sr cw cr sw =
     (let start = (\<lambda>cw. \<lparr>rl_s2c = copier_new sr cw, rl_c2s = copier_new cr sw, rl_cancel = False\<rparr>)
      in case cache of
           None \<Rightarrow> Inr (start cw)
         | Some c \<Rightarrow>
             (case cwr cw c of
                (_, Inl e) \<Rightarrow> Inl e
              | (cw', Inr _) \<Rightarrow> Inr (start cw')))"

inductive relay_reach ::
    "'sr reader \<Rightarrow> 'cw writer \<Rightarrow> 'cr reader \<Rightarrow> 'sw writer \<Rightarrow> bool
      \<Rightarrow> ('sr, 'cw, 'cr, 'sw) relay \<Rightarrow> ('sr, 'cw, 'cr, 'sw) relay \<Rightarrow> bool"
  for srd cwr crd swr observed s0 where
  relay_refl: "relay_reach srd cwr crd swr observed s0 s0"
| relay_trans: "relay_reach srd cwr crd swr observed s0 s \<Longrightarrow>
     relay_step srd cwr crd swr observed s s' \<Longrightarrow> relay_reach srd cwr crd swr observed s0 s'"

section \<open>What one direction guarantees\<close>

text \<open>
  \<open>P\<close> are the bytes the source had to deliver and \<open>W\<close> those the sink had sent.  The bytes sent are
  always \<open>W\<close> and a prefix of \<open>P\<close>; while the task runs nothing is missing between what was sent and
  what the source still has; at the end of the source all of \<open>P\<close> is sent.
\<close>

definition copier_inv ::
    "('r \<Rightarrow> bytes) \<Rightarrow> ('w \<Rightarrow> bytes) \<Rightarrow> bool \<Rightarrow> bytes \<Rightarrow> bytes \<Rightarrow> ('r, 'w) copier \<Rightarrow> bool" where
  "copier_inv pending written observed P W c \<longleftrightarrow>
     (\<exists>out rest. P = out @ rest \<and> written (cp_wr c) = W @ out
        \<and> (observed \<longrightarrow> sum_list (cp_obs c) \<le> length out)
        \<and> (cp_end c \<in> {None, Some Eof, Some Cancelled} \<longrightarrow>
             rest = pending (cp_rd c) \<and> (observed \<longrightarrow> sum_list (cp_obs c) = length out)))"

lemma copier_invI:
  assumes "P = out @ rest" and "written (cp_wr c) = W @ out"
    and "observed \<Longrightarrow> sum_list (cp_obs c) \<le> length out"
    and "cp_end c \<in> {None, Some Eof, Some Cancelled} \<Longrightarrow>
       rest = pending (cp_rd c) \<and> (observed \<longrightarrow> sum_list (cp_obs c) = length out)"
  shows "copier_inv pending written observed P W c"
  using assms unfolding copier_inv_def by blast

locale relay_path = byte_stream rd pending + byte_sink wr written
  for rd :: "'s reader" and pending and wr :: "'w writer" and written
begin

lemma copier_new_inv: "copier_inv pending written observed (pending r) (written w) (copier_new r w)"
  by (simp add: copier_inv_def copier_new_def)

lemma copier_cancel_inv:
  assumes "copier_inv pending written observed P W c" and "cp_end c = None"
  shows "copier_inv pending written observed P W (c\<lparr>cp_end := Some Cancelled\<rparr>)"
  using assms by (simp add: copier_inv_def)

lemma copy_step_inv:
  assumes inv: "copier_inv pending written observed P W c" and run: "cp_end c = None"
  shows "copier_inv pending written observed P W (copy_step rd wr observed c)"
proof -
  from inv run obtain out where P: "P = out @ pending (cp_rd c)" and W: "written (cp_wr c) = W @ out"
    and obs: "observed \<longrightarrow> sum_list (cp_obs c) = length out"
    by (auto simp: copier_inv_def)
  obtain r res where rd: "rd (cp_rd c) TCP_IO_BUFFER_SIZE = (r, res)" by fastforce
  show ?thesis
  proof (cases res)
    case (Inl e)
    with rd have c: "copy_step rd wr observed c = c\<lparr>cp_rd := r, cp_end := Some (end_of_fault e)\<rparr>"
      by (simp add: copy_step_def)
    show ?thesis
      unfolding c using P W obs by (intro copier_invI [of _ out "pending (cp_rd c)"]) auto
  next
    case (Inr bs)
    with rd_prefix rd have p: "pending (cp_rd c) = bs @ pending r" by blast
    show ?thesis
    proof (cases "bs = []")
      case True
      with rd Inr have c: "copy_step rd wr observed c = c\<lparr>cp_rd := r, cp_end := Some Eof\<rparr>"
        by (simp add: copy_step_def)
      show ?thesis
        unfolding c using P W obs p True by (intro copier_invI [of _ out "pending r"]) auto
    next
      case False
      obtain w ok where wr: "wr (cp_wr c) bs = (w, ok)" by fastforce
      show ?thesis
      proof (cases ok)
        case (Inl e)
        with wr_err wr obtain k where k: "written w = written (cp_wr c) @ take k bs" by blast
        have c: "copy_step rd wr observed c =
            c\<lparr>cp_rd := r, cp_wr := w, cp_end := Some (end_of_fault e)\<rparr>"
          using rd \<open>res = Inr bs\<close> wr Inl False by (simp add: copy_step_def)
        show ?thesis
          unfolding c using P p W k obs
          by (intro copier_invI [of _ "out @ take k bs" "drop k bs @ pending r"]) auto
      next
        case (Inr u)
        with wr_ok wr have w: "written w = written (cp_wr c) @ bs" by simp
        have c: "copy_step rd wr observed c = c\<lparr>cp_rd := r, cp_wr := w,
            cp_obs := (if observed then cp_obs c @ [length bs] else cp_obs c)\<rparr>"
          using rd \<open>res = Inr bs\<close> wr Inr False by (simp add: copy_step_def)
        show ?thesis
          unfolding c using P p W w obs
          by (intro copier_invI [of _ "out @ bs" "pending r"]) auto
      qed
    qed
  qed
qed

end

interpretation tcp_path: relay_path tcp_half_read tcp_pending tcp_half_write tw_tx
  by unfold_locales


definition relay_inv ::
    "('sr \<Rightarrow> bytes) \<Rightarrow> ('cw \<Rightarrow> bytes) \<Rightarrow> ('cr \<Rightarrow> bytes) \<Rightarrow> ('sw \<Rightarrow> bytes) \<Rightarrow> bool
      \<Rightarrow> bytes \<Rightarrow> bytes \<Rightarrow> bytes \<Rightarrow> bytes \<Rightarrow> ('sr, 'cw, 'cr, 'sw) relay \<Rightarrow> bool" where
  "relay_inv sp cwn cp swn observed SP CW CP SW s \<longleftrightarrow>
     copier_inv sp cwn observed SP CW (rl_s2c s) \<and> copier_inv cp swn observed CP SW (rl_c2s s)
   \<and> (cp_end (rl_s2c s) = Some Cancelled \<or> cp_end (rl_c2s s) = Some Cancelled \<longrightarrow> rl_cancel s)
   \<and> (rl_cancel s \<longrightarrow> cp_end (rl_s2c s) \<in> {Some Eof, Some Failed}
        \<or> cp_end (rl_c2s s) \<in> {Some Eof, Some Failed})"

lemma copy_step_end:
  "cp_end (copy_step rd wr observed c) \<in> {cp_end c, Some Eof, Some Failed, Some Panicked}"
  by (auto simp: copy_step_def end_of_fault_def split: prod.splits sum.splits fault.splits)

lemma relay_step_inv:
  assumes "relay_path srd sp cwr cwn" and "relay_path crd cp swr swn"
    and "relay_step srd cwr crd swr observed s s'"
    and "relay_inv sp cwn cp swn observed SP CW CP SW s"
  shows "relay_inv sp cwn cp swn observed SP CW CP SW s'"
  using assms(3)
proof cases
  case (relay_s2c c)
  then show ?thesis
    using assms(4) relay_path.copy_step_inv [OF assms(1)]
      copy_step_end [of srd cwr observed "rl_s2c s"]
    by (auto simp: relay_inv_def cancelled_by_def cancels_def)
next
  case (relay_c2s c)
  then show ?thesis
    using assms(4) relay_path.copy_step_inv [OF assms(2)]
      copy_step_end [of crd swr observed "rl_c2s s"]
    by (auto simp: relay_inv_def cancelled_by_def cancels_def)
next
  case relay_s2c_cancel
  then show ?thesis
    using assms(4) relay_path.copier_cancel_inv [OF assms(1)]
    by (auto simp: relay_inv_def)
next
  case relay_c2s_cancel
  then show ?thesis
    using assms(4) relay_path.copier_cancel_inv [OF assms(2)]
    by (auto simp: relay_inv_def)
qed

lemma relay_reach_inv:
  assumes "relay_path srd sp cwr cwn" and "relay_path crd cp swr swn"
    and "relay_reach srd cwr crd swr observed s0 s"
    and "relay_inv sp cwn cp swn observed SP CW CP SW s0"
  shows "relay_inv sp cwn cp swn observed SP CW CP SW s"
  using assms(3,4)
  by (induction rule: relay_reach.induct) (auto intro: relay_step_inv [OF assms(1,2)])

lemma relay_start_inv:
  assumes "relay_path srd sp cwr cwn" and "relay_path crd cp swr swn"
    and "relay_start cwr cache sr cw cr sw = Inr s0"
  shows "relay_inv sp cwn cp swn observed
    (sp sr) (cwn cw @ (case cache of None \<Rightarrow> [] | Some c \<Rightarrow> c)) (cp cr) (swn sw) s0"
proof -
  from assms(3) obtain cw' where "cwn cw' = cwn cw @ (case cache of None \<Rightarrow> [] | Some c \<Rightarrow> c)"
    and "s0 = \<lparr>rl_s2c = copier_new sr cw', rl_c2s = copier_new cr sw, rl_cancel = False\<rparr>"
    using byte_sink.wr_ok [OF relay_path.axioms(2) [OF assms(1)]]
    by (fastforce simp: relay_start_def split: option.splits prod.splits sum.splits)
  then show ?thesis
    using relay_path.copier_new_inv [OF assms(1), of observed sr cw']
      relay_path.copier_new_inv [OF assms(2), of observed cr sw]
    by (simp add: relay_inv_def) (simp add: copier_new_def)
qed

section \<open>One direction, left alone\<close>

text \<open>With a live source and a sink that accepts everything, the loop reaches the end of the source
  after at most one round per byte, and one for the end.\<close>

lemma copy_step_live:
  assumes "live_stream rd pending alive" and "byte_sink wr written"
    and "\<And>w bs. \<exists>w'. wr w bs = (w', Inr ())" and "alive (cp_rd c)"
  shows "alive (cp_rd (copy_step rd wr observed c))
    \<and> (pending (cp_rd c) = [] \<longrightarrow> cp_end (copy_step rd wr observed c) = Some Eof
         \<and> cp_wr (copy_step rd wr observed c) = cp_wr c)
    \<and> (pending (cp_rd c) \<noteq> [] \<longrightarrow> cp_end (copy_step rd wr observed c) = cp_end c
         \<and> (\<exists>bs. bs \<noteq> [] \<and> pending (cp_rd c) = bs @ pending (cp_rd (copy_step rd wr observed c))
              \<and> written (cp_wr (copy_step rd wr observed c)) = written (cp_wr c) @ bs))"
proof -
  note live = assms(1)
  obtain r bs where r: "rd (cp_rd c) TCP_IO_BUFFER_SIZE = (r, Inr bs)" "alive r"
    using live_stream.rd_alive [OF live assms(4)] by blast
  note eof = live_stream.axioms(1) [OF live]
  note p = byte_stream.rd_prefix [OF eof_stream.axioms(1) [OF eof] r(1)]
  obtain w where w: "wr (cp_wr c) bs = (w, Inr ())" using assms(3) by blast
  show ?thesis
  proof (cases "bs = []")
    case True
    with r p eof_stream.rd_eof [OF eof, of "cp_rd c" TCP_IO_BUFFER_SIZE r] show ?thesis by (simp add: copy_step_def)
  next
    case False
    with r p w byte_sink.wr_ok [OF assms(2) w] show ?thesis by (auto simp: copy_step_def)
  qed
qed


lemma copy_to_end:
  assumes live: "live_stream rd pending alive" and sink: "byte_sink wr written"
    and accepts: "\<And>w bs. \<exists>w'. wr w bs = (w', Inr ())"
  shows "alive (cp_rd c) \<Longrightarrow> cp_end c = None \<Longrightarrow>
    \<exists>k \<le> length (pending (cp_rd c)) + 1.
       cp_end ((copy_step rd wr observed ^^ k) c) = Some Eof
     \<and> written (cp_wr ((copy_step rd wr observed ^^ k) c)) = written (cp_wr c) @ pending (cp_rd c)
     \<and> (\<forall>j < k. cp_end ((copy_step rd wr observed ^^ j) c) = None)"
proof (induction "length (pending (cp_rd c))" arbitrary: c rule: less_induct)
  case less
  let ?c = "copy_step rd wr observed c"
  note st = copy_step_live [where observed = observed, OF live sink accepts less.prems(1)]
  show ?case
  proof (cases "pending (cp_rd c) = []")
    case True
    with st less.prems(2) show ?thesis by (intro exI [of _ "1 :: nat"]) simp
  next
    case False
    with st obtain bs where bs: "bs \<noteq> []" "pending (cp_rd c) = bs @ pending (cp_rd ?c)"
      "written (cp_wr ?c) = written (cp_wr c) @ bs" "cp_end ?c = None" "alive (cp_rd ?c)"
      using less.prems(2) by auto
    then have "length (pending (cp_rd ?c)) < length (pending (cp_rd c))" by simp
    from less.hyps [OF this bs(5,4)] obtain k where k: "k \<le> length (pending (cp_rd ?c)) + 1"
      "cp_end ((copy_step rd wr observed ^^ k) ?c) = Some Eof"
      "written (cp_wr ((copy_step rd wr observed ^^ k) ?c)) = written (cp_wr ?c) @ pending (cp_rd ?c)"
      "\<forall>j < k. cp_end ((copy_step rd wr observed ^^ j) ?c) = None"
      by blast
    have "cp_end ((copy_step rd wr observed ^^ j) c) = None" if "j < Suc k" for j
      using that k(4) less.prems(2) by (cases j) (simp_all del: funpow.simps add: funpow_Suc_right)
    moreover have "Suc k \<le> length (pending (cp_rd c)) + 1"
      using k(1) bs(1,2) by (cases bs) simp_all
    ultimately show ?thesis using k(2,3) bs(2,3)
      by (intro exI [of _ "Suc k"]) (simp del: funpow.simps add: funpow_Suc_right)
  qed
qed


section \<open>Directions with a buffer\<close>

text \<open>
  A reader task and a writer task around a \<open>DataBlock\<close>.  \<open>pp_chunk\<close> is the chunk the reader is
  providing; \<open>inner_provide\<close> and \<open>consume_ready\<close> are the calls of \<open>Block\<close> the tasks make.
\<close>

record ('n, 'r, 'w) pipe =
  pp_rd :: 'r
  pp_chunk :: "bytes option"
  pp_rend :: "task_end option"
  pp_block :: "'n data_block"
  pp_wr :: 'w
  pp_wend :: "task_end option"
  pp_obs :: "nat list"

definition pipe_new :: "'n notify_ops \<Rightarrow> 'r \<Rightarrow> 'w \<Rightarrow> ('n, 'r, 'w) pipe" where
  "pipe_new ops r w = \<lparr>pp_rd = r, pp_chunk = None, pp_rend = None, pp_block = db_new ops,
     pp_wr = w, pp_wend = None, pp_obs = []\<rparr>"

definition pipe_read :: "'r reader \<Rightarrow> ('n, 'r, 'w) pipe \<Rightarrow> ('n, 'r, 'w) pipe" where
  "pipe_read rd p =
     (case rd (pp_rd p) TCP_IO_BUFFER_SIZE of
        (r, Inl e) \<Rightarrow> p\<lparr>pp_rd := r, pp_rend := Some (end_of_fault e)\<rparr>
      | (r, Inr bs) \<Rightarrow>
          if bs = [] then p\<lparr>pp_rd := r, pp_rend := Some Eof\<rparr>
          else p\<lparr>pp_rd := r, pp_chunk := Some bs\<rparr>)"

text \<open>The handler of a consumed chunk; it runs to its end once the chunk is taken.\<close>

definition pipe_write :: "'w writer \<Rightarrow> bool \<Rightarrow> bytes \<Rightarrow> ('n, 'r, 'w) pipe \<Rightarrow> ('n, 'r, 'w) pipe" where
  "pipe_write wr observed d p =
     (case wr (pp_wr p) d of
        (w, Inl e) \<Rightarrow> p\<lparr>pp_wr := w, pp_wend := Some (end_of_fault e)\<rparr>
      | (w, Inr _) \<Rightarrow>
          p\<lparr>pp_wr := w, pp_obs := (if observed then pp_obs p @ [length d] else pp_obs p)\<rparr>)"

inductive pipe_step ::
    "'n notify_ops \<Rightarrow> 'r reader \<Rightarrow> 'w writer \<Rightarrow> bool
      \<Rightarrow> 'n block_manager \<times> bool \<times> ('n, 'r, 'w) pipe
      \<Rightarrow> 'n block_manager \<times> bool \<times> ('n, 'r, 'w) pipe \<Rightarrow> bool"
  for ops rd wr observed where
  pipe_read: "pp_rend p = None \<Longrightarrow> pp_chunk p = None \<Longrightarrow> p' = pipe_read rd p \<Longrightarrow>
     pipe_step ops rd wr observed (m, tok, p) (m, cancelled_by tok (pp_rend p'), p')"
| pipe_provide: "pp_rend p = None \<Longrightarrow> pp_chunk p = Some d \<Longrightarrow>
     inner_provide ops m (pp_block p) d = (m', b', ok) \<Longrightarrow>
     pipe_step ops rd wr observed (m, tok, p)
       (m', tok, p\<lparr>pp_block := b', pp_chunk := (if ok then None else Some d)\<rparr>)"
| pipe_read_cancel: "pp_rend p = None \<Longrightarrow> tok \<Longrightarrow>
     pipe_step ops rd wr observed (m, tok, p) (m, tok, p\<lparr>pp_rend := Some Cancelled\<rparr>)"
| pipe_write: "pp_wend p = None \<Longrightarrow> consume_ready ops m (pp_block p) = Some (m', b', d) \<Longrightarrow>
     p' = pipe_write wr observed d (p\<lparr>pp_block := b'\<rparr>) \<Longrightarrow>
     pipe_step ops rd wr observed (m, tok, p) (m', cancelled_by tok (pp_wend p'), p')"
| pipe_write_cancel: "pp_wend p = None \<Longrightarrow> tok \<Longrightarrow>
     pipe_step ops rd wr observed (m, tok, p) (m, tok, p\<lparr>pp_wend := Some Cancelled\<rparr>)"

record ('n, 'sr, 'cw, 'cr, 'sw) buffered =
  bf_manager :: "'n block_manager"
  bf_cancel :: bool
  bf_s2c :: "('n, 'sr, 'cw) pipe"
  bf_c2s :: "('n, 'cr, 'sw) pipe"

definition buffered_new ::
    "'n notify_ops \<Rightarrow> 'n block_manager \<Rightarrow> 'sr \<Rightarrow> 'cw \<Rightarrow> 'cr \<Rightarrow> 'sw
      \<Rightarrow> ('n, 'sr, 'cw, 'cr, 'sw) buffered" where
  "buffered_new ops m sr cw cr sw =
     \<lparr>bf_manager = m, bf_cancel = False, bf_s2c = pipe_new ops sr cw, bf_c2s = pipe_new ops cr sw\<rparr>"

text \<open>The manager is shared with the other connections, which may change it between any two steps.\<close>

inductive buffered_reach ::
    "'n notify_ops \<Rightarrow> 'sr reader \<Rightarrow> 'cw writer \<Rightarrow> 'cr reader \<Rightarrow> 'sw writer \<Rightarrow> bool
      \<Rightarrow> ('n, 'sr, 'cw, 'cr, 'sw) buffered \<Rightarrow> ('n, 'sr, 'cw, 'cr, 'sw) buffered \<Rightarrow> bool"
  for ops srd cwr crd swr observed s0 where
  buffered_refl: "buffered_reach ops srd cwr crd swr observed s0 s0"
| buffered_s2c: "buffered_reach ops srd cwr crd swr observed s0 s \<Longrightarrow>
     pipe_step ops srd cwr observed (bf_manager s, bf_cancel s, bf_s2c s) (m, tok, p) \<Longrightarrow>
     buffered_reach ops srd cwr crd swr observed s0
       (s\<lparr>bf_manager := m, bf_cancel := tok, bf_s2c := p\<rparr>)"
| buffered_c2s: "buffered_reach ops srd cwr crd swr observed s0 s \<Longrightarrow>
     pipe_step ops crd swr observed (bf_manager s, bf_cancel s, bf_c2s s) (m, tok, p) \<Longrightarrow>
     buffered_reach ops srd cwr crd swr observed s0
       (s\<lparr>bf_manager := m, bf_cancel := tok, bf_c2s := p\<rparr>)"
| buffered_env: "buffered_reach ops srd cwr crd swr observed s0 s \<Longrightarrow>
     buffered_reach ops srd cwr crd swr observed s0 (s\<lparr>bf_manager := m\<rparr>)"

definition chunk_bytes :: "bytes option \<Rightarrow> bytes" where
  "chunk_bytes c = (case c of None \<Rightarrow> [] | Some d \<Rightarrow> d)"

lemma chunk_bytes_simps [simp]: "chunk_bytes None = []" "chunk_bytes (Some d) = d"
  by (simp_all add: chunk_bytes_def)

text \<open>What is sent is a prefix of the source; until the writer fails, the queue, the chunk being
  provided and the rest of the source continue it without a gap.\<close>

definition pipe_inv ::
    "('r \<Rightarrow> bytes) \<Rightarrow> ('w \<Rightarrow> bytes) \<Rightarrow> bytes \<Rightarrow> bytes \<Rightarrow> ('n, 'r, 'w) pipe \<Rightarrow> bool" where
  "pipe_inv pending written P W p \<longleftrightarrow>
     (\<exists>out rest tail. P = out @ rest \<and> written (pp_wr p) = W @ out
        \<and> (pp_wend p \<in> {None, Some Cancelled} \<longrightarrow>
             rest = concat (db_data (pp_block p)) @ chunk_bytes (pp_chunk p) @ tail)
        \<and> (pp_rend p \<in> {None, Some Eof, Some Cancelled} \<longrightarrow> tail = pending (pp_rd p)))"

lemma pipe_invI:
  assumes "P = out @ rest" and "written (pp_wr p) = W @ out"
    and "pp_wend p \<in> {None, Some Cancelled} \<Longrightarrow>
      rest = concat (db_data (pp_block p)) @ chunk_bytes (pp_chunk p) @ tail"
    and "pp_rend p \<in> {None, Some Eof, Some Cancelled} \<Longrightarrow> tail = pending (pp_rd p)"
  shows "pipe_inv pending written P W p"
  using assms unfolding pipe_inv_def by blast

context relay_path
begin

lemma pipe_new_inv: "pipe_inv pending written (pending r) (written w) (pipe_new ops r w)"
  by (intro pipe_invI [of _ "[]" "pending r" _ _ _ "pending r"]) (simp_all add: pipe_new_def db_new_def)

lemma pipe_step_inv:
  assumes "pipe_step ops rd wr observed (m, tok, p) (m', tok', p')"
    and inv: "pipe_inv pending written P W p"
  shows "pipe_inv pending written P W p'"
proof -
  from inv obtain out rest tail where P: "P = out @ rest" and W: "written (pp_wr p) = W @ out"
    and r: "pp_wend p \<in> {None, Some Cancelled} \<Longrightarrow>
      rest = concat (db_data (pp_block p)) @ chunk_bytes (pp_chunk p) @ tail"
    and t: "pp_rend p \<in> {None, Some Eof, Some Cancelled} \<Longrightarrow> tail = pending (pp_rd p)"
    unfolding pipe_inv_def by blast
  from assms(1) show ?thesis
  proof cases
    case pipe_read
    obtain s res where rd: "rd (pp_rd p) TCP_IO_BUFFER_SIZE = (s, res)" by fastforce
    show ?thesis
    proof (cases res)
      case (Inl e)
      with rd have p': "p' = p\<lparr>pp_rd := s, pp_rend := Some (end_of_fault e)\<rparr>"
        by (simp add: pipe_read Relay.pipe_read_def)
      from P W r show ?thesis unfolding p' by (intro pipe_invI [of _ out rest _ _ _ tail]) auto
    next
      case (Inr bs)
      with rd_prefix rd have p: "pending (pp_rd p) = bs @ pending s" by blast
      from rd Inr have p': "p' = (if bs = [] then p\<lparr>pp_rd := s, pp_rend := Some Eof\<rparr>
          else p\<lparr>pp_rd := s, pp_chunk := Some bs\<rparr>)"
        by (simp add: pipe_read Relay.pipe_read_def)
      have "tail = bs @ pending s" using t p pipe_read by simp
      with P W r pipe_read(4) show ?thesis
        unfolding p' by (intro pipe_invI [of _ out rest _ _ _ "pending s"]) (auto split: if_splits)
    qed
  next
    case (pipe_provide d b' ok)
    then have "db_data b' = (if ok then db_data (pp_block p) @ [d] else db_data (pp_block p))"
      by (auto simp: inner_provide_def push_back_def Let_def split: if_splits)
    with pipe_provide P W r t show ?thesis
      by (intro pipe_invI [of _ out rest _ _ _ tail]) auto
  next
    case (pipe_write b' d)
    then have q: "db_data (pp_block p) = d # db_data b'"
      by (auto simp: consume_ready_def pop_front_def split: list.splits)
    obtain w res where w: "wr (pp_wr p) d = (w, res)" by fastforce
    show ?thesis
    proof (cases res)
      case (Inl e)
      with wr_err w obtain k where k: "written w = written (pp_wr p) @ take k d" by blast
      from w Inl have p': "p' = p\<lparr>pp_block := b', pp_wr := w, pp_wend := Some (end_of_fault e)\<rparr>"
        by (simp add: pipe_write Relay.pipe_write_def)
      have "P = (out @ take k d) @ drop k d
          @ concat (db_data b') @ chunk_bytes (pp_chunk p) @ tail"
      proof -
        have "P = out @ (take k d @ drop k d) @ concat (db_data b') @ chunk_bytes (pp_chunk p) @ tail"
          using P r pipe_write q by simp
        then show ?thesis by (simp only: append_assoc)
      qed
      with k W t show ?thesis
        unfolding p' by (intro pipe_invI [of _ "out @ take k d" _ _ _ _ tail]) auto
    next
      case (Inr u)
      with wr_ok w have k: "written w = written (pp_wr p) @ d" by simp
      from w Inr have p': "p' = p\<lparr>pp_block := b', pp_wr := w,
          pp_obs := (if observed then pp_obs p @ [length d] else pp_obs p)\<rparr>"
        by (simp add: pipe_write Relay.pipe_write_def)
      have "P = (out @ d) @ concat (db_data b') @ chunk_bytes (pp_chunk p) @ tail"
        using P r pipe_write q by simp
      with k W t show ?thesis
        unfolding p' by (intro pipe_invI [of _ "out @ d" _ _ _ _ tail]) auto
    qed
  qed (use P W r t in \<open>(intro pipe_invI [of _ out rest _ _ _ tail]; auto)+\<close>)
qed

end


lemma buffered_reach_inv:
  assumes "relay_path srd sp cwr cwn" and "relay_path crd cp swr swn"
    and "buffered_reach ops srd cwr crd swr observed (buffered_new ops m sr cw cr sw) s"
  shows "pipe_inv sp cwn (sp sr) (cwn cw) (bf_s2c s) \<and> pipe_inv cp swn (cp cr) (swn sw) (bf_c2s s)"
  using assms(3)
proof (induction rule: buffered_reach.induct)
  case buffered_refl
  then show ?case
    by (simp add: buffered_new_def relay_path.pipe_new_inv [OF assms(1)]
        relay_path.pipe_new_inv [OF assms(2)])
next
  case buffered_s2c
  then show ?case using relay_path.pipe_step_inv [OF assms(1)] by (simp) blast
next
  case buffered_c2s
  then show ?case using relay_path.pipe_step_inv [OF assms(2)] by (simp) blast
qed simp

text \<open>A sink that accepts every write, for concrete instances.\<close>

definition accept_write :: "bytes writer" where
  "accept_write w bs = (w @ bs, Inr ())"

section \<open>Properties\<close>



text \<open>C8: Left alone, a direction of the relay ends: over a live source and a sink that accepts every
  write, the loop takes at most one round per byte and one more, ends at the end of the source,
  and has then written exactly the bytes of the source.\<close>

theorem relay_direction_completes:
  assumes "live_stream rd pending alive" and "byte_sink wr written"
    and "\<forall>w bs. \<exists>w'. wr w bs = (w', Inr ())" and "alive r"
  shows "\<exists>k \<le> length (pending r) + 1.
       cp_end ((copy_step rd wr observed ^^ k) (copier_new r w)) = Some Eof
     \<and> written (cp_wr ((copy_step rd wr observed ^^ k) (copier_new r w))) = written w @ pending r
     \<and> (\<forall>j < k. cp_end ((copy_step rd wr observed ^^ j) (copier_new r w)) = None)"
  using copy_to_end [OF assms(1,2), of "copier_new r w" observed] assms(3,4)
  by (simp add: copier_new_def)

lemma relay_direction_completes_witness:
  "\<exists>k \<le> 4. cp_wr ((copy_step tcp_half_read accept_write True ^^ k)
      (copier_new \<lparr>ts_rx = [Segment [1, 2], Segment [3]]\<rparr> [])) = [1, 2, 3]"
proof -
  let ?r = "\<lparr>ts_rx = [Segment [1, 2], Segment [3]]\<rparr>"
  have sink: "byte_sink accept_write (\<lambda>w. w)" by unfold_locales (simp_all add: accept_write_def)
  have acc: "\<forall>w bs. \<exists>w'. accept_write w bs = (w', Inr ())" by (simp add: accept_write_def)
  have "tcp_clean ?r" by code_simp
  from relay_direction_completes [OF tcp_half.live_stream_axioms sink acc this, of True "[]"]
  obtain k where "k \<le> length (tcp_pending ?r) + 1"
    and "cp_wr ((copy_step tcp_half_read accept_write True ^^ k) (copier_new ?r []))
           = [] @ tcp_pending ?r"
    by blast
  moreover have "tcp_pending ?r = [1, 2, 3]" by (simp add: tcp_pending_def)
  ultimately show ?thesis by (intro exI [of _ k]) simp
qed

text \<open>C6: With the buffer, the bytes written are still a prefix of the source in every interleaving,
  and until the writer fails the queue, the chunk in hand and the source hold the rest without a
  gap; whatever the other connections do to the shared block manager.\<close>

theorem buffered_integrity:
  assumes "relay_path srd sp cwr cwn" and "relay_path crd cp swr swn"
    and "buffered_reach ops srd cwr crd swr observed (buffered_new ops m sr cw cr sw) s"
  shows "pipe_inv sp cwn (sp sr) (cwn cw) (bf_s2c s) \<and> pipe_inv cp swn (cp cr) (swn sw) (bf_c2s s)
       \<and> (\<exists>rest. sp sr = drop (length (cwn cw)) (cwn (pp_wr (bf_s2c s))) @ rest)"
proof -
  from buffered_reach_inv [OF assms] have i: "pipe_inv sp cwn (sp sr) (cwn cw) (bf_s2c s)"
      "pipe_inv cp swn (cp cr) (swn sw) (bf_c2s s)" by simp_all
  from i(1) obtain out rest where "sp sr = out @ rest" "cwn (pp_wr (bf_s2c s)) = cwn cw @ out"
    unfolding pipe_inv_def by blast
  then have "sp sr = drop (length (cwn cw)) (cwn (pp_wr (bf_s2c s))) @ rest" by simp
  with i show ?thesis by blast
qed

lemma buffered_integrity_witness:
  "pipe_inv tcp_pending tw_tx [5] [] (bf_s2c (buffered_new permit_ops (bm_new permit_ops 1)
     \<lparr>ts_rx = [Segment [5]]\<rparr> \<lparr>tw_tx = [], tw_err = None\<rparr> \<lparr>ts_rx = []\<rparr> \<lparr>tw_tx = [], tw_err = None\<rparr>))"
  using buffered_integrity [OF tcp_path.relay_path_axioms tcp_path.relay_path_axioms buffered_refl,
      where ops = permit_ops and m = "bm_new permit_ops 1" and sr = "\<lparr>ts_rx = [Segment [5]]\<rparr>"
        and cw = "\<lparr>tw_tx = [], tw_err = None\<rparr>" and cr = "\<lparr>ts_rx = []\<rparr>"
        and sw = "\<lparr>tw_tx = [], tw_err = None\<rparr>"]
  by (simp add: tcp_pending_def)

text \<open>C7: With the buffer, a connection that closes normally can lose its last bytes: whatever chunk
  the accepted peer sends before closing, there is a run without any failure in which the reader
  stores it, meets the end of the stream and cancels the token, and the writer takes the
  cancelled branch of its \<open>select!\<close>; all four tasks have ended and the destination got nothing.
  (The two directions are alike, so a response can be cut the same way.)\<close>

theorem buffered_eof_loses_data:
  assumes "d \<noteq> []" and "length d \<le> TCP_IO_BUFFER_SIZE"
  shows "\<exists>s. buffered_reach ops tcp_half_read tcp_half_write tcp_half_read tcp_half_write observed
           (buffered_new ops m \<lparr>ts_rx = [Segment d]\<rparr> cw cr sw) s
       \<and> pp_rend (bf_s2c s) = Some Eof \<and> pp_wend (bf_s2c s) = Some Cancelled
       \<and> pp_rend (bf_c2s s) = Some Cancelled \<and> pp_wend (bf_c2s s) = Some Cancelled
       \<and> pp_wr (bf_s2c s) = cw \<and> db_data (pp_block (bf_s2c s)) = [d]"
proof -
  let ?reach = "buffered_reach ops tcp_half_read tcp_half_write tcp_half_read tcp_half_write observed
    (buffered_new ops m \<lparr>ts_rx = [Segment d]\<rparr> cw cr sw)"
  let ?b = "(push_back d (db_new ops))\<lparr>db_provide_notify := n_one ops (db_provide_notify (db_new ops))\<rparr>"
  let ?p0 = "pipe_new ops \<lparr>ts_rx = [Segment d]\<rparr> cw"
  let ?p1 = "?p0\<lparr>pp_rd := \<lparr>ts_rx = []\<rparr>, pp_chunk := Some d\<rparr>"
  let ?p2 = "?p1\<lparr>pp_block := ?b, pp_chunk := None\<rparr>"
  let ?p3 = "?p2\<lparr>pp_rend := Some Eof\<rparr>"
  let ?q0 = "pipe_new ops cr sw"
  let ?st = "\<lambda>m tok p q. \<lparr>bf_manager = m, bf_cancel = tok, bf_s2c = p, bf_c2s = q\<rparr>"
  note s2c = buffered_s2c [where srd = tcp_half_read and cwr = tcp_half_write
      and crd = tcp_half_read and swr = tcp_half_write]
  note c2s = buffered_c2s [where srd = tcp_half_read and cwr = tcp_half_write
      and crd = tcp_half_read and swr = tcp_half_write]
  have "?reach (?st m False ?p0 ?q0)"
    using buffered_refl [where ops = ops] by (simp add: buffered_new_def)
  from s2c [OF this, of m False ?p1] have r1: "?reach (?st m False ?p1 ?q0)"
    using assms pipe_read [of ?p0 ?p1 tcp_half_read ops tcp_half_write observed m False]
    by (simp add: pipe_new_def pipe_read_def tcp_half_read_def cancelled_by_def)
  from s2c [OF this, of "bm_take m" False ?p2] have r2: "?reach (?st (bm_take m) False ?p2 ?q0)"
    using pipe_provide [of ?p1 d ops m "bm_take m" ?b True tcp_half_read tcp_half_write observed False]
    by (simp add: pipe_new_def inner_provide_def db_new_def)
  from s2c [OF this, of "bm_take m" True ?p3] have r3: "?reach (?st (bm_take m) True ?p3 ?q0)"
    using pipe_read [of ?p2 ?p3 tcp_half_read ops tcp_half_write observed "bm_take m" False]
    by (simp add: pipe_new_def pipe_read_def tcp_half_read_def cancelled_by_def cancels_def)
  let ?p4 = "?p3\<lparr>pp_wend := Some Cancelled\<rparr>"
  from s2c [OF r3, of "bm_take m" True ?p4] have r4: "?reach (?st (bm_take m) True ?p4 ?q0)"
    using pipe_write_cancel [of ?p3 True ops tcp_half_read tcp_half_write observed "bm_take m"]
    by (simp add: pipe_new_def)
  let ?q1 = "?q0\<lparr>pp_rend := Some Cancelled\<rparr>"
  from c2s [OF r4, of "bm_take m" True ?q1] have r5: "?reach (?st (bm_take m) True ?p4 ?q1)"
    using pipe_read_cancel [of ?q0 True ops tcp_half_read tcp_half_write observed "bm_take m"]
    by (simp add: pipe_new_def)
  let ?q2 = "?q1\<lparr>pp_wend := Some Cancelled\<rparr>"
  from c2s [OF r5, of "bm_take m" True ?q2] have "?reach (?st (bm_take m) True ?p4 ?q2)"
    using pipe_write_cancel [of ?q1 True ops tcp_half_read tcp_half_write observed "bm_take m"]
    by (simp add: pipe_new_def)
  then show ?thesis
    by (intro exI [of _ "?st (bm_take m) True ?p4 ?q2"])
      (simp add: pipe_new_def push_back_def db_new_def)
qed


lemma buffered_eof_loses_data_witness:
  "\<exists>s. buffered_reach permit_ops tcp_half_read tcp_half_write tcp_half_read tcp_half_write False
       (buffered_new permit_ops (bm_new permit_ops 8) \<lparr>ts_rx = [Segment [72, 73]]\<rparr>
          \<lparr>tw_tx = [], tw_err = None\<rparr> \<lparr>ts_rx = []\<rparr> \<lparr>tw_tx = [], tw_err = None\<rparr>) s
     \<and> pp_rend (bf_s2c s) = Some Eof \<and> tw_tx (pp_wr (bf_s2c s)) = []"
proof -
  have "length [72 :: u8, 73] \<le> TCP_IO_BUFFER_SIZE" by (simp add: TCP_IO_BUFFER_SIZE_def)
  from buffered_eof_loses_data [OF _ this, where ops = permit_ops and observed = False
      and m = "bm_new permit_ops 8" and cw = "\<lparr>tw_tx = [], tw_err = None\<rparr>" and cr = "\<lparr>ts_rx = []\<rparr>"
      and sw = "\<lparr>tw_tx = [], tw_err = None\<rparr>"]
  show ?thesis by auto
qed

end
