(* ===== verification/Streams.thy ===== *)
theory Streams
  imports Demo_Codec Crypto Relay
begin

text \<open>
  The message streams of \<open>src/stream/\<close>: \<open>grpc_client.rs\<close>, \<open>grpc_server.rs\<close>, \<open>rev_grpc_client.rs\<close>,
  \<open>rev_grpc_server.rs\<close>, \<open>pb_tcp_client.rs\<close> and \<open>pb_tcp_server.rs\<close>.  Each makes a byte stream of a
  sequence of messages: a read takes from the cached rest of the last payload, or else receives a
  message and caches what does not fit.  The code of that read stands in every file, in the
  stream and in its read half; here it is \<open>cached_read\<close> over the operation that receives the
  next payload, which is what the files differ in.

  The locale \<open>payload_source\<close> is the contract of that operation; a cached read over any such source
  is a \<open>byte_stream\<close>.

  A gRPC stream (\<open>tonic::Streaming\<close>) is the list of what it still delivers, and a channel sender the
  list of what was sent with the error of a closed channel.
\<close>

section \<open>Cached reads\<close>

record 'src cached =
  ca_reader :: 'src
  ca_cache :: bytes
  ca_pos :: nat

definition cached_new :: "'src \<Rightarrow> 'src cached" where
  "cached_new r = \<lparr>ca_reader = r, ca_cache = [], ca_pos = 0\<rparr>"

definition cached_read :: "('src, bytes) op \<Rightarrow> 'src cached reader" where
  "cached_read next_payload c n =
     (if ca_pos c < length (ca_cache c) then
        let available = length (ca_cache c) - ca_pos c;
            to_copy = min available n;
            out = take to_copy (drop (ca_pos c) (ca_cache c));
            pos = ca_pos c + to_copy
        in if length (ca_cache c) \<le> pos then (c\<lparr>ca_cache := [], ca_pos := 0\<rparr>, Inr out)
           else (c\<lparr>ca_pos := pos\<rparr>, Inr out)
      else
        (case next_payload (ca_reader c) of
           (r, Inl e) \<Rightarrow> (c\<lparr>ca_reader := r, ca_cache := [], ca_pos := 0\<rparr>, Inl e)
         | (r, Inr payload) \<Rightarrow>
             if payload = [] then (c\<lparr>ca_reader := r, ca_cache := [], ca_pos := 0\<rparr>, Inr [])
             else
               let to_copy = min n (length payload)
               in (c\<lparr>ca_reader := r, ca_cache := drop to_copy payload, ca_pos := 0\<rparr>,
                   Inr (take to_copy payload))))"

text \<open>The bytes a cached reader still delivers, given those of its source.\<close>

definition cached_pending :: "('src \<Rightarrow> bytes) \<Rightarrow> 'src cached \<Rightarrow> bytes" where
  "cached_pending payloads c = drop (ca_pos c) (ca_cache c) @ payloads (ca_reader c)"

locale payload_source =
  fixes next_payload :: "('src, bytes) op"
    and payloads :: "'src \<Rightarrow> bytes"
  assumes next_ok: "next_payload s = (s', Inr p) \<Longrightarrow> payloads s = p @ payloads s'"
begin

lemma cached_read_prefix:
  assumes "cached_read next_payload c n = (c', Inr bs)"
  shows "length bs \<le> n \<and> cached_pending payloads c = bs @ cached_pending payloads c'"
proof (cases "ca_pos c < length (ca_cache c)")
  case True
  let ?k = "min (length (ca_cache c) - ca_pos c) n"
  have split: "drop (ca_pos c) (ca_cache c) =
      take ?k (drop (ca_pos c) (ca_cache c)) @ drop (ca_pos c + ?k) (ca_cache c)"
    by (metis append_take_drop_id drop_drop add.commute)
  from assms True have bs: "bs = take ?k (drop (ca_pos c) (ca_cache c))"
    and c': "c' = (if length (ca_cache c) \<le> ca_pos c + ?k then c\<lparr>ca_cache := [], ca_pos := 0\<rparr>
        else c\<lparr>ca_pos := ca_pos c + ?k\<rparr>)"
    by (auto simp: cached_read_def Let_def split: if_splits)
  have "cached_pending payloads c' = drop (ca_pos c + ?k) (ca_cache c) @ payloads (ca_reader c)"
    by (simp add: c' cached_pending_def)
  with split bs show ?thesis by (simp add: cached_pending_def)
next
  case False
  with assms obtain r p where "next_payload (ca_reader c) = (r, Inr p)"
    and "c' = c\<lparr>ca_reader := r, ca_cache := drop (min n (length p)) p, ca_pos := 0\<rparr>"
    and "bs = take (min n (length p)) p"
    by (auto simp: cached_read_def Let_def split: prod.splits sum.splits if_splits)
  with next_ok [of "ca_reader c" r p] False show ?thesis
    by (auto simp: cached_pending_def min_def)
qed

end

sublocale payload_source \<subseteq> cached: byte_stream "cached_read next_payload" "cached_pending payloads"
  by unfold_locales (rule cached_read_prefix)

section \<open>Streams over gRPC\<close>

datatype 'm grpc_event = GMsg 'm | GStatus string

record 'm sender =
  sd_sent :: "'m list"
  sd_closed :: "string option"

text \<open>\<open>Sender::send\<close>: the error of a closed channel is what \<open>SendError\<close> prints.\<close>

definition send :: "'m sender \<Rightarrow> 'm \<Rightarrow> 'm sender \<times> (string + unit)" where
  "send s m = (case sd_closed s of None \<Rightarrow> (s\<lparr>sd_sent := sd_sent s @ [m]\<rparr>, Inr ())
                 | Some e \<Rightarrow> (s, Inl e))"

text \<open>Receiving a message and taking its payload; the end of the stream is an error.\<close>

definition grpc_next :: "('m \<Rightarrow> bytes io) \<Rightarrow> ('m grpc_event list, bytes) op" where
  "grpc_next payload_of evs =
     (case evs of
        [] \<Rightarrow> ([], Inl (IoError Other ''no more data''))
      | GStatus e # r \<Rightarrow> (r, Inl (IoError Interrupted e))
      | GMsg m # r \<Rightarrow> (r, payload_of m))"

text \<open>The payloads up to the first event that is not one.\<close>

fun grpc_payloads :: "('m \<Rightarrow> bytes io) \<Rightarrow> 'm grpc_event list \<Rightarrow> bytes" where
  "grpc_payloads f [] = []"
| "grpc_payloads f (GStatus e # r) = []"
| "grpc_payloads f (GMsg m # r) = (case f m of Inl e \<Rightarrow> [] | Inr p \<Rightarrow> p @ grpc_payloads f r)"

interpretation grpc_src: payload_source "grpc_next f" "grpc_payloads f" for f
proof
  fix s s' p
  show "grpc_next f s = (s', Inr p) \<Longrightarrow> grpc_payloads f s = p @ grpc_payloads f s'"
    by (cases s rule: list.exhaust; cases "hd s") (auto simp: grpc_next_def)
qed

text \<open>
  A stream is its cached reader, its writer and its information; \<open>split\<close> keeps the reader and the
  writer but gives the read half a new cache.
\<close>

record ('src, 'w) msg_stream =
  st_reader :: "'src cached"
  st_writer :: 'w
  st_info :: stream_info

definition msg_stream_new :: "'src \<Rightarrow> 'w \<Rightarrow> ('src, 'w) msg_stream" where
  "msg_stream_new r w =
     \<lparr>st_reader = cached_new r, st_writer = w, st_info = stream_info_default\<rparr>"

definition msg_set_info ::
    "(stream_info \<Rightarrow> stream_info) \<Rightarrow> ('src, 'w, 'x) msg_stream_scheme \<Rightarrow> ('src, 'w, 'x) msg_stream_scheme" where
  "msg_set_info f s = s\<lparr>st_info := f (st_info s)\<rparr>"

definition msg_split :: "('src, 'w, 'x) msg_stream_scheme \<Rightarrow> 'src cached \<times> 'w" where
  "msg_split s = (cached_new (ca_reader (st_reader s)), st_writer s)"

definition msg_read ::
    "('src, bytes) op \<Rightarrow> ('src, 'w, 'x) msg_stream_scheme \<Rightarrow> nat \<Rightarrow> ('src, 'w, 'x) msg_stream_scheme \<times> bytes io" where
  "msg_read next_payload s n =
     (case cached_read next_payload (st_reader s) n of (c, r) \<Rightarrow> (s\<lparr>st_reader := c\<rparr>, r))"

subsection \<open>The four gRPC streams\<close>

type_synonym grpc_client_stream = "(stream_res grpc_event list, stream_req sender) msg_stream"
type_synonym grpc_server_stream = "(stream_req grpc_event list, stream_res sender) msg_stream"
type_synonym rev_grpc_client_stream =
  "(rev_stream_res grpc_event list, rev_stream_req sender) msg_stream"

text \<open>The halves that \<open>split\<close> makes of them.\<close>

type_synonym grpc_client_write_half = "stream_req sender"
type_synonym grpc_server_read_half = "stream_req grpc_event list cached"
type_synonym grpc_server_write_half = "stream_res sender"
type_synonym rev_grpc_client_read_half = "rev_stream_res grpc_event list cached"
type_synonym rev_grpc_client_write_half = "rev_stream_req sender"
type_synonym rev_grpc_server_read_half = "rev_stream_req grpc_event list cached"
type_synonym rev_grpc_server_write_half = "rev_stream_res sender"

record rev_grpc_server_stream = "(rev_stream_req grpc_event list, rev_stream_res sender) msg_stream" +
  vs_dst_addr :: string
  vs_dst_port :: u16

text \<open>What each file adds to these operations: its constructor, its information and its \<open>split\<close>.\<close>

definition msg_get_info :: "('src, 'w, 'x) msg_stream_scheme \<Rightarrow> stream_info" where
  [simp]: "msg_get_info s = st_info s"

definition grpc_server_stream_new ::
    "stream_req grpc_event list \<Rightarrow> stream_res sender \<Rightarrow> grpc_server_stream" where
  [simp]: "grpc_server_stream_new reader writer = msg_stream_new reader writer"

definition rev_grpc_client_stream_new ::
    "rev_stream_res grpc_event list \<Rightarrow> rev_stream_req sender \<Rightarrow> rev_grpc_client_stream" where
  [simp]: "rev_grpc_client_stream_new reader writer = msg_stream_new reader writer"

definition grpc_server_set_info :: "(stream_info \<Rightarrow> stream_info) \<Rightarrow> grpc_server_stream \<Rightarrow> grpc_server_stream" where
  [simp]: "grpc_server_set_info f s = msg_set_info f s"

definition rev_grpc_client_set_info ::
    "(stream_info \<Rightarrow> stream_info) \<Rightarrow> rev_grpc_client_stream \<Rightarrow> rev_grpc_client_stream" where
  [simp]: "rev_grpc_client_set_info f s = msg_set_info f s"

definition rev_grpc_server_set_info ::
    "(stream_info \<Rightarrow> stream_info) \<Rightarrow> rev_grpc_server_stream \<Rightarrow> rev_grpc_server_stream" where
  [simp]: "rev_grpc_server_set_info f s = msg_set_info f s"

definition grpc_server_split ::
    "grpc_server_stream \<Rightarrow> grpc_server_read_half \<times> grpc_server_write_half" where
  "grpc_server_split s = (cached_new (ca_reader (st_reader s)), st_writer s)"

definition rev_grpc_client_split ::
    "rev_grpc_client_stream \<Rightarrow> rev_grpc_client_read_half \<times> rev_grpc_client_write_half" where
  "rev_grpc_client_split s = (cached_new (ca_reader (st_reader s)), st_writer s)"

definition rev_grpc_server_split ::
    "rev_grpc_server_stream \<Rightarrow> rev_grpc_server_read_half \<times> rev_grpc_server_write_half" where
  "rev_grpc_server_split s = (cached_new (ca_reader (st_reader s)), st_writer s)"

definition grpc_client_next :: "(stream_res grpc_event list, bytes) op" where
  "grpc_client_next = grpc_next (\<lambda>d. Inr (sr_payload d))"

definition grpc_server_next :: "(stream_req grpc_event list, bytes) op" where
  "grpc_server_next = grpc_next (\<lambda>d. unwrap (sq_payload d))"

definition rev_grpc_client_next :: "(rev_stream_res grpc_event list, bytes) op" where
  "rev_grpc_client_next = grpc_next (\<lambda>d. Inr (vr_payload d))"

definition rev_grpc_server_next :: "(rev_stream_req grpc_event list, bytes) op" where
  "rev_grpc_server_next = grpc_next (\<lambda>d. unwrap (vq_payload d))"

definition grpc_client_read :: "grpc_client_stream reader" where
  "grpc_client_read = msg_read grpc_client_next"

definition grpc_server_read :: "grpc_server_stream reader" where
  "grpc_server_read = msg_read grpc_server_next"

definition rev_grpc_client_read :: "rev_grpc_client_stream reader" where
  "rev_grpc_client_read = msg_read rev_grpc_client_next"

definition rev_grpc_server_read :: "rev_grpc_server_stream reader" where
  "rev_grpc_server_read = msg_read rev_grpc_server_next"

definition grpc_client_half_read :: "stream_res grpc_event list cached reader" where
  "grpc_client_half_read = cached_read grpc_client_next"

definition grpc_server_half_read :: "stream_req grpc_event list cached reader" where
  "grpc_server_half_read = cached_read grpc_server_next"

definition rev_grpc_client_half_read :: "rev_stream_res grpc_event list cached reader" where
  "rev_grpc_client_half_read = cached_read rev_grpc_client_next"

definition rev_grpc_server_half_read :: "rev_stream_req grpc_event list cached reader" where
  "rev_grpc_server_half_read = cached_read rev_grpc_server_next"

text \<open>The writes send one message with the buffer as its payload.\<close>

definition send_interrupted :: "'m sender \<Rightarrow> 'm \<Rightarrow> 'm sender \<times> unit io" where
  "send_interrupted w m =
     (case send w m of (w', Inr _) \<Rightarrow> (w', Inr ()) | (w', Inl e) \<Rightarrow> (w', Inl (IoError Interrupted e)))"

definition grpc_client_half_write :: "stream_req sender writer" where
  "grpc_client_half_write w buf = send_interrupted w (stream_req_default\<lparr>sq_payload := Some buf\<rparr>)"

definition grpc_server_half_write :: "stream_res sender writer" where
  "grpc_server_half_write w buf = send_interrupted w \<lparr>sr_payload = buf\<rparr>"

definition rev_grpc_client_half_write :: "rev_stream_req sender writer" where
  "rev_grpc_client_half_write w buf =
     send_interrupted w (rev_stream_req_default\<lparr>vq_payload := Some buf\<rparr>)"

definition rev_grpc_server_half_write :: "rev_stream_res sender writer" where
  "rev_grpc_server_half_write w buf = send_interrupted w \<lparr>vr_payload = buf\<rparr>"

definition msg_write :: "'w writer \<Rightarrow> ('src, 'w, 'x) msg_stream_scheme \<Rightarrow> bytes
    \<Rightarrow> ('src, 'w, 'x) msg_stream_scheme \<times> unit io" where
  "msg_write wr s buf = (case wr (st_writer s) buf of (w, r) \<Rightarrow> (s\<lparr>st_writer := w\<rparr>, r))"

definition grpc_client_write :: "grpc_client_stream writer" where
  "grpc_client_write = msg_write grpc_client_half_write"

definition grpc_server_write :: "grpc_server_stream writer" where
  "grpc_server_write = msg_write grpc_server_half_write"

definition rev_grpc_client_write :: "rev_grpc_client_stream writer" where
  "rev_grpc_client_write = msg_write rev_grpc_client_half_write"

definition rev_grpc_server_write :: "rev_grpc_server_stream writer" where
  "rev_grpc_server_write = msg_write rev_grpc_server_half_write"

text \<open>The first message a forward gRPC client sends, read by the server.\<close>

definition grpc_server_handshake ::
    "grpc_server_stream \<Rightarrow> grpc_server_stream \<times> (run_addr \<times> string) option io" where
  "grpc_server_handshake s =
     (let c = st_reader s;
          got = (\<lambda>r. s\<lparr>st_reader := c\<lparr>ca_reader := r\<rparr>\<rparr>)
      in case ca_reader c of
           GMsg a # r \<Rightarrow>
             (got r,
              io_bind (unwrap (sq_dst_addr a)) (\<lambda>addr.
              io_bind (unwrap (sq_dst_port a)) (\<lambda>port.
                Inr (Some (\<lparr>ra_addr = addr, ra_port = port_of_u32 port, ra_udp = False\<rparr>, sq_auth a)))))
         | GStatus e # r \<Rightarrow> (got r, Inl (IoError Interrupted e))
         | [] \<Rightarrow> (s, Inl (IoError Interrupted ''interrupted'')))"

subsection \<open>Contracts\<close>

interpretation grpc_client_src: payload_source grpc_client_next "grpc_payloads (\<lambda>d. Inr (sr_payload d))"
  unfolding grpc_client_next_def by unfold_locales

interpretation grpc_server_src: payload_source grpc_server_next "grpc_payloads (\<lambda>d. unwrap (sq_payload d))"
  unfolding grpc_server_next_def by unfold_locales

interpretation rev_client_src: payload_source rev_grpc_client_next "grpc_payloads (\<lambda>d. Inr (vr_payload d))"
  unfolding rev_grpc_client_next_def by unfold_locales

interpretation rev_server_src: payload_source rev_grpc_server_next "grpc_payloads (\<lambda>d. unwrap (vq_payload d))"
  unfolding rev_grpc_server_next_def by unfold_locales

text \<open>The payload bytes sent over a channel; a message without a payload carries none.\<close>

definition sent_bytes :: "('m \<Rightarrow> bytes option) \<Rightarrow> 'm sender \<Rightarrow> bytes" where
  "sent_bytes f w = concat (map (\<lambda>m. case f m of None \<Rightarrow> [] | Some p \<Rightarrow> p) (sd_sent w))"

lemma send_interrupted_sink:
  assumes "\<And>buf. f (mk buf) = Some buf"
  shows "byte_sink (\<lambda>w buf. send_interrupted w (mk buf)) (sent_bytes f)"
  using assms
  by unfold_locales
    (auto simp: send_interrupted_def send_def sent_bytes_def split: option.splits sum.splits prod.splits
      intro!: exI [of _ "0 :: nat"])

interpretation grpc_client_sink: byte_sink grpc_client_half_write "sent_bytes sq_payload"
  unfolding grpc_client_half_write_def by (rule send_interrupted_sink) simp

interpretation grpc_server_sink: byte_sink grpc_server_half_write "sent_bytes (\<lambda>m. Some (sr_payload m))"
  unfolding grpc_server_half_write_def by (rule send_interrupted_sink) simp

interpretation rev_client_sink: byte_sink rev_grpc_client_half_write "sent_bytes vq_payload"
  unfolding rev_grpc_client_half_write_def by (rule send_interrupted_sink) simp

interpretation rev_server_sink: byte_sink rev_grpc_server_half_write "sent_bytes (\<lambda>m. Some (vr_payload m))"
  unfolding rev_grpc_server_half_write_def by (rule send_interrupted_sink) simp

text \<open>A stream before it is split writes to the same channel.\<close>

lemma msg_write_sink:
  assumes "byte_sink wr written"
  shows "byte_sink (msg_write wr) (\<lambda>s. written (st_writer s))"
proof
  fix w bs w'
  assume "msg_write wr w bs = (w', Inr ())"
  then obtain v where v: "wr (st_writer w) bs = (v, Inr ())" "w' = w\<lparr>st_writer := v\<rparr>"
    by (auto simp: msg_write_def split: prod.splits)
  from byte_sink.wr_ok [OF assms v(1)] v(2) show "written (st_writer w') = written (st_writer w) @ bs" by simp
next
  fix w bs w' e
  assume "msg_write wr w bs = (w', Inl e)"
  then obtain v where v: "wr (st_writer w) bs = (v, Inl e)" "w' = w\<lparr>st_writer := v\<rparr>"
    by (auto simp: msg_write_def split: prod.splits)
  from byte_sink.wr_err [OF assms v(1)] v(2)
  show "\<exists>k. written (st_writer w') = written (st_writer w) @ take k bs" by simp
qed

interpretation grpc_client_stream_sink: byte_sink grpc_client_write "\<lambda>s. sent_bytes sq_payload (st_writer s)"
  unfolding grpc_client_write_def by (rule msg_write_sink [OF grpc_client_sink.byte_sink_axioms])

interpretation grpc_server_stream_sink: byte_sink grpc_server_write
    "\<lambda>s. sent_bytes (\<lambda>m. Some (sr_payload m)) (st_writer s)"
  unfolding grpc_server_write_def by (rule msg_write_sink [OF grpc_server_sink.byte_sink_axioms])

interpretation rev_client_stream_sink: byte_sink rev_grpc_client_write "\<lambda>s. sent_bytes vq_payload (st_writer s)"
  unfolding rev_grpc_client_write_def by (rule msg_write_sink [OF rev_client_sink.byte_sink_axioms])

interpretation rev_server_stream_sink: byte_sink rev_grpc_server_write
    "\<lambda>s. sent_bytes (\<lambda>m. Some (vr_payload m)) (st_writer s)"
  unfolding rev_grpc_server_write_def by (rule msg_write_sink [OF rev_server_sink.byte_sink_axioms])

section \<open>Streams over framed protobuf messages\<close>

text \<open>
  The reader and the writer of a \<open>pb_tcp\<close> stream are the halves of its TCP connection (the mutexes
  around them are held for a single call).  \<open>pw\<close> and \<open>encrypt\<close> are fields of the streams and of
  their halves.
\<close>

record 'k pb_env =
  pe_crypto :: "'k crypto"
  pe_pw :: string
  pe_encrypt :: bool

definition pb_payload :: "'k pb_env \<Rightarrow> bytes \<Rightarrow> bytes io" where
  "pb_payload env payload =
     (if payload = [] then Inr []
      else if pe_encrypt env then decrypt_bytes (pe_crypto env) payload (pe_pw env)
      else Inr payload)"

definition pb_client_next ::
    "(bytes \<Rightarrow> string + stream_res) \<Rightarrow> 'k pb_env \<Rightarrow> (tcp_read_half, bytes) op" where
  "pb_client_next dec env =
     st_bind (read_msg tcp_half_read dec) (\<lambda>msg s. (s, pb_payload env (sr_payload msg)))"

definition pb_server_next ::
    "(bytes \<Rightarrow> string + stream_req) \<Rightarrow> 'k pb_env \<Rightarrow> (tcp_read_half, bytes) op" where
  "pb_server_next dec env =
     st_bind (read_msg tcp_half_read dec) (\<lambda>msg s.
       (s, pb_payload env (case sq_payload msg of None \<Rightarrow> [] | Some p \<Rightarrow> p)))"

definition pb_client_half_read ::
    "(bytes \<Rightarrow> string + stream_res) \<Rightarrow> 'k pb_env \<Rightarrow> tcp_read_half cached reader" where
  "pb_client_half_read dec env = cached_read (pb_client_next dec env)"

definition pb_server_half_read ::
    "(bytes \<Rightarrow> string + stream_req) \<Rightarrow> 'k pb_env \<Rightarrow> tcp_read_half cached reader" where
  "pb_server_half_read dec env = cached_read (pb_server_next dec env)"

definition pb_seal :: "'k pb_env \<Rightarrow> bytes \<Rightarrow> bytes \<Rightarrow> bytes io" where
  "pb_seal env nonce buf =
     (if pe_encrypt env then encrypt_bytes (pe_crypto env) nonce buf (pe_pw env) else Inr buf)"

text \<open>A write draws a nonce and the random number of the frame.\<close>

definition pb_client_half_write ::
    "(stream_req \<Rightarrow> bytes) \<Rightarrow> 'k pb_env \<Rightarrow> bytes \<Rightarrow> u64 \<Rightarrow> tcp_write_half \<Rightarrow> bytes
      \<Rightarrow> tcp_write_half \<times> unit io" where
  "pb_client_half_write enc env nonce r w buf =
     (case pb_seal env nonce buf of
        Inl e \<Rightarrow> (w, Inl e)
      | Inr payload \<Rightarrow>
          write_frame tcp_half_write enc r (stream_req_default\<lparr>sq_payload := Some payload\<rparr>) w)"

definition pb_server_half_write ::
    "(stream_res \<Rightarrow> bytes) \<Rightarrow> 'k pb_env \<Rightarrow> bytes \<Rightarrow> u64 \<Rightarrow> tcp_write_half \<Rightarrow> bytes
      \<Rightarrow> tcp_write_half \<times> unit io" where
  "pb_server_half_write enc env nonce r w buf =
     (case pb_seal env nonce buf of
        Inl e \<Rightarrow> (w, Inl e)
      | Inr payload \<Rightarrow> write_frame tcp_half_write enc r \<lparr>sr_payload = payload\<rparr> w)"

text \<open>The stream itself keeps the connection halves, the cache, the information and the two fields.\<close>

record 'k pb_stream = "(tcp_read_half, tcp_write_half) msg_stream" +
  ps_env :: "'k pb_env"

definition pb_client_stream_new ::
    "'k crypto \<Rightarrow> tcp_read_half \<Rightarrow> tcp_write_half \<Rightarrow> string \<Rightarrow> bool \<Rightarrow> 'k pb_stream" where
  "pb_client_stream_new cr r w pw encrypt =
     msg_stream.extend (msg_stream_new r w)
       (pb_stream.fields \<lparr>pe_crypto = cr, pe_pw = pw, pe_encrypt = encrypt\<rparr>)"

definition pb_server_stream_new :: "'k crypto \<Rightarrow> tcp_read_half \<Rightarrow> tcp_write_half \<Rightarrow> 'k pb_stream" where
  "pb_server_stream_new cr r w =
     msg_stream.extend (msg_stream_new r w)
       (pb_stream.fields \<lparr>pe_crypto = cr, pe_pw = [], pe_encrypt = False\<rparr>)"

definition pb_client_read :: "(bytes \<Rightarrow> string + stream_res) \<Rightarrow> 'k pb_stream reader" where
  "pb_client_read dec s n = msg_read (pb_client_next dec (ps_env s)) s n"

definition pb_server_read :: "(bytes \<Rightarrow> string + stream_req) \<Rightarrow> 'k pb_stream reader" where
  "pb_server_read dec s n = msg_read (pb_server_next dec (ps_env s)) s n"

definition pb_client_write ::
    "(stream_req \<Rightarrow> bytes) \<Rightarrow> bytes \<Rightarrow> u64 \<Rightarrow> 'k pb_stream \<Rightarrow> bytes \<Rightarrow> 'k pb_stream \<times> unit io" where
  "pb_client_write enc nonce r s buf = msg_write (pb_client_half_write enc (ps_env s) nonce r) s buf"

definition pb_server_write ::
    "(stream_res \<Rightarrow> bytes) \<Rightarrow> bytes \<Rightarrow> u64 \<Rightarrow> 'k pb_stream \<Rightarrow> bytes \<Rightarrow> 'k pb_stream \<times> unit io" where
  "pb_server_write enc nonce r s buf = msg_write (pb_server_half_write enc (ps_env s) nonce r) s buf"

text \<open>The halves keep the two fields of the stream; \<open>split\<close> gives the read half a new cache.\<close>

type_synonym 'k pb_read_half = "tcp_read_half cached \<times> 'k pb_env"
type_synonym 'k pb_write_half = "tcp_write_half \<times> 'k pb_env"
type_synonym 'k pb_server_read_half = "'k pb_read_half"
type_synonym 'k pb_server_write_half = "'k pb_write_half"
type_synonym 'k pb_server_stream = "'k pb_stream"

definition pb_client_split :: "'k pb_stream \<Rightarrow> 'k pb_read_half \<times> 'k pb_write_half" where
  "pb_client_split s = ((cached_new (ca_reader (st_reader s)), ps_env s), (st_writer s, ps_env s))"

definition pb_server_split :: "'k pb_server_stream \<Rightarrow> 'k pb_server_read_half \<times> 'k pb_server_write_half" where
  "pb_server_split s = ((cached_new (ca_reader (st_reader s)), ps_env s), (st_writer s, ps_env s))"

definition pb_client_set_info :: "(stream_info \<Rightarrow> stream_info) \<Rightarrow> 'k pb_stream \<Rightarrow> 'k pb_stream" where
  [simp]: "pb_client_set_info f s = msg_set_info f s"

definition pb_server_set_info :: "(stream_info \<Rightarrow> stream_info) \<Rightarrow> 'k pb_stream \<Rightarrow> 'k pb_stream" where
  [simp]: "pb_server_set_info f s = msg_set_info f s"

text \<open>The six implementations of \<open>split\<close> agree.\<close>

lemma stream_splits [simp]:
  "grpc_server_split s1 = msg_split s1" "rev_grpc_client_split s2 = msg_split s2" "rev_grpc_server_split s3 = msg_split s3"
  "pb_client_split s4 = ((fst (msg_split s4), ps_env s4), (snd (msg_split s4), ps_env s4))"
  "pb_server_split s4 = ((fst (msg_split s4), ps_env s4), (snd (msg_split s4), ps_env s4))"
  by (simp_all add: grpc_server_split_def rev_grpc_client_split_def rev_grpc_server_split_def msg_split_def
      pb_client_split_def pb_server_split_def)

text \<open>The server's handshake: the first message, whose text fields are encrypted.  The stream is only
  changed once everything has been decrypted.\<close>

definition pb_server_handshake ::
    "(bytes \<Rightarrow> string + stream_req) \<Rightarrow> 'k crypto \<Rightarrow> string \<Rightarrow> 'k pb_stream
      \<Rightarrow> 'k pb_stream \<times> (run_addr \<times> string) option io" where
  "pb_server_handshake dec cr pw s =
     (let c = st_reader s in
      case read_msg tcp_half_read dec (ca_reader c) of
        (r, Inl e) \<Rightarrow> (s\<lparr>st_reader := c\<lparr>ca_reader := r\<rparr>\<rparr>, Inl e)
      | (r, Inr req) \<Rightarrow>
          (let s = s\<lparr>st_reader := c\<lparr>ca_reader := r\<rparr>\<rparr>;
               res =
                 io_bind (decrypt_field cr (sq_auth req) pw) (\<lambda>auth.
                 io_bind (case sq_dst_addr req of
                            Some enc \<Rightarrow> decrypt_field cr enc pw
                          | None \<Rightarrow> Inl (IoError Other ''missing dst_addr'')) (\<lambda>dst_addr.
                 case sq_dst_port req of
                   None \<Rightarrow> Inl (IoError Other ''missing dst_port'')
                 | Some dst_port \<Rightarrow> Inr (auth, dst_addr, dst_port)))
           in case res of
                Inl e \<Rightarrow> (s, Inl e)
              | Inr (auth, dst_addr, dst_port) \<Rightarrow>
                  (s\<lparr>ps_env := \<lparr>pe_crypto = cr, pe_pw = pw, pe_encrypt = (dst_port \<noteq> 443)\<rparr>\<rparr>,
                   Inr (Some (\<lparr>ra_addr = dst_addr, ra_port = port_of_u32 dst_port,
                               ra_udp = False\<rparr>, auth)))))"

subsection \<open>The payloads a connection still delivers\<close>

text \<open>
  The frames at the front of a byte string: the data of a frame and the bytes after it, if the
  string starts with one that \<open>read_frame\<close> accepts.
\<close>

definition split_frame :: "bytes \<Rightarrow> (bytes \<times> bytes) option" where
  "split_frame b =
     (if length b < 16 then None
      else
        let len = unat (of_be64 (take 8 b) + of_be64 (take 8 (drop 8 b)))
        in if max_frame < len \<or> length b < 16 + len then None
           else Some (take len (drop 16 b), drop (16 + len) b))"

function framed_payloads :: "(bytes \<Rightarrow> string + 'm) \<Rightarrow> ('m \<Rightarrow> bytes io) \<Rightarrow> bytes \<Rightarrow> bytes" where
  "framed_payloads dec f b =
     (case split_frame b of
        None \<Rightarrow> []
      | Some (d, rest) \<Rightarrow>
          (case dec d of
             Inl e \<Rightarrow> []
           | Inr m \<Rightarrow>
               (case f m of Inl e \<Rightarrow> [] | Inr p \<Rightarrow> p @ framed_payloads dec f rest)))"
  by pat_completeness auto
termination
  by (relation "measure (\<lambda>(dec, f, b). length b)")
    (auto simp: split_frame_def Let_def split: if_splits)

declare framed_payloads.simps [simp del]

lemma split_frame_frame:
  assumes "length d \<le> max_frame"
  shows "split_frame (frame_bytes r d @ rest) = Some (d, rest)"
proof -
  have "unat (word_of_nat (length d) :: u64) = length d"
    using assms by (simp add: unat_of_nat take_bit_eq_mod max_frame_def)
  with assms show ?thesis
    by (simp add: split_frame_def frame_bytes_def Let_def)
qed

lemma framed_payloads_frame:
  assumes "length d \<le> max_frame"
  shows "framed_payloads dec f (frame_bytes r d @ rest) =
    (case dec d of Inl e \<Rightarrow> [] | Inr m \<Rightarrow>
       (case f m of Inl e \<Rightarrow> [] | Inr p \<Rightarrow> p @ framed_payloads dec f rest))"
  by (simp add: framed_payloads.simps [of dec f "frame_bytes r d @ rest"] split_frame_frame [OF assms])

lemma framed_source:
  "payload_source (st_bind (read_msg tcp_half_read dec) (\<lambda>msg s. (s, f msg)))
     (\<lambda>h. framed_payloads dec f (tcp_pending h))"
proof
  fix s s' p
  assume "st_bind (read_msg tcp_half_read dec) (\<lambda>msg s. (s, f msg)) s = (s', Inr p)"
  then obtain d m where d: "read_frame tcp_half_read s = (s', Inr d)" and m: "dec d = Inr m" "f m = Inr p"
    by (auto simp: st_bind_eq_Inr read_msg_eq_Inr)
  from tcp_half.read_frame_prefix [OF d] m
  show "framed_payloads dec f (tcp_pending s) = p @ framed_payloads dec f (tcp_pending s')"
    by (auto simp: framed_payloads_frame)
qed

definition pb_client_payload :: "'k pb_env \<Rightarrow> stream_res \<Rightarrow> bytes io" where
  "pb_client_payload env msg = pb_payload env (sr_payload msg)"

definition pb_server_payload :: "'k pb_env \<Rightarrow> stream_req \<Rightarrow> bytes io" where
  "pb_server_payload env msg = pb_payload env (case sq_payload msg of None \<Rightarrow> [] | Some p \<Rightarrow> p)"

interpretation pb_client_src: payload_source "pb_client_next dec env"
    "\<lambda>h. framed_payloads dec (pb_client_payload env) (tcp_pending h)" for dec env
  using framed_source [of dec "pb_client_payload env"]
  by (simp add: pb_client_next_def pb_client_payload_def)

interpretation pb_server_src: payload_source "pb_server_next dec env"
    "\<lambda>h. framed_payloads dec (pb_server_payload env) (tcp_pending h)" for dec env
  using framed_source [of dec "pb_server_payload env"]
  by (simp add: pb_server_next_def pb_server_payload_def)


section \<open>Series of writes\<close>

fun write_many :: "'w writer \<Rightarrow> bytes list \<Rightarrow> ('w, unit) op" where
  "write_many wr [] = st_ret ()"
| "write_many wr (c # cs) = st_bind (\<lambda>w. wr w c) (\<lambda>_. write_many wr cs)"

lemma write_many_sends:
  assumes "\<And>w buf. wr w buf = send_interrupted w (mk buf)" and "sd_closed w = None"
  shows "write_many wr cs w = (w\<lparr>sd_sent := sd_sent w @ map mk cs\<rparr>, Inr ())"
  using assms(2) by (induction cs arbitrary: w) (simp_all add: assms(1) st_bind_def send_interrupted_def send_def)

lemma grpc_payloads_map:
  "(\<And>c. f (mk c) = Inr c) \<Longrightarrow> grpc_payloads f (map GMsg (map mk cs)) = concat cs"
  by (induction cs) simp_all

lemma tunnel_one:
  assumes "\<And>w buf. wr w buf = send_interrupted w (mk buf)" and "\<And>c. f (mk c) = Inr c"
    and "sd_closed w = None"
  shows "\<exists>ms. write_many wr cs w = (w\<lparr>sd_sent := sd_sent w @ ms\<rparr>, Inr ())
    \<and> cached_pending (grpc_payloads f) (cached_new (map GMsg ms)) = concat cs"
  using write_many_sends [of wr mk w cs, OF assms(1,3)] grpc_payloads_map [of f mk cs, OF assms(2)]
  by (intro exI [of _ "map mk cs"]) (simp add: cached_pending_def cached_new_def)

text \<open>Writes over a framed connection, each with its nonce and random number.\<close>

fun pb_write_many ::
    "(bytes \<Rightarrow> u64 \<Rightarrow> tcp_write_half \<Rightarrow> bytes \<Rightarrow> tcp_write_half \<times> unit io)
      \<Rightarrow> (bytes \<times> u64 \<times> bytes) list \<Rightarrow> (tcp_write_half, unit) op" where
  "pb_write_many wr [] = st_ret ()"
| "pb_write_many wr ((nonce, r, c) # cs) =
     st_bind (\<lambda>w. wr nonce r w c) (\<lambda>_. pb_write_many wr cs)"

definition chunk_ok :: "('m \<Rightarrow> bytes) \<Rightarrow> (bytes \<Rightarrow> 'm) \<Rightarrow> 'k pb_env \<Rightarrow> bytes \<times> u64 \<times> bytes \<Rightarrow> bool" where
  "chunk_ok enc mk env x \<longleftrightarrow> (case x of (nonce, r, c) \<Rightarrow>
     length nonce = nonce_len \<and> length c < 2 ^ 32
   \<and> (\<forall>p. pb_seal env nonce c = Inr p \<longrightarrow> length (enc (mk p)) \<le> max_frame))"

lemma pb_seal_ok:
  assumes "crypto_ok (pe_crypto env)" and "length nonce = nonce_len" and "length c < 2 ^ 32"
  shows "\<exists>p. pb_seal env nonce c = Inr p \<and> pb_payload env p = Inr c"
proof (cases "pe_encrypt env")
  case True
  with encrypt_bytes_ok [OF assms, of "pe_pw env"] show ?thesis
    by (auto simp: pb_seal_def pb_payload_def)
next
  case False
  then show ?thesis by (simp add: pb_seal_def pb_payload_def)
qed

lemma pb_write_many_payloads:
  assumes codec: "codec_ok enc dec" and cr: "crypto_ok (pe_crypto env)"
    and wr: "\<And>nonce r w c. wr nonce r w c = (case pb_seal env nonce c of Inl e \<Rightarrow> (w, Inl e)
        | Inr p \<Rightarrow> write_frame tcp_half_write enc r (mk p) w)"
    and f: "\<And>p. f (mk p) = pb_payload env p"
  shows "tw_err w = None \<Longrightarrow> \<forall>x \<in> set cs. chunk_ok enc mk env x \<Longrightarrow>
    \<exists>w' b. pb_write_many wr cs w = (w', Inr ()) \<and> tw_tx w' = tw_tx w @ b \<and> tw_err w' = None
      \<and> (\<forall>rest. framed_payloads dec f (b @ rest) = concat (map (\<lambda>(n, r, c). c) cs)
            @ framed_payloads dec f rest)"
proof (induction cs arbitrary: w)
  case Nil
  then show ?case by simp
next
  case (Cons x cs)
  obtain nonce r c where x: "x = (nonce, r, c)" by (cases x)
  with Cons.prems(2) have ok: "length nonce = nonce_len" "length c < 2 ^ 32"
    "\<And>p. pb_seal env nonce c = Inr p \<Longrightarrow> length (enc (mk p)) \<le> max_frame"
    by (auto simp: chunk_ok_def)
  from pb_seal_ok [OF cr ok(1,2)] obtain p
    where p: "pb_seal env nonce c = Inr p" "pb_payload env p = Inr c" by blast
  let ?fr = "frame_bytes r (enc (mk p))"
  let ?w = "w\<lparr>tw_tx := tw_tx w @ ?fr\<rparr>"
  have w: "wr nonce r w c = (?w, Inr ())"
    using Cons.prems(1) by (simp add: wr p(1) tcp_write_frame)
  from Cons.IH [of ?w] Cons.prems obtain w' b where wb: "pb_write_many wr cs ?w = (w', Inr ())"
    "tw_tx w' = tw_tx ?w @ b" "tw_err w' = None"
    "\<forall>rest. framed_payloads dec f (b @ rest) = concat (map (\<lambda>(n, r, c). c) cs) @ framed_payloads dec f rest"
    by auto
  have "framed_payloads dec f ((?fr @ b) @ rest) = c @ framed_payloads dec f (b @ rest)" for rest
    using framed_payloads_frame [OF ok(3) [OF p(1)], of dec f r "b @ rest"] codec p(2)
    by (simp add: codec_ok_def f)
  with wb w show ?case
    by (intro exI [of _ w'] exI [of _ "?fr @ b"]) (simp add: x st_bind_def)
qed

section \<open>Properties\<close>

text \<open>C10: Every message stream is a byte stream: with buffers of any sizes, a series of reads on the
  read half of a gRPC, reverse gRPC or framed TCP stream, client or server, returns exactly the
  next bytes of the concatenated payloads, in order; what did not fit a buffer is still pending.\<close>

theorem message_streams_in_order:
  "(read_many grpc_client_half_read c1 ns = (d1, Inr b1) \<longrightarrow>
      cached_pending (grpc_payloads (\<lambda>d. Inr (sr_payload d))) c1 =
      b1 @ cached_pending (grpc_payloads (\<lambda>d. Inr (sr_payload d))) d1)
   \<and> (read_many grpc_server_half_read c2 ns = (d2, Inr b2) \<longrightarrow>
      cached_pending (grpc_payloads (\<lambda>d. unwrap (sq_payload d))) c2 =
      b2 @ cached_pending (grpc_payloads (\<lambda>d. unwrap (sq_payload d))) d2)
   \<and> (read_many rev_grpc_client_half_read c3 ns = (d3, Inr b3) \<longrightarrow>
      cached_pending (grpc_payloads (\<lambda>d. Inr (vr_payload d))) c3 =
      b3 @ cached_pending (grpc_payloads (\<lambda>d. Inr (vr_payload d))) d3)
   \<and> (read_many rev_grpc_server_half_read c4 ns = (d4, Inr b4) \<longrightarrow>
      cached_pending (grpc_payloads (\<lambda>d. unwrap (vq_payload d))) c4 =
      b4 @ cached_pending (grpc_payloads (\<lambda>d. unwrap (vq_payload d))) d4)
   \<and> (read_many (pb_client_half_read dec5 env) c5 ns = (d5, Inr b5) \<longrightarrow>
      cached_pending (\<lambda>h. framed_payloads dec5 (pb_client_payload env) (tcp_pending h)) c5 =
      b5 @ cached_pending (\<lambda>h. framed_payloads dec5 (pb_client_payload env) (tcp_pending h)) d5)
   \<and> (read_many (pb_server_half_read dec6 env) c5 ns = (d6, Inr b6) \<longrightarrow>
      cached_pending (\<lambda>h. framed_payloads dec6 (pb_server_payload env) (tcp_pending h)) c5 =
      b6 @ cached_pending (\<lambda>h. framed_payloads dec6 (pb_server_payload env) (tcp_pending h)) d6)"
  unfolding grpc_client_half_read_def grpc_server_half_read_def rev_grpc_client_half_read_def
    rev_grpc_server_half_read_def pb_client_half_read_def pb_server_half_read_def
  by (intro conjI impI)
    (erule grpc_client_src.cached.read_many_prefix grpc_server_src.cached.read_many_prefix
      rev_client_src.cached.read_many_prefix rev_server_src.cached.read_many_prefix
      pb_client_src.cached.read_many_prefix pb_server_src.cached.read_many_prefix)+

lemma message_streams_in_order_witness:
  "read_many grpc_client_half_read
      (cached_new [GMsg \<lparr>sr_payload = [1, 2, 3]\<rparr>, GMsg \<lparr>sr_payload = [4]\<rparr>]) [2, 2, 2]
    = (\<lparr>ca_reader = [], ca_cache = [], ca_pos = 0\<rparr>, Inr [1, 2, 3, 4])
   \<and> cached_pending (grpc_payloads (\<lambda>d. Inr (sr_payload d)))
      (cached_new [GMsg \<lparr>sr_payload = [1, 2, 3]\<rparr>, GMsg \<lparr>sr_payload = [4]\<rparr>]) = [1, 2, 3, 4]"
proof -
  let ?c = "cached_new [GMsg \<lparr>sr_payload = [1, 2, 3]\<rparr>, GMsg \<lparr>sr_payload = [4]\<rparr>]"
  have r: "read_many grpc_client_half_read ?c [2, 2, 2] =
      (\<lparr>ca_reader = [], ca_cache = [], ca_pos = 0\<rparr>, Inr [1, 2, 3, 4])" by code_simp
  from conjunct1 [OF message_streams_in_order, rule_format, OF r] r
  show ?thesis by (simp add: cached_pending_def)
qed

text \<open>A gRPC tunnel carries bytes unchanged in both directions and for both services: any chunks
  written to one end, as the messages the channel delivers to the other end, are there a byte
  stream that is the concatenation of the chunks.\<close>

theorem grpc_tunnel_roundtrip:
  assumes "sd_closed w1 = None" and "sd_closed w2 = None" and "sd_closed w3 = None" and "sd_closed w4 = None"
  shows "(\<exists>ms. write_many grpc_client_half_write cs w1 = (w1\<lparr>sd_sent := sd_sent w1 @ ms\<rparr>, Inr ())
            \<and> cached_pending (grpc_payloads (\<lambda>d. unwrap (sq_payload d))) (cached_new (map GMsg ms)) = concat cs)
       \<and> (\<exists>ms. write_many grpc_server_half_write cs w2 = (w2\<lparr>sd_sent := sd_sent w2 @ ms\<rparr>, Inr ())
            \<and> cached_pending (grpc_payloads (\<lambda>d. Inr (sr_payload d))) (cached_new (map GMsg ms)) = concat cs)
       \<and> (\<exists>ms. write_many rev_grpc_client_half_write cs w3 = (w3\<lparr>sd_sent := sd_sent w3 @ ms\<rparr>, Inr ())
            \<and> cached_pending (grpc_payloads (\<lambda>d. unwrap (vq_payload d))) (cached_new (map GMsg ms)) = concat cs)
       \<and> (\<exists>ms. write_many rev_grpc_server_half_write cs w4 = (w4\<lparr>sd_sent := sd_sent w4 @ ms\<rparr>, Inr ())
            \<and> cached_pending (grpc_payloads (\<lambda>d. Inr (vr_payload d))) (cached_new (map GMsg ms)) = concat cs)"
  by (intro conjI) (rule tunnel_one [OF grpc_client_half_write_def _ assms(1)]
      tunnel_one [OF grpc_server_half_write_def _ assms(2)]
      tunnel_one [OF rev_grpc_client_half_write_def _ assms(3)]
      tunnel_one [OF rev_grpc_server_half_write_def _ assms(4)]; simp)+

lemma grpc_tunnel_roundtrip_witness:
  "\<exists>ms. write_many grpc_client_half_write [[1], [2, 3]] \<lparr>sd_sent = [], sd_closed = None\<rparr>
        = (\<lparr>sd_sent = ms, sd_closed = None\<rparr>, Inr ())
      \<and> cached_pending (grpc_payloads (\<lambda>d. unwrap (sq_payload d))) (cached_new (map GMsg ms)) = [1, 2, 3]"
proof -
  let ?w = "\<lparr>sd_sent = [], sd_closed = None\<rparr>"
  have "sd_closed \<lparr>sd_sent = [], sd_closed = None\<rparr> = None" by simp
  from grpc_tunnel_roundtrip [OF this this this this, of "[[1], [2, 3]]"] show ?thesis by simp
qed


definition demo_env :: "u8 pb_env" where
  "demo_env = \<lparr>pe_crypto = toy_crypto, pe_pw = ''pw'', pe_encrypt = True\<rparr>"


text \<open>Splitting a stream keeps the connection but not the cache: the bytes of a payload that a
  read before the split did not take are lost, so nothing is lost exactly when the cache was
  used up.\<close>

theorem split_drops_cache:
  "cached_pending payloads (st_reader s) =
     drop (ca_pos (st_reader s)) (ca_cache (st_reader s)) @ cached_pending payloads (fst (msg_split s))
   \<and> (cached_pending payloads (st_reader s) = cached_pending payloads (fst (msg_split s)) \<longleftrightarrow>
        length (ca_cache (st_reader s)) \<le> ca_pos (st_reader s))"
  by (simp add: cached_pending_def msg_split_def cached_new_def)

end
