(* ===== verification/Config.thy ===== *)
theory Config
  imports Run_Def
begin

text \<open>
  The configuration: the structures of \<open>src/def/config.rs\<close>, \<open>ObjectConfig::build\<close> of
  \<open>src/object/config.rs\<close>, \<open>parse_size\<close> and \<open>get_total_memory\<close> of \<open>src/util/parse.rs\<close>, the size of
  the buffer pool computed in \<open>src/main.rs\<close>, and \<open>parse_address\<close> of \<open>src/connector/grpc.rs\<close>.

  A TOML value is opaque: the only thing the code asks of it, \<open>as_bool\<close>, is an argument.  The
  floating-point operations on a percentage and the files the memory size is read from are
  arguments too.  Multiplications wrap, as in the release build.
\<close>

section \<open>Structures\<close>

record 'v reverse_server =
  rv_endpoint :: string
  rv_options :: "(string \<rightharpoonup> 'v) option"

record 'v connector_cfg =
  cc_endpoint :: "string option"
  cc_name :: string
  cc_user :: "string option"
  cc_pw :: "string option"
  cc_proto :: string
  cc_options :: "(string \<rightharpoonup> 'v) option"

record route_rule =
  rr_name :: string
  rr_select :: string
  rr_exclude :: "string list"
  rr_domain_to_ip :: "bool option"
  rr_dns :: "string option"

record router_cfg =
  rc_name :: string
  rc_default :: string
  rc_route_rules :: "route_rule list option"

record 'v listener_cfg =
  lc_endpoint :: string
  lc_name :: string
  lc_user :: "string option"
  lc_pw :: "string option"
  lc_proto :: string
  lc_router :: string
  lc_options :: "(string \<rightharpoonup> 'v) option"

record route_data =
  rt_name :: string
  rt_url :: "string option"
  rt_format :: string
  rt_data :: "string option"

record 'v config =
  cg_reverse_server :: "'v reverse_server option"
  cg_listener :: "'v listener_cfg list"
  cg_router :: "router_cfg list"
  cg_data :: "route_data list option"
  cg_connector :: "'v connector_cfg list"
  cg_server_id :: "string option"
  cg_buffer_size :: "string option"

definition get_option_bool :: "('v \<Rightarrow> bool option) \<Rightarrow> (string \<rightharpoonup> 'v) option \<Rightarrow> string \<Rightarrow> bool" where
  "get_option_bool as_bool options key =
     (case options of None \<Rightarrow> False
      | Some m \<Rightarrow> (case m key of None \<Rightarrow> False
                   | Some v \<Rightarrow> (case as_bool v of None \<Rightarrow> False | Some b \<Rightarrow> b)))"

section \<open>The configuration of a listener\<close>

record 'v object_config =
  oc_listener :: "'v listener_cfg"
  oc_connector :: "string \<rightharpoonup> 'v connector_cfg"
  oc_server_id :: string

fun find_listener :: "string \<Rightarrow> 'v listener_cfg list \<Rightarrow> 'v listener_cfg option" where
  "find_listener name [] = None"
| "find_listener name (l # ls) = (if name = lc_name l then Some l else find_listener name ls)"

definition connector_map :: "'v connector_cfg list \<Rightarrow> string \<rightharpoonup> 'v connector_cfg" where
  "connector_map cs = foldl (\<lambda>m c. m(cc_name c \<mapsto> c)) Map.empty cs"

definition object_config_build :: "string \<Rightarrow> 'v config \<Rightarrow> string \<Rightarrow> 'v object_config io" where
  "object_config_build name cfg server_id =
     io_bind (unwrap (find_listener name (cg_listener cfg))) (\<lambda>listener.
       Inr \<lparr>oc_listener = listener, oc_connector = connector_map (cg_connector cfg),
            oc_server_id = server_id\<rparr>)"

lemma find_listener_Some:
  "find_listener name ls = Some l \<Longrightarrow> l \<in> set ls \<and> lc_name l = name"
  by (induction ls) (auto split: if_splits)

lemma find_listener_None: "find_listener name ls = None \<longleftrightarrow> name \<notin> lc_name ` set ls"
  by (induction ls) auto

lemma connector_map_find:
  "connector_map cs n = find (\<lambda>c. cc_name c = n) (rev cs)"
proof (induction cs rule: rev_induct)
  case Nil
  then show ?case by (simp add: connector_map_def)
next
  case (snoc c cs)
  then show ?case by (simp add: connector_map_def)
qed

section \<open>Sizes\<close>

record 'f float_ops =
  fl_parse :: "string \<Rightarrow> 'f option"
  fl_not_percent :: "'f \<Rightarrow> bool"
  fl_share :: "u64 \<Rightarrow> 'f \<Rightarrow> u64"

text \<open>The files \<open>get_total_memory\<close> reads: the two cgroup limits, and the lines of
  \<open>/proc/meminfo\<close> or the error of opening it.\<close>

record memory_files =
  mf_cgroup2 :: "string option"
  mf_cgroup1 :: "string option"
  mf_meminfo :: "fault + (fault + string) list"

definition is_ws :: "char \<Rightarrow> bool" where
  "is_ws c \<longleftrightarrow> ascii_ws (of_char c)"

function split_whitespace :: "string \<Rightarrow> string list" where
  "split_whitespace s =
     (let s = dropWhile is_ws s in
      if s = [] then []
      else takeWhile (\<lambda>c. \<not> is_ws c) s # split_whitespace (dropWhile (\<lambda>c. \<not> is_ws c) s))"
  by pat_completeness auto
termination
proof (relation "measure length", goal_cases)
  case (2 s x)
  then have "x \<noteq> []" and x: "x = dropWhile is_ws s" by auto
  then have "\<not> is_ws (hd x)" by (simp add: hd_dropWhile)
  with \<open>x \<noteq> []\<close> have "length (dropWhile (\<lambda>c. \<not> is_ws c) x) < length x"
    by (cases x) (auto simp: le_imp_less_Suc length_dropWhile_le)
  also have "length x \<le> length s" using x by (simp add: length_dropWhile_le)
  finally show ?case by simp
qed simp

declare split_whitespace.simps [simp del]

fun meminfo_total :: "(fault + string) list \<Rightarrow> u64 io" where
  "meminfo_total [] = Inl (IoError Other ''could not determine total memory'')"
| "meminfo_total (Inl e # ls) = Inl e"
| "meminfo_total (Inr l # ls) =
     (if starts_with l ''MemTotal:'' then
        (case split_whitespace l of
           _ # kb # _ \<Rightarrow> (case parse_u64 kb of Some kb \<Rightarrow> Inr (kb * 1024) | None \<Rightarrow> meminfo_total ls)
         | _ \<Rightarrow> meminfo_total ls)
      else meminfo_total ls)"

definition get_total_memory :: "memory_files \<Rightarrow> u64 io" where
  "get_total_memory mf =
     (let meminfo = (case mf_meminfo mf of Inl e \<Rightarrow> Inl e | Inr ls \<Rightarrow> meminfo_total ls);
          cgroup1 = (case mf_cgroup1 mf of None \<Rightarrow> meminfo
                     | Some limit \<Rightarrow> (case parse_u64 (trim limit) of None \<Rightarrow> meminfo
                         | Some bytes \<Rightarrow> if bytes < 9223372036854771712 then Inr bytes else meminfo))
      in case mf_cgroup2 mf of None \<Rightarrow> cgroup1
         | Some limit \<Rightarrow> (case parse_u64 (trim limit) of None \<Rightarrow> cgroup1
             | Some bytes \<Rightarrow> if bytes < 18446744073709551615 then Inr bytes else cgroup1))"

definition drop_end :: "nat \<Rightarrow> string \<Rightarrow> string" where
  "drop_end k s = take (length s - k) s"

text \<open>The number and the multiplier of a size with a unit.\<close>

definition size_parts :: "string \<Rightarrow> (string \<times> u64) option" where
  "size_parts s =
     (if ends_with s ''kb'' \<or> ends_with s ''k'' then
        Some (drop_end (if ends_with s ''kb'' then 2 else 1) s, 1024)
      else if ends_with s ''mb'' \<or> ends_with s ''m'' then
        Some (drop_end (if ends_with s ''mb'' then 2 else 1) s, 1024 * 1024)
      else if ends_with s ''gb'' \<or> ends_with s ''g'' then
        Some (drop_end (if ends_with s ''gb'' then 2 else 1) s, 1024 * 1024 * 1024)
      else if ends_with s ''b'' then Some (drop_end 1 s, 1)
      else None)"

definition parse_size :: "'f float_ops \<Rightarrow> memory_files \<Rightarrow> string \<Rightarrow> u64 io" where
  "parse_size fl mf s =
     (let s = to_lowercase (trim s) in
      if s = ''off'' \<or> s = [] then Inr 0
      else if ends_with s ''%'' then
        (case fl_parse fl (drop_end 1 s) of
           None \<Rightarrow> Inl (IoError InvalidInput ''invalid percentage format'')
         | Some percent \<Rightarrow>
             if fl_not_percent fl percent
             then Inl (IoError InvalidInput ''percentage must be between 0 and 100'')
             else io_bind (get_total_memory mf) (\<lambda>total. Inr (fl_share fl total percent)))
      else
        (case size_parts s of
           None \<Rightarrow>
             (case parse_u64 s of
                Some bytes \<Rightarrow> Inr bytes
              | None \<Rightarrow> Inl (IoError InvalidInput ''invalid size format''))
         | Some (num_str, multiplier) \<Rightarrow>
             (case parse_u64 (trim num_str) of
                Some num \<Rightarrow> Inr (num * multiplier)
              | None \<Rightarrow> Inl (IoError InvalidInput ''invalid number format''))))"

definition div_ceil :: "u64 \<Rightarrow> u64 \<Rightarrow> u64" where
  "div_ceil a b = (if a mod b = 0 then a div b else a div b + 1)"

text \<open>The number of blocks of the pool; no pool when the size is zero.\<close>

definition buffer_blocks :: "'f float_ops \<Rightarrow> memory_files \<Rightarrow> string option \<Rightarrow> u64 option io" where
  "buffer_blocks fl mf sz =
     io_bind (case sz of Some n \<Rightarrow> parse_size fl mf n | None \<Rightarrow> Inr 0) (\<lambda>buffer_size.
       Inr (if 0 < buffer_size then Some (div_ceil buffer_size 2048) else None))"

section \<open>Addresses\<close>

definition parse_address :: "string \<Rightarrow> (string \<times> u16) io" where
  "parse_address addr =
     (case rsplit_once CHR '':'' addr of
        None \<Rightarrow> Inl (IoError InvalidData ''addr error'')
      | Some (host, port) \<Rightarrow>
          (case parse_u16 port of
             None \<Rightarrow> Inl (IoError InvalidData ''addr port error'')
           | Some port \<Rightarrow>
               if host = [] then Inl (IoError InvalidData ''host empty error'')
               else Inr (host, port)))"

lemma parse_address_endpoint:
  "ra_addr a \<noteq> [] \<Longrightarrow> parse_address (endpoint a) = Inr (ra_addr a, ra_port a)"
  by (simp add: parse_address_def endpoint_def rsplit_once_append)


section \<open>Sizes in units\<close>

lemma printable_trim:
  assumes "\<forall>c \<in> set s. 33 \<le> (of_char c :: nat) \<and> (of_char c :: nat) < 128"
  shows "trim s = s"
proof -
  have start: "trim_start t = t"
    if "\<forall>c \<in> set t. 33 \<le> (of_char c :: nat) \<and> (of_char c :: nat) < 128" for t
    using that by (cases t rule: trim_start.cases) (auto simp: ascii_ws_def wide_ws_def)
  have "trim_rev t = t"
    if "\<forall>c \<in> set t. 33 \<le> (of_char c :: nat) \<and> (of_char c :: nat) < 128" for t
    using that by (cases t rule: trim_rev.cases) (auto simp: ascii_ws_def wide_ws_def)
  with start assms show ?thesis by (simp add: trim_def)
qed

lemma ascii_lowercase:
  "\<forall>c \<in> set s. (of_char c :: nat) < 128 \<Longrightarrow> to_lowercase s = map to_lower_ascii s"
  by (induction s rule: to_lowercase.induct) auto

lemma lower_show_dec: "map to_lower_ascii (show_dec n) = show_dec n"
  using show_dec_chars by (intro map_idI) (fastforce simp: to_lower_ascii_def Let_def)

lemma ends_with_rev: "ends_with s p \<longleftrightarrow> starts_with (rev s) (rev p)"
  by (simp add: ends_with_iff starts_with_iff) (metis rev_append rev_rev_ident)

definition size_units :: "(string \<times> nat) list" where
  "size_units = [([], 1), (''b'', 1), (''B'', 1), (''k'', 1024), (''K'', 1024), (''kb'', 1024),
     (''KB'', 1024), (''m'', 1048576), (''M'', 1048576), (''mb'', 1048576), (''MB'', 1048576),
     (''g'', 1073741824), (''G'', 1073741824), (''gb'', 1073741824), (''GB'', 1073741824)]"

lemma show_dec_last:
  "\<exists>c r. rev (show_dec n) = c # r \<and> c \<notin> set ''bkmgBKMG%f''"
proof (cases "rev (show_dec n)")
  case (Cons c r)
  then have "c \<in> set (show_dec n)" by (metis list.set_intros(1) set_rev)
  then have "48 \<le> (of_char c :: nat) \<and> (of_char c :: nat) \<le> 57" by (rule show_dec_chars)
  then have "c \<notin> set ''bkmgBKMG%f''" by auto
  with Cons show ?thesis by blast
qed simp

lemma size_chars: "(u, k) \<in> set size_units \<Longrightarrow> c \<in> set (show_dec n @ u) \<Longrightarrow>
    33 \<le> (of_char c :: nat) \<and> (of_char c :: nat) < 128"
  using show_dec_chars [of c n] by (auto simp: size_units_def)

lemma size_normal:
  assumes "(u, k) \<in> set size_units"
  shows "to_lowercase (trim (show_dec n @ u)) = show_dec n @ map to_lower_ascii u"
proof -
  have "trim (show_dec n @ u) = show_dec n @ u"
    using size_chars [OF assms] by (intro printable_trim) blast
  moreover have "to_lowercase (show_dec n @ u) = map to_lower_ascii (show_dec n @ u)"
    using size_chars [OF assms] by (intro ascii_lowercase) blast
  ultimately show ?thesis by (simp add: lower_show_dec)
qed

lemma size_ends:
  assumes "rev s = c # r" and "c \<notin> set ''bkmgBKMG%f''" and "0 < length s"
  shows "size_parts s = None" and "\<not> ends_with s ''%''" and "s \<noteq> ''off'' \<and> s \<noteq> []"
    and "size_parts (s @ ''b'') = Some (s, 1)"
    and "size_parts (s @ ''k'') = Some (s, 1024)" and "size_parts (s @ ''kb'') = Some (s, 1024)"
    and "size_parts (s @ ''m'') = Some (s, 1048576)" and "size_parts (s @ ''mb'') = Some (s, 1048576)"
    and "size_parts (s @ ''g'') = Some (s, 1073741824)" and "size_parts (s @ ''gb'') = Some (s, 1073741824)"
  using assms by (auto simp: size_parts_def ends_with_rev starts_with_def drop_end_def)

definition lower_units :: "(string \<times> nat) list" where
  "lower_units = [([], 1), (''b'', 1), (''k'', 1024), (''kb'', 1024), (''m'', 1048576),
     (''mb'', 1048576), (''g'', 1073741824), (''gb'', 1073741824)]"

lemma lower_letters:
  "to_lower_ascii CHR ''b'' = CHR ''b''" "to_lower_ascii CHR ''B'' = CHR ''b''"
  "to_lower_ascii CHR ''k'' = CHR ''k''" "to_lower_ascii CHR ''K'' = CHR ''k''"
  "to_lower_ascii CHR ''m'' = CHR ''m''" "to_lower_ascii CHR ''M'' = CHR ''m''"
  "to_lower_ascii CHR ''g'' = CHR ''g''" "to_lower_ascii CHR ''G'' = CHR ''g''"
  by code_simp+

lemma unit_lower: "(u, k) \<in> set size_units \<Longrightarrow> (map to_lower_ascii u, k) \<in> set lower_units"
  unfolding size_units_def lower_units_def
  by (simp only: set_simps insert_iff empty_iff prod.inject simp_thms) (elim disjE conjE; hypsubst; simp only: list.map lower_letters simp_thms)

lemma lower_unit_ends:
  assumes "(l, k) \<in> set lower_units" and "rev s = c # r" and "c \<notin> set ''bkmgBKMG%f''"
  shows "s @ l \<noteq> ''off'' \<and> s @ l \<noteq> [] \<and> \<not> ends_with (s @ l) ''%''
    \<and> size_parts (s @ l) = (if l = [] then None else Some (s, word_of_nat k))"
proof -
  have e: "rev (s @ l) = rev l @ c # r" using assms(2) by simp
  have "0 < length s" using assms(2) by auto
  note sz = size_ends [OF assms(2,3) this]
  have "l = [] \<or> (\<exists>x m. rev l = x # m \<and> x \<noteq> CHR ''%'' \<and> x \<noteq> CHR ''f'')"
    using assms(1) by (simp add: lower_units_def) (elim disjE; simp)
  moreover have "c \<noteq> CHR ''%'' \<and> c \<noteq> CHR ''f''" using assms(3) by simp
  ultimately obtain x m where x: "rev (s @ l) = x # m" "x \<noteq> CHR ''%''" "x \<noteq> CHR ''f''"
    unfolding e by auto
  from x(1,2) have pc: "\<not> ends_with (s @ l) ''%''" by (simp add: ends_with_rev starts_with_def)
  have "rev (s @ l) \<noteq> rev ''off''" using x by simp
  then have "s @ l \<noteq> ''off''" by metis
  moreover have "s @ l \<noteq> []" using \<open>0 < length s\<close> by simp
  moreover have "size_parts (s @ l) = (if l = [] then None else Some (s, word_of_nat k))"
    using assms(1) sz by (simp add: lower_units_def) (elim disjE; simp)
  ultimately show ?thesis using pc by blast
qed

lemma parse_size_plain:
  assumes "(u, k) \<in> set size_units" and "n < 2 ^ 64"
  shows "parse_size fl mf (show_dec n @ u) = Inr (word_of_nat n * word_of_nat k)"
proof -
  obtain c r where c: "rev (show_dec n) = c # r" "c \<notin> set ''bkmgBKMG%f''"
    using show_dec_last by blast
  let ?l = "map to_lower_ascii u"
  from lower_unit_ends [OF unit_lower [OF assms(1)] c]
  have l: "show_dec n @ ?l \<noteq> ''off''" "show_dec n @ ?l \<noteq> []" "\<not> ends_with (show_dec n @ ?l) ''%''"
    "size_parts (show_dec n @ ?l) = (if ?l = [] then None else Some (show_dec n, word_of_nat k))"
    by blast+
  have p: "parse_u64 (show_dec n) = Some (word_of_nat n)"
    using assms(2) by (simp add: parse_u64_def parse_uint_show_dec)
  have t: "trim (show_dec n) = show_dec n"
    using show_dec_chars [of _ n] by (intro printable_trim) fastforce
  have k: "u = [] \<Longrightarrow> k = 1" using assms(1) by (auto simp: size_units_def)
  have "parse_size fl mf (show_dec n @ u) =
      (case size_parts (show_dec n @ ?l) of
           None \<Rightarrow>
             (case parse_u64 (show_dec n @ ?l) of
                Some bytes \<Rightarrow> Inr bytes
              | None \<Rightarrow> Inl (IoError InvalidInput ''invalid size format''))
         | Some (num_str, multiplier) \<Rightarrow>
             (case parse_u64 (trim num_str) of
                Some num \<Rightarrow> Inr (num * multiplier)
              | None \<Rightarrow> Inl (IoError InvalidInput ''invalid number format'')))"
    unfolding parse_size_def size_normal [OF assms(1)] Let_def
    by (simp only: l(1,2,3) if_False simp_thms)
  also have "\<dots> = Inr (word_of_nat n * word_of_nat k)"
    unfolding l(4) by (cases "u = []") (simp_all add: p t k)
  finally show ?thesis .
qed

lemma ceil_2048: "((n :: nat) + 2047) div 2048 = (if n mod 2048 = 0 then n div 2048 else n div 2048 + 1)"
proof -
  define r q where "r = n mod 2048" and "q = n div 2048"
  have n: "n + 2047 = (r + 2047) + q * 2048" and r: "r < 2048"
    by (simp_all add: r_def q_def)
  have "(n + 2047) div 2048 = q + (r + 2047) div 2048"
    unfolding n by (rule div_mult_self1) simp
  moreover have "(r + 2047) div 2048 = (if r = 0 then 0 else 1)"
    using r by (auto intro!: div_nat_eqI)
  ultimately show ?thesis by (simp add: r_def q_def)
qed

lemma div_ceil_2048: "unat (div_ceil a 2048) = (unat a + 2047) div 2048"
proof -
  have m: "unat (a mod 2048) = unat a mod 2048" and d: "unat (a div 2048) = unat a div 2048"
    by (simp_all add: unat_mod_distrib unat_div_distrib)
  have "unat a div 2048 + 1 < 2 ^ 64"
    using unat_u64_less [of a] by (simp del: unat_u64_less)
  then have "unat (a div 2048 + 1) = unat a div 2048 + 1"
    by (simp add: unat_word_ariths d)
  moreover have "a mod 2048 = 0 \<longleftrightarrow> unat a mod 2048 = 0"
    by (simp flip: m add: unat_eq_0)
  ultimately show ?thesis by (simp add: div_ceil_def ceil_2048 d)
qed

section \<open>Properties\<close>

text \<open>A size is its number times the multiplier of its unit, in upper or lower case, as a 64-bit
  product: it wraps, so a size of 2 to the power 64 bytes or more is taken modulo that and may even
  turn the pool off.\<close>

theorem parse_size_units:
  assumes "(u, k) \<in> set size_units" and "n < 2 ^ 64"
  shows "parse_size fl mf (show_dec n @ u) = Inr (word_of_nat (n * k))
    \<and> (n * k < 2 ^ 64 \<longrightarrow> map_sum id unat (parse_size fl mf (show_dec n @ u)) = Inr (n * k))"
  using parse_size_plain [OF assms, of fl mf]
  by (simp add: unat_of_nat take_bit_eq_mod flip: of_nat_mult)

lemma parse_size_units_witness:
  "\<forall>(fl :: nat float_ops) mf. parse_size fl mf (show_dec 17179869184 @ ''GB'') = Inr 0
   \<and> map_sum id unat (parse_size fl mf (show_dec 64 @ ''MB'')) = Inr 67108864"
proof (intro allI)
  fix fl :: "nat float_ops" and mf
  have gb: "(''GB'', 1073741824) \<in> set size_units" and mb: "(''MB'', 1048576) \<in> set size_units"
    by (simp_all add: size_units_def)
  from parse_size_units [OF gb, of 17179869184 fl mf] parse_size_units [OF mb, of 64 fl mf]
  show "parse_size fl mf (show_dec 17179869184 @ ''GB'') = Inr 0
   \<and> map_sum id unat (parse_size fl mf (show_dec 64 @ ''MB'')) = Inr 67108864" by simp
qed

text \<open>The pool holds the configured size: with a size set, the blocks of 2048 bytes are enough for
  it and one block fewer is not; without one, or with size zero, there is no pool.\<close>

theorem buffer_blocks_size:
  "buffer_blocks fl mf sz = Inr r \<longleftrightarrow>
     (\<exists>b. (case sz of Some n \<Rightarrow> parse_size fl mf n | None \<Rightarrow> Inr 0) = Inr b
        \<and> (if b = 0 then r = None
           else r = Some (div_ceil b 2048) \<and> unat b \<le> unat (div_ceil b 2048) * 2048
              \<and> (unat (div_ceil b 2048) - 1) * 2048 < unat b))"
proof -
  have "unat b \<le> unat (div_ceil b 2048) * 2048
      \<and> (b \<noteq> 0 \<longrightarrow> (unat (div_ceil b 2048) - 1) * 2048 < unat b)" for b :: u64
  proof -
    define q where "q = unat (div_ceil b 2048)"
    have "unat b + 2047 = q * 2048 + (unat b + 2047) mod 2048"
      unfolding q_def div_ceil_2048 by (rule div_mult_mod_eq [symmetric])
    moreover have "(unat b + 2047) mod 2048 < 2048" by (rule mod_less_divisor) simp
    moreover have "b \<noteq> 0 \<longrightarrow> 0 < unat b" by (simp add: unat_gt_0)
    ultimately show ?thesis unfolding q_def [symmetric] by (cases q) auto
  qed
  then show ?thesis
    by (auto simp: buffer_blocks_def io_bind_eq_Inr word_neq_0_conv)
qed

lemma buffer_blocks_size_witness:
  "\<forall>(fl :: nat float_ops) mf. buffer_blocks fl mf (Some (show_dec 5 @ ''k'')) = Inr (Some 3)"
proof (intro allI)
  fix fl :: "nat float_ops" and mf
  have u: "(''k'', 1024) \<in> set size_units" by (simp add: size_units_def)
  have p: "parse_size fl mf (show_dec 5 @ ''k'') = Inr 5120"
    using parse_size_plain [OF u, of 5 fl mf] by simp
  have "div_ceil 5120 2048 = 3" by code_simp
  with buffer_blocks_size [of fl mf "Some (show_dec 5 @ ''k'')" "Some 3"] p
  show "buffer_blocks fl mf (Some (show_dec 5 @ ''k'')) = Inr (Some 3)" by simp
qed

text \<open>The configuration of a listener is the first listener with its name, and connector names
  refer to the last connector declared with that name; an unknown listener name panics.\<close>

theorem object_config_build_spec:
  "(case object_config_build name cfg sid of
      Inl e \<Rightarrow> is_panic (object_config_build name cfg sid) \<and> name \<notin> lc_name ` set (cg_listener cfg)
    | Inr oc \<Rightarrow> find (\<lambda>l. lc_name l = name) (cg_listener cfg) = Some (oc_listener oc)
        \<and> (\<forall>n. oc_connector oc n = find (\<lambda>c. cc_name c = n) (rev (cg_connector cfg)))
        \<and> oc_server_id oc = sid)"
proof -
  have f: "find_listener name ls = find (\<lambda>l. lc_name l = name) ls" for ls :: "'a listener_cfg list"
    by (induction ls) auto
  show ?thesis
  proof (cases "find_listener name (cg_listener cfg)")
    case None
    then show ?thesis using find_listener_None [of name "cg_listener cfg"]
      by (auto simp: object_config_build_def)
  next
    case (Some l)
    then have "find (\<lambda>l. lc_name l = name) (cg_listener cfg) = Some l" by (simp only: f)
    with Some show ?thesis by (simp add: object_config_build_def connector_map_find)
  qed
qed

end
