(* ===== verification/Tunnel.thy ===== *)
theory Tunnel
  imports Socks5_Acceptor Streams Config
begin

text \<open>
  The ends of a tunnel between two proxies: the connectors of \<open>src/connector/pb_tcp.rs\<close>,
  \<open>src/connector/grpc.rs\<close>, \<open>src/connector/tcp.rs\<close> and \<open>src/connector/block.rs\<close>, and the listeners of
  \<open>src/listener/pb_tcp.rs\<close> and \<open>src/listener/grpc.rs\<close>.

  Dialling, opening a call on the gRPC channel and the protobuf codec are arguments.  A listener's
  background task and its acceptor share two queues, one of streams and one of UDP associations,
  each of a capacity of eight; \<open>accept\<close> takes from either.
\<close>

section \<open>The direct and the blocking connector\<close>

type_synonym dialer = "string \<Rightarrow> net_event list io"

definition tcp_connect :: "dialer \<Rightarrow> string \<Rightarrow> tcp_stream io" where
  "tcp_connect dial addr =
     io_bind (dial addr) (\<lambda>rx.
       Inr (tcp_set_info (\<lambda>x. x\<lparr>si_protocol_name := ''tcp''\<rparr>) (tcp_run_stream_new rx)))"

definition block_connect :: "string \<Rightarrow> tcp_stream io" where
  "block_connect addr = Inl (IoError PermissionDenied ''Connection blocked by rule'')"

definition block_udp_tunnel :: "string \<Rightarrow> unit io" where
  "block_udp_tunnel src_addr = Inl (IoError PermissionDenied ''Connection blocked by rule'')"

section \<open>The framed TCP connector\<close>

definition pb_tcp_connector_new :: "'v connector_cfg \<Rightarrow> 'v connector_cfg io" where
  "pb_tcp_connector_new cfg =
     (case cc_endpoint cfg of
        None \<Rightarrow> Inl (IoError InvalidInput (''pb_tcp connector config is missing '' @ [CHR 0x27] @ ''endpoint'' @ [CHR 0x27]))
      | Some _ \<Rightarrow> Inr cfg)"

text \<open>The first message, with its two encrypted fields; each field draws a nonce.\<close>

definition pb_auth_req ::
    "'k crypto \<Rightarrow> bytes \<Rightarrow> bytes \<Rightarrow> string \<Rightarrow> string \<Rightarrow> u16 \<Rightarrow> stream_req io" where
  "pb_auth_req cr n1 n2 pw host port =
     io_bind (encrypt_field cr n1 pw pw) (\<lambda>auth.
     io_bind (encrypt_field cr n2 host pw) (\<lambda>dst_addr.
       Inr (stream_req_default\<lparr>sq_auth := auth, sq_dst_addr := Some dst_addr,
                               sq_dst_port := Some (u32_of_port port)\<rparr>)))"

definition pb_tcp_connect ::
    "dialer \<Rightarrow> (stream_req \<Rightarrow> bytes) \<Rightarrow> 'k crypto \<Rightarrow> bytes \<Rightarrow> bytes \<Rightarrow> u64 \<Rightarrow> 'v connector_cfg \<Rightarrow> string
       \<Rightarrow> 'k pb_stream io" where
  "pb_tcp_connect dial enc cr n1 n2 r cfg addr =
     io_bind (parse_address addr) (\<lambda>(host, port).
     io_bind (unwrap (cc_pw cfg)) (\<lambda>pw.
     io_bind (unwrap (cc_endpoint cfg)) (\<lambda>ep.
     io_bind (dial ep) (\<lambda>rx.
       let (reader, writer) = tcp_split (tcp_run_stream_new rx);
           (writer, res) =
             st_bind (write_conn_type tcp_half_write CONN_TYPE_STREAM) (\<lambda>_ w.
               case pb_auth_req cr n1 n2 pw host port of
                 Inl e \<Rightarrow> (w, Inl e)
               | Inr auth_req \<Rightarrow> write_frame tcp_half_write enc r auth_req w) writer
       in io_bind res (\<lambda>_.
            Inr (pb_client_set_info
                   (\<lambda>x. x\<lparr>si_protocol_name := ''pb_tcp'', si_dst_port := Some port,
                          si_dst_addr := Some host\<rparr>)
                   (pb_client_stream_new cr reader writer pw (port \<noteq> 443))))))))"

definition pb_tcp_udp_tunnel ::
    "dialer \<Rightarrow> 'v connector_cfg \<Rightarrow> (tcp_read_half \<times> tcp_write_half \<times> string) io" where
  "pb_tcp_udp_tunnel dial cfg =
     io_bind (unwrap (cc_pw cfg)) (\<lambda>pw.
     io_bind (unwrap (cc_endpoint cfg)) (\<lambda>ep.
     io_bind (dial ep) (\<lambda>rx.
       let (reader, writer) = tcp_split (tcp_run_stream_new rx);
           (writer, res) = write_conn_type tcp_half_write CONN_TYPE_UDP writer
       in io_bind res (\<lambda>_. Inr (reader, writer, pw)))))"

section \<open>The queues of an acceptor\<close>

record ('s, 'u) acc_queues =
  aq_streams :: "'s list"
  aq_udps :: "'u list"
  aq_open :: bool

datatype ('s, 'u) acc_stream = TCPStream 's | UDPSocket 'u

definition acc_queues_new :: "('s, 'u) acc_queues" where
  "acc_queues_new = \<lparr>aq_streams = [], aq_udps = [], aq_open = True\<rparr>"

definition queue_cap :: nat where "queue_cap = 8"

text \<open>Sending to a channel waits, here by being disabled, while it is full.\<close>

definition send_stream :: "'s \<Rightarrow> ('s, 'u) acc_queues \<Rightarrow> ('s, 'u) acc_queues option" where
  "send_stream x q =
     (if length (aq_streams q) < queue_cap then Some (q\<lparr>aq_streams := aq_streams q @ [x]\<rparr>) else None)"

definition send_udp :: "'u \<Rightarrow> ('s, 'u) acc_queues \<Rightarrow> ('s, 'u) acc_queues option" where
  "send_udp x q =
     (if length (aq_udps q) < queue_cap then Some (q\<lparr>aq_udps := aq_udps q @ [x]\<rparr>) else None)"

text \<open>\<open>select!\<close> polls the two receivers in a random order, here its first argument; the branch taken is
  the first that is ready.  A receiver is ready when it has an item or its senders are gone.\<close>

definition stream_addr :: socket_addr where
  "stream_addr = \<lparr>sa_ip = V4 127 0 0 1, sa_port = 2809\<rparr>"

definition udp_addr :: socket_addr where
  "udp_addr = \<lparr>sa_ip = V4 127 0 9 28, sa_port = 2809\<rparr>"

definition recv_udp ::
    "string \<Rightarrow> ('s, 'u) acc_queues \<Rightarrow> (('s, 'u) acc_queues \<times> (('s, 'u) acc_stream \<times> socket_addr) io) option"
  where
  "recv_udp closed q =
     (case aq_udps q of
        x # xs \<Rightarrow> Some (q\<lparr>aq_udps := xs\<rparr>, Inr (UDPSocket x, udp_addr))
      | [] \<Rightarrow> if aq_open q then None else Some (q, Inl (IoError Other closed)))"

definition recv_stream ::
    "string \<Rightarrow> ('s, 'u) acc_queues \<Rightarrow> (('s, 'u) acc_queues \<times> (('s, 'u) acc_stream \<times> socket_addr) io) option"
  where
  "recv_stream closed q =
     (case aq_streams q of
        x # xs \<Rightarrow> Some (q\<lparr>aq_streams := xs\<rparr>, Inr (TCPStream x, stream_addr))
      | [] \<Rightarrow> if aq_open q then None else Some (q, Inl (IoError Other closed)))"

definition queue_accept ::
    "bool \<Rightarrow> string \<Rightarrow> string \<Rightarrow> ('s, 'u) acc_queues
       \<Rightarrow> (('s, 'u) acc_queues \<times> (('s, 'u) acc_stream \<times> socket_addr) io) option" where
  "queue_accept udp_first udp_closed stream_closed q =
     (let first = (if udp_first then recv_udp udp_closed q else recv_stream stream_closed q)
      in case first of
           Some x \<Rightarrow> Some x
         | None \<Rightarrow> (if udp_first then recv_stream stream_closed q else recv_udp udp_closed q))"

section \<open>The framed TCP listener\<close>

type_synonym pb_udp_conn = "tcp_read_half \<times> tcp_write_half \<times> string"

text \<open>The task of one accepted connection: what it sends to the acceptor, if anything.\<close>

definition pb_conn_dispatch ::
    "'k crypto \<Rightarrow> string \<Rightarrow> tcp_read_half \<Rightarrow> tcp_write_half
       \<Rightarrow> ('k pb_stream, pb_udp_conn) acc_stream option" where
  "pb_conn_dispatch cr auth reader writer =
     (case read_conn_type tcp_half_read reader of
        (reader, Inl e) \<Rightarrow> None
      | (reader, Inr conn_type) \<Rightarrow>
          if conn_type = CONN_TYPE_STREAM then Some (TCPStream (pb_server_stream_new cr reader writer))
          else if conn_type = CONN_TYPE_UDP then Some (UDPSocket (reader, writer, auth))
          else None)"

definition pb_enqueue ::
    "('k pb_stream, pb_udp_conn) acc_stream \<Rightarrow> ('k pb_stream, pb_udp_conn) acc_queues
       \<Rightarrow> ('k pb_stream, pb_udp_conn) acc_queues option" where
  "pb_enqueue x q = (case x of TCPStream s \<Rightarrow> send_stream s q | UDPSocket u \<Rightarrow> send_udp u q)"

definition pb_tcp_listen ::
    "'v listener_cfg \<Rightarrow> (string \<times> ('k pb_stream, pb_udp_conn) acc_queues) io" where
  "pb_tcp_listen cfg = io_bind (unwrap (lc_pw cfg)) (\<lambda>auth. Inr (auth, acc_queues_new))"

definition pb_tcp_accept ::
    "bool \<Rightarrow> ('k pb_stream, pb_udp_conn) acc_queues
       \<Rightarrow> (('k pb_stream, pb_udp_conn) acc_queues
           \<times> (('k pb_stream, pb_udp_conn) acc_stream \<times> socket_addr) io) option" where
  "pb_tcp_accept udp_first = queue_accept udp_first ''udp receiver closed'' ''stream receiver closed''"

definition pb_tcp_handshake ::
    "(bytes \<Rightarrow> string + stream_req) \<Rightarrow> 'k crypto \<Rightarrow> string \<Rightarrow> ('k pb_stream, run_addr \<times> bytes option) op" where
  "pb_tcp_handshake dec cr auth s =
     (let s = pb_server_set_info (\<lambda>x. x\<lparr>si_protocol_name := ''pb_tcp''\<rparr>) s in
      case pb_server_handshake dec cr auth s of
        (s, Inl e) \<Rightarrow> (s, Inl e)
      | (s, Inr (Some (addr, a))) \<Rightarrow>
          (s, if a \<noteq> auth then Inl (IoError Other ''invalid auth'') else Inr (addr, None))
      | (s, Inr None) \<Rightarrow> (s, Inl (IoError Other ''handshake failed'')))"

section \<open>The gRPC connector\<close>

text \<open>Three attempts to connect, each a result of the transport; the last error is reported.\<close>

fun grpc_try :: "nat \<Rightarrow> (nat \<Rightarrow> string + 'c) \<Rightarrow> nat \<Rightarrow> string option \<Rightarrow> 'c io" where
  "grpc_try 0 attempt i err = io_bind (unwrap err) (\<lambda>e. Inl (IoError Other e))"
| "grpc_try (Suc k) attempt i err =
     (case attempt i of
        Inr client \<Rightarrow> Inr client
      | Inl e \<Rightarrow> grpc_try k attempt (Suc i) (Some e))"

definition grpc_connector_new ::
    "(string \<Rightarrow> bool \<Rightarrow> nat \<Rightarrow> string + 'c) \<Rightarrow> ('v \<Rightarrow> bool option) \<Rightarrow> 'v connector_cfg \<Rightarrow> 'c io" where
  "grpc_connector_new transport as_bool cfg =
     (case cc_endpoint cfg of
        None \<Rightarrow> Inl (IoError InvalidInput
                  (''gRPC connector config is missing '' @ [CHR 0x27] @ ''endpoint'' @ [CHR 0x27]))
      | Some ep \<Rightarrow>
          grpc_try 3 (transport ep (get_option_bool as_bool (cc_options cfg) ''keep_alive'')) 1 None)"

text \<open>Opening a call gives the events of its response; the request stream is the channel.\<close>

definition grpc_connect ::
    "(string + stream_res grpc_event list) \<Rightarrow> stream_req sender \<Rightarrow> 'v connector_cfg \<Rightarrow> string
       \<Rightarrow> grpc_client_stream io" where
  "grpc_connect call tx cfg addr =
     io_bind (parse_address addr) (\<lambda>(host, port).
       case call of
         Inl e \<Rightarrow> Inl (IoError Other e)
       | Inr resp \<Rightarrow>
           io_bind (unwrap (cc_pw cfg)) (\<lambda>auth.
             case send tx (stream_req_default\<lparr>sq_auth := auth,
                             sq_dst_port := Some (u32_of_port port), sq_dst_addr := Some host\<rparr>) of
               (tx, Inl _) \<Rightarrow> Inl (IoError Other ''failed to send auth request'')
             | (tx, Inr _) \<Rightarrow>
                 Inr (msg_set_info
                   (\<lambda>x. x\<lparr>si_protocol_name := ''grpc'', si_dst_port := Some port,
                          si_dst_addr := Some host\<rparr>)
                   (msg_stream_new resp tx))))"

section \<open>The gRPC listener\<close>

type_synonym grpc_udp_conn = "udp_req grpc_event list \<times> udp_res sender \<times> string"
type_synonym grpc_queues = "(grpc_server_stream, grpc_udp_conn) acc_queues"

definition open_sender :: "'m sender" where
  "open_sender = \<lparr>sd_sent = [], sd_closed = None\<rparr>"

definition grpc_listen :: "'v listener_cfg \<Rightarrow> (string \<times> grpc_queues) io" where
  "grpc_listen cfg = io_bind (unwrap (lc_pw cfg)) (\<lambda>auth. Inr (auth, acc_queues_new))"

text \<open>The two calls of the service hand the request stream and a response channel to the acceptor.\<close>

definition grpc_stream_call :: "stream_req grpc_event list \<Rightarrow> grpc_queues \<Rightarrow> grpc_queues option" where
  "grpc_stream_call request q = send_stream (grpc_server_stream_new request open_sender) q"

definition grpc_udp_call ::
    "'v listener_cfg \<Rightarrow> udp_req grpc_event list \<Rightarrow> grpc_queues \<Rightarrow> grpc_queues option io" where
  "grpc_udp_call cfg request q =
     io_bind (unwrap (lc_pw cfg)) (\<lambda>pw. Inr (send_udp (request, open_sender, pw) q))"

definition grpc_accept ::
    "bool \<Rightarrow> grpc_queues
       \<Rightarrow> (grpc_queues \<times> ((grpc_server_stream, grpc_udp_conn) acc_stream \<times> socket_addr) io) option" where
  "grpc_accept udp_first = queue_accept udp_first ''receiver closed'' ''receiver closed''"

definition grpc_handshake :: "string \<Rightarrow> (grpc_server_stream, run_addr \<times> bytes option) op" where
  "grpc_handshake auth s =
     (let s = grpc_server_set_info (\<lambda>x. x\<lparr>si_protocol_name := ''grpc''\<rparr>) s in
      case grpc_server_handshake s of
        (s, Inl e) \<Rightarrow> (s, Inl e)
      | (s, Inr (Some (addr, a))) \<Rightarrow>
          (s, if a \<noteq> auth then Inl (IoError Other ''invalid auth'') else Inr (addr, None))
      | (s, Inr None) \<Rightarrow> (s, Inl (IoError Other ''handshake failed'')))"

section \<open>Setting a tunnel up\<close>

lemma conn_type_read:
  assumes "tcp_clean rd" and "tcp_pending rd = t # rest"
  shows "\<exists>rd'. read_conn_type tcp_half_read rd = (rd', Inr t) \<and> tcp_pending rd' = rest \<and> tcp_clean rd'"
proof -
  have "tcp_pending rd = [t] @ rest" using assms(2) by simp
  from tcp_half.fill_enough [OF assms(1) this] show ?thesis
    by (auto simp: read_conn_type_def st_bind_def)
qed

lemma conn_type_read_prefix:
  assumes "read_conn_type tcp_half_read rd = (rd', Inr t)"
  shows "tcp_pending rd = t # tcp_pending rd'"
proof -
  obtain u b where f: "fill tcp_half_read 1 rd = (u, Inr b)" "u = rd'" "index b 0 = Inr t"
    using assms by (auto simp: read_conn_type_def st_bind_def split: prod.splits sum.splits)
  from tcp_half.fill_prefix [OF f(1)] f show ?thesis by (cases b) auto
qed

lemma pb_tcp_connect_ok:
  assumes "parse_address addr = Inr (host, port)" and "pb_tcp_connect dial enc cr n1 n2 r cfg addr = Inr cs"
  shows "\<exists>pw req. cc_pw cfg = Some pw \<and> pb_auth_req cr n1 n2 pw host port = Inr req
    \<and> tw_tx (st_writer cs) = CONN_TYPE_STREAM # frame_bytes r (enc req) \<and> tw_err (st_writer cs) = None
    \<and> ps_env cs = \<lparr>pe_crypto = cr, pe_pw = pw, pe_encrypt = (port \<noteq> 443)\<rparr>"
proof -
  let ?w = "\<lparr>tw_tx = [], tw_err = None\<rparr>"
  have w: "write_conn_type tcp_half_write CONN_TYPE_STREAM ?w = (?w\<lparr>tw_tx := [CONN_TYPE_STREAM]\<rparr>, Inr ())"
    by (simp add: write_conn_type_def tcp_half_write_def)
  have sp: "tcp_split (tcp_run_stream_new rx) = (\<lparr>ts_rx = rx\<rparr>, ?w)" for rx
    by (simp add: tcp_split_def tcp_run_stream_new_def)
  from assms obtain pw ep rx where o: "cc_pw cfg = Some pw" "cc_endpoint cfg = Some ep" "dial ep = Inr rx"
    by (cases "cc_pw cfg"; cases "cc_endpoint cfg") (auto simp: pb_tcp_connect_def io_bind_eq_Inr)
  with assms show ?thesis
    by (cases "pb_auth_req cr n1 n2 pw host port")
      (auto simp: pb_tcp_connect_def sp st_bind_def w tcp_write_frame msg_set_info_def
        pb_client_stream_new_def msg_stream_new_def msg_stream.defs pb_stream.defs)
qed

lemma pb_auth_req_ok:
  assumes "crypto_ok cr" and "length n1 = nonce_len" and "length n2 = nonce_len"
    and "length pw < 2 ^ 32" and "length host < 2 ^ 32"
    and "utf8_ok (bytes_of_str pw)" and "utf8_ok (bytes_of_str host)"
  shows "\<exists>req a. pb_auth_req cr n1 n2 pw host port = Inr req \<and> decrypt_field cr (sq_auth req) pw = Inr pw
    \<and> sq_dst_addr req = Some a \<and> decrypt_field cr a pw = Inr host
    \<and> sq_dst_port req = Some (u32_of_port port)"
proof -
  from encrypt_field_ok [OF assms(1,2,4,6), of pw] encrypt_field_ok [OF assms(1,3,5,7), of pw]
  show ?thesis by (auto simp: pb_auth_req_def stream_req_default_def)
qed

section \<open>Properties\<close>

text \<open>Setting a framed TCP tunnel up: what the connector writes makes the other proxy's listener,
  with the same password, take the connection as a stream and return exactly the host and port
  that were asked for; both ends then agree on the key and on whether payloads are encrypted, and
  the bytes after the first message are left for the relay.\<close>

theorem pb_tunnel_setup:
  assumes "codec_ok enc dec" and "crypto_ok cr" and "length n1 = nonce_len" and "length n2 = nonce_len"
    and "cc_pw cfg = Some pw" and "length pw < 2 ^ 32" and "length host < 2 ^ 32"
    and "utf8_ok (bytes_of_str pw)" and "utf8_ok (bytes_of_str host)"
    and "parse_address addr = Inr (host, port)"
    and "pb_tcp_connect dial enc cr n1 n2 r cfg addr = Inr cs"
    and "length (tw_tx (st_writer cs)) \<le> max_frame"
    and "tcp_clean rd" and "tcp_pending rd = tw_tx (st_writer cs) @ rest"
  shows "\<exists>s s'. pb_conn_dispatch cr pw rd wr = Some (TCPStream s)
    \<and> pb_tcp_handshake dec cr pw s = (s', Inr (\<lparr>ra_addr = host, ra_port = port, ra_udp = False\<rparr>, None))
    \<and> ps_env s' = ps_env cs \<and> tcp_pending (ca_reader (st_reader s')) = rest \<and> st_writer s' = wr
    \<and> tcp_clean (ca_reader (st_reader s'))"
proof -
  from pb_tcp_connect_ok [OF assms(10,11)] assms(5) obtain req
    where req: "pb_auth_req cr n1 n2 pw host port = Inr req"
      and tx: "tw_tx (st_writer cs) = CONN_TYPE_STREAM # frame_bytes r (enc req)"
      and env: "ps_env cs = \<lparr>pe_crypto = cr, pe_pw = pw, pe_encrypt = (port \<noteq> 443)\<rparr>"
    by auto
  from pb_auth_req_ok [OF assms(2,3,4,6,7,8,9), of port] req obtain a
    where a: "decrypt_field cr (sq_auth req) pw = Inr pw" "sq_dst_addr req = Some a"
      "decrypt_field cr a pw = Inr host" "sq_dst_port req = Some (u32_of_port port)" by auto
  have "tcp_pending rd = CONN_TYPE_STREAM # frame_bytes r (enc req) @ rest"
    using assms(14) by (simp add: tx)
  from conn_type_read [OF assms(13) this] obtain rd'
    where c: "read_conn_type tcp_half_read rd = (rd', Inr CONN_TYPE_STREAM)"
      and p: "tcp_pending rd' = frame_bytes r (enc req) @ rest" and l: "tcp_clean rd'"
    by blast
  let ?s = "pb_server_stream_new cr rd' wr"
  have d: "pb_conn_dispatch cr pw rd wr = Some (TCPStream ?s)" by (simp add: pb_conn_dispatch_def c)
  have "length (enc req) \<le> max_frame" using assms(12) by (simp add: tx frame_bytes_def)
  from tcp_half.read_msg_ok [OF assms(1) l p this] obtain rd''
    where m: "read_msg tcp_half_read dec rd' = (rd'', Inr req)" "tcp_pending rd'' = rest" "tcp_clean rd''" by blast
  have port: "u32_of_port port \<noteq> 443 \<longleftrightarrow> port \<noteq> 443"
    using port_of_u32_of_port [of port] port_of_u32_of_port [of 443]
    by (auto simp: u32_of_port_def)
  obtain s' where "pb_tcp_handshake dec cr pw ?s =
      (s', Inr (\<lparr>ra_addr = host, ra_port = port, ra_udp = False\<rparr>, None))"
    "ps_env s' = ps_env cs" "ca_reader (st_reader s') = rd''" "st_writer s' = wr"
    using m a by (auto simp: pb_tcp_handshake_def pb_server_handshake_def pb_server_stream_new_def
        msg_set_info_def msg_stream_new_def msg_stream.defs pb_stream.defs cached_new_def env port Let_def)
  with d m(2,3) show ?thesis by auto
qed

lemma demo_address: "parse_address ''a.b:80'' = Inr (''a.b'', 80)"
proof -
  have "show_dec 80 = ''80''" by code_simp
  then show ?thesis
    using parse_address_endpoint [of "\<lparr>ra_addr = ''a.b'', ra_port = 80, ra_udp = False\<rparr>"]
    by (simp add: endpoint_def)
qed

definition demo_connector :: "nat connector_cfg" where
  "demo_connector = \<lparr>cc_endpoint = Some ''proxy:1'', cc_name = ''c'', cc_user = None,
     cc_pw = Some ''pw'', cc_proto = ''pb_tcp'', cc_options = None\<rparr>"

lemma demo_pb_connect:
  "\<exists>cs. pb_tcp_connect (\<lambda>_. Inr []) enc_stream_req toy_crypto (replicate 12 1) (replicate 12 2) 7
       demo_connector ''a.b:80'' = Inr cs
    \<and> length (tw_tx (st_writer cs)) \<le> max_frame \<and> st_reader cs = cached_new \<lparr>ts_rx = []\<rparr>"
proof -
  let ?n1 = "replicate 12 1" and ?n2 = "replicate 12 2" and ?w = "\<lparr>tw_tx = [], tw_err = None\<rparr>"
  have u: "utf8_ok (bytes_of_str ''pw'')" "utf8_ok (bytes_of_str ''a.b'')" by code_simp+
  have n: "length ?n1 = nonce_len" "length ?n2 = nonce_len" by (simp_all add: nonce_len_def)
  have pw: "cc_pw demo_connector = Some ''pw''" by (simp add: demo_connector_def)
  have l: "length ''pw'' < 2 ^ 32" "length ''a.b'' < 2 ^ 32" by simp_all
  from pb_auth_req_ok [OF toy_crypto_ok n l u, of 80] obtain req
    where req: "pb_auth_req toy_crypto ?n1 ?n2 ''pw'' ''a.b'' 80 = Inr req" by blast
  have len: "length (enc_stream_req req) \<le> 200"
  proof -
    have "sq_payload req = None" "length (sq_auth req) \<le> 20" "\<exists>a. sq_dst_addr req = Some a \<and> length a \<le> 20"
      "sq_dst_port req = Some (u32_of_port 80)"
      using req by (auto simp: pb_auth_req_def encrypt_field_def encrypt_bytes_def toy_crypto_def
          stream_req_default_def Let_def)
    then show ?thesis
      by (auto simp: enc_stream_req_def put_str_def put_u32_def split: option.split)
  qed
  obtain cs where cs: "pb_tcp_connect (\<lambda>_. Inr []) enc_stream_req toy_crypto ?n1 ?n2 7 demo_connector ''a.b:80'' = Inr cs"
    and rd: "st_reader cs = cached_new \<lparr>ts_rx = []\<rparr>"
    by (simp add: pb_tcp_connect_def demo_address demo_connector_def tcp_split_def tcp_run_stream_new_def
        st_bind_def write_conn_type_def tcp_half_write_def req tcp_write_frame msg_set_info_def
        pb_client_stream_new_def msg_stream_new_def msg_stream.defs pb_stream.defs)
  from pb_tcp_connect_ok [OF demo_address cs] pw req
  have tx: "tw_tx (st_writer cs) = CONN_TYPE_STREAM # frame_bytes 7 (enc_stream_req req)" by auto
  have "length (tw_tx (st_writer cs)) \<le> max_frame"
    using len by (simp add: tx frame_bytes_def max_frame_def)
  with cs rd show ?thesis by blast
qed

lemma pb_tunnel_setup_witness:
  "\<exists>cs s s'. pb_tcp_connect (\<lambda>_. Inr []) enc_stream_req toy_crypto (replicate 12 1) (replicate 12 2) 7
       demo_connector ''a.b:80'' = Inr cs
    \<and> pb_conn_dispatch toy_crypto ''pw'' \<lparr>ts_rx = [Segment (tw_tx (st_writer cs)), Segment [9]]\<rparr>
         \<lparr>tw_tx = [], tw_err = None\<rparr> = Some (TCPStream s)
    \<and> pb_tcp_handshake dec_stream_req toy_crypto ''pw'' s =
        (s', Inr (\<lparr>ra_addr = ''a.b'', ra_port = 80, ra_udp = False\<rparr>, None))
    \<and> ps_env s' = ps_env cs \<and> tcp_pending (ca_reader (st_reader s')) = [9]"
proof -
  have u: "utf8_ok (bytes_of_str ''pw'')" "utf8_ok (bytes_of_str ''a.b'')" by code_simp+
  have n: "length (replicate 12 1) = nonce_len" "length (replicate 12 2) = nonce_len" by (simp_all add: nonce_len_def)
  have pw: "cc_pw demo_connector = Some ''pw''" by (simp add: demo_connector_def)
  have l: "length ''pw'' < 2 ^ 32" "length ''a.b'' < 2 ^ 32" by simp_all
  from demo_pb_connect obtain cs where cs: "pb_tcp_connect (\<lambda>_. Inr []) enc_stream_req toy_crypto (replicate 12 1)
      (replicate 12 2) 7 demo_connector ''a.b:80'' = Inr cs" and "length (tw_tx (st_writer cs)) \<le> max_frame" by blast
  from pb_tunnel_setup [OF codec_stream_req toy_crypto_ok n pw l u demo_address cs this(2),
      of "\<lparr>ts_rx = [Segment (tw_tx (st_writer cs)), Segment [9]]\<rparr>" "[9]" "\<lparr>tw_tx = [], tw_err = None\<rparr>"] cs
  show ?thesis by (auto simp: tcp_clean_def tcp_pending_def)
qed

text \<open>Setting a gRPC tunnel up: the first message the connector sends makes the listener, with the
  same password, return the host and port that were asked for, and leaves all later messages to
  the stream.\<close>

theorem grpc_tunnel_setup:
  assumes "parse_address addr = Inr (host, port)" and "cc_pw cfg = Some pw"
    and "grpc_connect call open_sender cfg addr = Inr cs"
  shows "\<exists>s'. grpc_handshake pw (msg_stream_new (map GMsg (sd_sent (st_writer cs)) @ evs) w) =
      (s', Inr (\<lparr>ra_addr = host, ra_port = port, ra_udp = False\<rparr>, None))
    \<and> st_reader s' = cached_new evs \<and> st_writer s' = w
    \<and> si_dst_addr (st_info cs) = Some host \<and> si_dst_port (st_info cs) = Some port"
  using assms
  by (auto simp: grpc_connect_def grpc_handshake_def grpc_server_handshake_def open_sender_def send_def
      msg_set_info_def msg_stream_new_def cached_new_def stream_req_default_def Let_def
      split: sum.splits)

lemma grpc_tunnel_setup_witness:
  "\<exists>s'. grpc_handshake ''pw'' (msg_stream_new [GMsg \<lparr>sq_auth = ''pw'', sq_payload = None,
        sq_dst_addr = Some ''a.b'', sq_dst_port = Some 80\<rparr>] open_sender) =
      (s', Inr (\<lparr>ra_addr = ''a.b'', ra_port = 80, ra_udp = False\<rparr>, None))"
proof -
  note pa = demo_address
  have pw: "cc_pw demo_connector = Some ''pw''" by (simp add: demo_connector_def)
  obtain cs where cs: "grpc_connect (Inr []) open_sender demo_connector ''a.b:80'' = Inr cs"
    and sent: "sd_sent (st_writer cs) = [\<lparr>sq_auth = ''pw'', sq_payload = None,
        sq_dst_addr = Some ''a.b'', sq_dst_port = Some 80\<rparr>]"
    by (simp add: grpc_connect_def pa pw send_def open_sender_def msg_set_info_def msg_stream_new_def
        stream_req_default_def u32_of_port_def)
  from grpc_tunnel_setup [OF pa pw cs, of "[]" open_sender] show ?thesis by (simp add: sent) blast
qed



text \<open>A gRPC client can make the handshake panic before its password is looked at: a first message
  without a destination address or port does, whatever its password is.\<close>

theorem grpc_handshake_panics:
  assumes "ca_reader (st_reader g) = GMsg req # evs"
    and "sq_dst_addr req = None \<or> sq_dst_port req = None"
  shows "is_panic (snd (grpc_handshake auth g))"
  using assms by (auto simp: grpc_handshake_def grpc_server_handshake_def msg_set_info_def Let_def
      io_bind_def unwrap_def split: option.splits)

lemma grpc_handshake_panics_witness:
  "is_panic (snd (grpc_handshake ''pw'' (msg_stream_new [GMsg stream_req_default] open_sender)))"
  by (rule grpc_handshake_panics [of _ stream_req_default "[]"])
    (simp_all add: msg_stream_new_def cached_new_def stream_req_default_def)

end
