(* ===== verification/Udp_Streams.thy ===== *)
theory Udp_Streams
  imports Tunnel
begin

text \<open>
  The UDP readers and writers of \<open>src/stream/\<close>: over gRPC (\<open>grpc_udp_client.rs\<close>,
  \<open>grpc_udp_server.rs\<close>), over the reverse service (\<open>rev_grpc_udp_client.rs\<close>,
  \<open>rev_grpc_udp_server.rs\<close>), over framed TCP (\<open>pb_tcp_udp_client.rs\<close>, \<open>pb_tcp_udp_server.rs\<close>) and on
  a UDP socket (\<open>udp.rs\<close>).

  The locale \<open>packet_channel\<close> is what a relay of packets relies on: a packet that was written is
  what the other end's next read returns.  It is proved for both directions of the three tunnels.
\<close>

section \<open>The contract\<close>

type_synonym ('x, 'w) packet_writer = "'x \<Rightarrow> udp_packet \<Rightarrow> ('w, unit) op"

fun write_packets :: "('x, 'w) packet_writer \<Rightarrow> ('x \<times> udp_packet) list \<Rightarrow> ('w, unit) op" where
  "write_packets wr [] = st_ret ()"
| "write_packets wr ((x, p) # ps) = st_bind (wr x p) (\<lambda>_. write_packets wr ps)"

fun read_packets :: "('r, udp_packet) op \<Rightarrow> nat \<Rightarrow> ('r, udp_packet list) op" where
  "read_packets rd 0 = st_ret []"
| "read_packets rd (Suc k) =
     st_bind rd (\<lambda>p. st_bind (read_packets rd k) (\<lambda>ps. st_ret (p # ps)))"

text \<open>Packets written to \<open>w\<close> put \<open>b\<close> on the wire, from which any live reader reads them back.\<close>

definition delivers ::
    "('x, 'w) packet_writer \<Rightarrow> ('r, udp_packet) op \<Rightarrow> ('w \<Rightarrow> 'e list) \<Rightarrow> ('r \<Rightarrow> 'e list)
       \<Rightarrow> ('r \<Rightarrow> bool) \<Rightarrow> ('x \<times> udp_packet) list \<Rightarrow> 'w \<Rightarrow> bool" where
  "delivers wr rd sent pending live ps w \<longleftrightarrow>
     (\<exists>w' b. write_packets wr ps w = (w', Inr ()) \<and> sent w' = sent w @ b
        \<and> (\<forall>r rest. live r \<and> pending r = b @ rest \<longrightarrow>
             (\<exists>r'. read_packets rd (length ps) r = (r', Inr (map snd ps)) \<and> pending r' = rest)))"

locale packet_channel =
  fixes wr :: "('x, 'w) packet_writer"
    and rd :: "('r, udp_packet) op"
    and sent :: "'w \<Rightarrow> 'e list"
    and pending :: "'r \<Rightarrow> 'e list"
    and ready :: "'w \<Rightarrow> bool"
    and live :: "'r \<Rightarrow> bool"
    and sendable :: "'x \<Rightarrow> udp_packet \<Rightarrow> bool"
  assumes write_read: "ready w \<Longrightarrow> sendable x p \<Longrightarrow>
      \<exists>w' b. wr x p w = (w', Inr ()) \<and> sent w' = sent w @ b \<and> ready w'
        \<and> (\<forall>r rest. live r \<and> pending r = b @ rest \<longrightarrow>
             (\<exists>r'. rd r = (r', Inr p) \<and> pending r' = rest \<and> live r'))"
begin

lemma packets_delivered:
  "ready w \<Longrightarrow> \<forall>(x, p) \<in> set ps. sendable x p \<Longrightarrow> delivers wr rd sent pending live ps w"
proof (induction ps arbitrary: w)
  case Nil
  then show ?case by (simp add: delivers_def)
next
  case (Cons xp ps)
  obtain x p where xp: "xp = (x, p)" by fastforce
  with Cons.prems write_read [of w x p] obtain v b where v: "wr x p w = (v, Inr ())"
    "sent v = sent w @ b" "ready v"
    and rd: "live r \<and> pending r = b @ rest \<longrightarrow> (\<exists>r'. rd r = (r', Inr p) \<and> pending r' = rest \<and> live r')" for r rest
    by auto
  from Cons.IH [OF v(3)] Cons.prems(2) obtain w' c where w: "write_packets wr ps v = (w', Inr ())"
    "sent w' = sent v @ c"
    and rs: "live r \<and> pending r = c @ rest \<longrightarrow>
      (\<exists>r'. read_packets rd (length ps) r = (r', Inr (map snd ps)) \<and> pending r' = rest)" for r rest
    by (auto simp: delivers_def)
  have "\<exists>r'. read_packets rd (Suc (length ps)) r = (r', Inr (p # map snd ps)) \<and> pending r' = rest"
    if "live r" and "pending r = (b @ c) @ rest" for r rest
  proof -
    from that rd [of r "c @ rest"] obtain s where "rd r = (s, Inr p)" "pending s = c @ rest" "live s" by auto
    with rs [of s rest] show ?thesis by (auto simp: st_bind_def)
  qed
  with v w show ?case
    unfolding delivers_def by (intro exI [of _ w'] exI [of _ "b @ c"]) (auto simp: xp st_bind_def)
qed

end

section \<open>gRPC\<close>

text \<open>\<open>Result::unwrap\<close> of a conversion.\<close>

definition unwrap_ok :: "unit + 'a \<Rightarrow> 'a io" where
  "unwrap_ok r = (case r of Inl _ \<Rightarrow> Inl (Panic ''called unwrap on an Err value'') | Inr a \<Rightarrow> Inr a)"

record 'm udp_reader =
  ud_events :: "'m grpc_event list"
  ud_auth :: string

definition grpc_udp_server_read :: "(udp_req udp_reader, udp_packet) op" where
  "grpc_udp_server_read s =
     (case ud_events s of
        [] \<Rightarrow> (s, Inl (IoError Other ''no more data''))
      | GStatus e # r \<Rightarrow> (s\<lparr>ud_events := r\<rparr>, Inl (IoError Interrupted e))
      | GMsg data # r \<Rightarrow>
          (s\<lparr>ud_events := r\<rparr>,
           if ud_auth s \<noteq> uq_auth data then Inl (IoError Other ''auth mismatch'')
           else io_bind (udp_req_try_into data) unwrap_ok))"

definition grpc_udp_server_write :: "(unit, udp_res sender) packet_writer" where
  "grpc_udp_server_write _ packet w =
     (case unwrap_ok (udp_res_try_from packet) of
        Inl e \<Rightarrow> (w, Inl e)
      | Inr res \<Rightarrow> send_interrupted w res)"

text \<open>The clients map a failed send to a broken pipe.\<close>

definition send_broken_pipe :: "'m sender \<Rightarrow> 'm \<Rightarrow> 'm sender \<times> unit io" where
  "send_broken_pipe w m =
     (case send w m of (w', Inr _) \<Rightarrow> (w', Inr ()) | (w', Inl e) \<Rightarrow> (w', Inl (IoError BrokenPipe e)))"

definition grpc_udp_client_write :: "string \<Rightarrow> (unit, udp_req sender) packet_writer" where
  "grpc_udp_client_write auth _ packet w = send_broken_pipe w (udp_req_from_packet packet auth)"

definition grpc_udp_client_read :: "(udp_res grpc_event list, udp_packet) op" where
  "grpc_udp_client_read evs =
     (case evs of
        GStatus e # r \<Rightarrow> (r, Inl (IoError BrokenPipe e))
      | GMsg res # r \<Rightarrow> (r, io_bind (udp_res_try_into res) unwrap_ok)
      | [] \<Rightarrow> ([], Inl (IoError Other ''stream closed'')))"

section \<open>Reverse gRPC\<close>

definition convert_err :: "string \<Rightarrow> unit + 'a \<Rightarrow> 'a io" where
  "convert_err msg r = (case r of Inl _ \<Rightarrow> Inl (IoError Other msg) | Inr a \<Rightarrow> Inr a)"

definition rev_udp_server_read :: "(rev_udp_req udp_reader, udp_packet) op" where
  "rev_udp_server_read s =
     (case ud_events s of
        [] \<Rightarrow> (s, Inl (IoError Other ''rev grpc udp stream closed''))
      | GStatus e # r \<Rightarrow> (s\<lparr>ud_events := r\<rparr>, Inl (IoError BrokenPipe e))
      | GMsg req # r \<Rightarrow>
          (s\<lparr>ud_events := r\<rparr>,
           if wq_auth req \<noteq> ud_auth s then Inl (IoError Other ''rev grpc udp auth mismatch'')
           else convert_err ''rev grpc udp req convert error'' (rev_udp_req_try_into req)))"

definition rev_udp_server_write :: "(unit, rev_udp_res sender) packet_writer" where
  "rev_udp_server_write _ packet w =
     (case convert_err ''rev grpc udp res convert error'' (rev_udp_res_try_from packet) of
        Inl e \<Rightarrow> (w, Inl e)
      | Inr res \<Rightarrow> send_broken_pipe w res)"

definition rev_udp_client_write :: "string \<Rightarrow> (unit, rev_udp_req sender) packet_writer" where
  "rev_udp_client_write auth _ packet w = send_broken_pipe w (rev_udp_req_from_packet packet auth)"

definition rev_udp_client_read :: "(rev_udp_res grpc_event list, udp_packet) op" where
  "rev_udp_client_read evs =
     (case evs of
        GMsg res # r \<Rightarrow>
          (r, convert_err ''rev grpc udp res convert error'' (rev_udp_res_try_into res))
      | GStatus e # r \<Rightarrow> (r, Inl (IoError BrokenPipe e))
      | [] \<Rightarrow> ([], Inl (IoError Other ''rev grpc udp stream closed'')))"

section \<open>Framed TCP\<close>

definition opt_field :: "(string \<Rightarrow> string io) \<Rightarrow> string option \<Rightarrow> string option io" where
  "opt_field f x = (case x of None \<Rightarrow> Inr None | Some v \<Rightarrow> io_bind (f v) (\<lambda>y. Inr (Some y)))"

definition opt_bytes :: "(bytes \<Rightarrow> bytes io) \<Rightarrow> bytes option \<Rightarrow> bytes option io" where
  "opt_bytes f x = (case x of None \<Rightarrow> Inr None | Some v \<Rightarrow> io_bind (f v) (\<lambda>y. Inr (Some y)))"

text \<open>The nonces of a request (token, destination, source, payload) and of a response.\<close>

type_synonym req_nonces = "bytes \<times> bytes \<times> bytes \<times> bytes"
type_synonym res_nonces = "bytes \<times> bytes \<times> bytes"

definition pb_udp_seal_req :: "'k crypto \<Rightarrow> string \<Rightarrow> req_nonces \<Rightarrow> udp_req \<Rightarrow> udp_req io" where
  "pb_udp_seal_req cr pw ns req =
     (case ns of (n1, n2, n3, n4) \<Rightarrow>
        io_bind (encrypt_field cr n1 (uq_auth req) pw) (\<lambda>auth.
        io_bind (opt_field (\<lambda>v. encrypt_field cr n2 v pw) (uq_dst_addr req)) (\<lambda>dst_addr.
        io_bind (opt_field (\<lambda>v. encrypt_field cr n3 v pw) (uq_src_addr req)) (\<lambda>src_addr.
        io_bind (opt_bytes (\<lambda>p. encrypt_bytes cr n4 p pw) (uq_payload req)) (\<lambda>payload.
          Inr (req\<lparr>uq_auth := auth, uq_dst_addr := dst_addr, uq_src_addr := src_addr,
                   uq_payload := payload\<rparr>))))))"

definition pb_udp_client_write ::
    "(udp_req \<Rightarrow> bytes) \<Rightarrow> 'k crypto \<Rightarrow> string \<Rightarrow> string \<Rightarrow> (req_nonces \<times> u64, tcp_write_half) packet_writer" where
  "pb_udp_client_write enc cr auth pw x packet w =
     (case pb_udp_seal_req cr pw (fst x) (udp_req_from_packet packet auth) of
        Inl e \<Rightarrow> (w, Inl e)
      | Inr req \<Rightarrow> write_frame tcp_half_write enc (snd x) req w)"

definition pb_udp_open_req :: "'k crypto \<Rightarrow> string \<Rightarrow> string \<Rightarrow> udp_req \<Rightarrow> udp_req io" where
  "pb_udp_open_req cr auth pw req =
     io_bind (decrypt_field cr (uq_auth req) pw) (\<lambda>decrypted_auth.
     if decrypted_auth \<noteq> auth then Inl (IoError Other ''pb tcp udp auth mismatch'')
     else
       io_bind (opt_field (\<lambda>v. decrypt_field cr v pw) (uq_dst_addr req)) (\<lambda>dst_addr.
       io_bind (opt_field (\<lambda>v. decrypt_field cr v pw) (uq_src_addr req)) (\<lambda>src_addr.
       io_bind (opt_bytes (\<lambda>p. decrypt_bytes cr p pw) (uq_payload req)) (\<lambda>payload.
         Inr (req\<lparr>uq_dst_addr := dst_addr, uq_src_addr := src_addr, uq_payload := payload\<rparr>)))))"

definition pb_udp_server_read ::
    "(bytes \<Rightarrow> string + udp_req) \<Rightarrow> 'k crypto \<Rightarrow> string \<Rightarrow> string \<Rightarrow> (tcp_read_half, udp_packet) op" where
  "pb_udp_server_read dec cr auth pw =
     st_bind (read_msg tcp_half_read dec) (\<lambda>req r.
       (r, io_bind (pb_udp_open_req cr auth pw req) (\<lambda>req.
           io_bind (udp_req_try_into req) (convert_err ''pb tcp udp req convert error''))))"

definition pb_udp_seal_res :: "'k crypto \<Rightarrow> string \<Rightarrow> res_nonces \<Rightarrow> udp_res \<Rightarrow> udp_res io" where
  "pb_udp_seal_res cr pw ns res =
     (case ns of (n1, n2, n3) \<Rightarrow>
        io_bind (opt_field (\<lambda>v. encrypt_field cr n1 v pw) (us_dst_addr res)) (\<lambda>dst_addr.
        io_bind (opt_field (\<lambda>v. encrypt_field cr n2 v pw) (us_src_addr res)) (\<lambda>src_addr.
        io_bind (encrypt_bytes cr n3 (us_payload res) pw) (\<lambda>payload.
          Inr (res\<lparr>us_dst_addr := dst_addr, us_src_addr := src_addr, us_payload := payload\<rparr>)))))"

definition pb_udp_server_write ::
    "(udp_res \<Rightarrow> bytes) \<Rightarrow> 'k crypto \<Rightarrow> string \<Rightarrow> (res_nonces \<times> u64, tcp_write_half) packet_writer" where
  "pb_udp_server_write enc cr pw x packet w =
     (case io_bind (convert_err ''pb tcp udp res convert error'' (udp_res_try_from packet))
             (pb_udp_seal_res cr pw (fst x)) of
        Inl e \<Rightarrow> (w, Inl e)
      | Inr res \<Rightarrow> write_frame tcp_half_write enc (snd x) res w)"

definition pb_udp_open_res :: "'k crypto \<Rightarrow> string \<Rightarrow> udp_res \<Rightarrow> udp_res io" where
  "pb_udp_open_res cr pw res =
     io_bind (opt_field (\<lambda>v. decrypt_field cr v pw) (us_dst_addr res)) (\<lambda>dst_addr.
     io_bind (opt_field (\<lambda>v. decrypt_field cr v pw) (us_src_addr res)) (\<lambda>src_addr.
     io_bind (decrypt_bytes cr (us_payload res) pw) (\<lambda>payload.
       Inr (res\<lparr>us_dst_addr := dst_addr, us_src_addr := src_addr, us_payload := payload\<rparr>))))"

definition pb_udp_client_read ::
    "(bytes \<Rightarrow> string + udp_res) \<Rightarrow> 'k crypto \<Rightarrow> string \<Rightarrow> (tcp_read_half, udp_packet) op" where
  "pb_udp_client_read dec cr pw =
     st_bind (read_msg tcp_half_read dec) (\<lambda>res r.
       (r, io_bind (pb_udp_open_res cr pw res) (\<lambda>res.
           io_bind (udp_res_try_into res) (convert_err ''pb tcp udp res convert error''))))"

section \<open>The six channels\<close>

definition sent_events :: "'m sender \<Rightarrow> 'm grpc_event list" where
  "sent_events w = map GMsg (sd_sent w)"

lemma send_open:
  "sd_closed w = None \<Longrightarrow> send w m = (w\<lparr>sd_sent := sd_sent w @ [m]\<rparr>, Inr ())"
  by (simp add: send_def)

lemma GMsg_Cons: "[GMsg m] @ rest = GMsg m # rest" by simp

interpretation grpc_up: packet_channel "grpc_udp_client_write auth" grpc_udp_server_read
    sent_events ud_events "\<lambda>w. sd_closed w = None" "\<lambda>r. ud_auth r = auth" "\<lambda>_ _. True" for auth
proof (unfold_locales, goal_cases)
  case (1 w x p)
  then show ?case
    by (intro exI [of _ "w\<lparr>sd_sent := sd_sent w @ [udp_req_from_packet p auth]\<rparr>"]
        exI [of _ "[GMsg (udp_req_from_packet p auth)]"])
      (auto simp: grpc_udp_client_write_def send_broken_pipe_def send_open sent_events_def
        grpc_udp_server_read_def udp_convert_roundtrip unwrap_ok_def udp_req_from_packet_def Let_def
        udp_req_try_into_def)
qed

interpretation grpc_down: packet_channel grpc_udp_server_write grpc_udp_client_read
    sent_events "\<lambda>r. r" "\<lambda>w. sd_closed w = None" "\<lambda>_. True" "\<lambda>_ _. True"
proof (unfold_locales, goal_cases)
  case (1 w x p)
  obtain res where r: "udp_res_try_from p = Inr res" "udp_res_try_into res = Inr (Inr p)"
    using udp_convert_roundtrip(2) by blast
  from 1 r show ?case
    by (intro exI [of _ "w\<lparr>sd_sent := sd_sent w @ [res]\<rparr>"] exI [of _ "[GMsg res]"])
      (auto simp: grpc_udp_server_write_def send_interrupted_def send_open sent_events_def
        grpc_udp_client_read_def unwrap_ok_def)
qed

interpretation rev_up: packet_channel "rev_udp_client_write auth" rev_udp_server_read
    sent_events ud_events "\<lambda>w. sd_closed w = None" "\<lambda>r. ud_auth r = auth" "\<lambda>_ _. True" for auth
proof (unfold_locales, goal_cases)
  case (1 w x p)
  then show ?case
    by (intro exI [of _ "w\<lparr>sd_sent := sd_sent w @ [rev_udp_req_from_packet p auth]\<rparr>"]
        exI [of _ "[GMsg (rev_udp_req_from_packet p auth)]"])
      (auto simp: rev_udp_client_write_def send_broken_pipe_def send_open sent_events_def
        rev_udp_server_read_def convert_err_def udp_convert_defs)
qed

interpretation rev_down: packet_channel rev_udp_server_write rev_udp_client_read
    sent_events "\<lambda>r. r" "\<lambda>w. sd_closed w = None" "\<lambda>_. True" "\<lambda>_ _. True"
proof (unfold_locales, goal_cases)
  case (1 w x p)
  obtain res where r: "rev_udp_res_try_from p = Inr res" "rev_udp_res_try_into res = Inr p"
    using udp_convert_roundtrip(4) by blast
  from 1 r show ?case
    by (intro exI [of _ "w\<lparr>sd_sent := sd_sent w @ [res]\<rparr>"] exI [of _ "[GMsg res]"])
      (auto simp: rev_udp_server_write_def send_broken_pipe_def send_open sent_events_def
        rev_udp_client_read_def convert_err_def)
qed

text \<open>What makes a packet sendable over framed TCP: nonces of the right length, texts in UTF-8 within
  the limits of the cipher, and a message within the limit of a frame.\<close>

definition text_ok :: "string \<Rightarrow> bool" where
  "text_ok s \<longleftrightarrow> length s < 2 ^ 32 \<and> utf8_ok (bytes_of_str s)"

definition packet_ok :: "udp_packet \<Rightarrow> bool" where
  "packet_ok p \<longleftrightarrow> text_ok (um_dst_addr (up_meta p)) \<and> text_ok (um_src_addr (up_meta p))
     \<and> length (up_data p) < 2 ^ 32"

definition pb_req_sendable ::
    "(udp_req \<Rightarrow> bytes) \<Rightarrow> (bytes \<Rightarrow> string + udp_req) \<Rightarrow> 'k crypto \<Rightarrow> string \<Rightarrow> string
       \<Rightarrow> req_nonces \<times> u64 \<Rightarrow> udp_packet \<Rightarrow> bool" where
  "pb_req_sendable enc dec cr auth pw x p \<longleftrightarrow>
     codec_ok enc dec \<and> crypto_ok cr \<and> text_ok auth \<and> packet_ok p
   \<and> (case fst x of (n1, n2, n3, n4) \<Rightarrow> length n1 = nonce_len \<and> length n2 = nonce_len
        \<and> length n3 = nonce_len \<and> length n4 = nonce_len)
   \<and> (\<forall>req. pb_udp_seal_req cr pw (fst x) (udp_req_from_packet p auth) = Inr req \<longrightarrow>
        length (enc req) \<le> max_frame)"

definition pb_res_sendable ::
    "(udp_res \<Rightarrow> bytes) \<Rightarrow> (bytes \<Rightarrow> string + udp_res) \<Rightarrow> 'k crypto \<Rightarrow> string
       \<Rightarrow> res_nonces \<times> u64 \<Rightarrow> udp_packet \<Rightarrow> bool" where
  "pb_res_sendable enc dec cr pw x p \<longleftrightarrow>
     codec_ok enc dec \<and> crypto_ok cr \<and> packet_ok p
   \<and> (case fst x of (n1, n2, n3) \<Rightarrow> length n1 = nonce_len \<and> length n2 = nonce_len
        \<and> length n3 = nonce_len)
   \<and> (\<forall>res res'. udp_res_try_from p = Inr res \<longrightarrow> pb_udp_seal_res cr pw (fst x) res = Inr res' \<longrightarrow>
        length (enc res') \<le> max_frame)"

lemma pb_req_sealed:
  assumes "pb_req_sendable enc dec cr auth pw x p"
  shows "\<exists>req q. pb_udp_seal_req cr pw (fst x) (udp_req_from_packet p auth) = Inr req
    \<and> length (enc req) \<le> max_frame \<and> pb_udp_open_req cr auth pw req = Inr q
    \<and> udp_req_try_into q = Inr (Inr p)"
proof -
  obtain n1 n2 n3 n4 r where x: "x = ((n1, n2, n3, n4), r)" by (metis prod.exhaust)
  note a = assms [unfolded pb_req_sendable_def packet_ok_def text_ok_def x fst_conv prod.case]
  from a encrypt_field_ok [of cr n1 auth pw] obtain c1
    where 1: "encrypt_field cr n1 auth pw = Inr c1" "decrypt_field cr c1 pw = Inr auth" by blast
  from a encrypt_field_ok [of cr n2 "um_dst_addr (up_meta p)" pw] obtain c2
    where 2: "encrypt_field cr n2 (um_dst_addr (up_meta p)) pw = Inr c2"
      "decrypt_field cr c2 pw = Inr (um_dst_addr (up_meta p))" by blast
  from a encrypt_field_ok [of cr n3 "um_src_addr (up_meta p)" pw] obtain c3
    where 3: "encrypt_field cr n3 (um_src_addr (up_meta p)) pw = Inr c3"
      "decrypt_field cr c3 pw = Inr (um_src_addr (up_meta p))" by blast
  from a encrypt_bytes_ok [of cr n4 "up_data p" pw] obtain c4
    where 4: "encrypt_bytes cr n4 (up_data p) pw = Inr c4" "decrypt_bytes cr c4 pw = Inr (up_data p)"
    by blast
  let ?req = "(udp_req_from_packet p auth)\<lparr>uq_auth := c1, uq_dst_addr := Some c2,
      uq_src_addr := Some c3, uq_payload := Some c4\<rparr>"
  have s: "pb_udp_seal_req cr pw (fst x) (udp_req_from_packet p auth) = Inr ?req"
    by (simp add: x pb_udp_seal_req_def udp_req_from_packet_def opt_field_def opt_bytes_def 1 2 3 4 Let_def)
  moreover have "length (enc ?req) \<le> max_frame"
    using assms s unfolding pb_req_sendable_def by blast
  moreover have "pb_udp_open_req cr auth pw ?req =
      Inr ((udp_req_from_packet p auth)\<lparr>uq_auth := c1\<rparr>)"
    by (simp add: pb_udp_open_req_def udp_req_from_packet_def opt_field_def opt_bytes_def 1 2 3 4 Let_def)
  moreover have "udp_req_try_into ((udp_req_from_packet p auth)\<lparr>uq_auth := c1\<rparr>) = Inr (Inr p)"
    by (simp add: udp_convert_defs)
  ultimately show ?thesis by blast
qed

lemma pb_res_sealed:
  assumes "pb_res_sendable enc dec cr pw x p" and "udp_res_try_from p = Inr res"
  shows "\<exists>res'. pb_udp_seal_res cr pw (fst x) res = Inr res'
    \<and> length (enc res') \<le> max_frame \<and> pb_udp_open_res cr pw res' = Inr res"
proof -
  obtain n1 n2 n3 r where x: "x = ((n1, n2, n3), r)" by (metis prod.exhaust)
  note a = assms(1) [unfolded pb_res_sendable_def packet_ok_def text_ok_def x fst_conv prod.case]
  have res: "res = \<lparr>us_payload = up_data p, us_dst_addr = Some (um_dst_addr (up_meta p)),
      us_dst_port = Some (u32_of_port (um_dst_port (up_meta p))), us_src_addr = Some (um_src_addr (up_meta p)),
      us_src_port = Some (u32_of_port (um_src_port (up_meta p)))\<rparr>"
    using assms(2) by (auto simp: udp_res_try_from_def Let_def)
  from a encrypt_field_ok [of cr n1 "um_dst_addr (up_meta p)" pw] obtain c1
    where 1: "encrypt_field cr n1 (um_dst_addr (up_meta p)) pw = Inr c1"
      "decrypt_field cr c1 pw = Inr (um_dst_addr (up_meta p))" by blast
  from a encrypt_field_ok [of cr n2 "um_src_addr (up_meta p)" pw] obtain c2
    where 2: "encrypt_field cr n2 (um_src_addr (up_meta p)) pw = Inr c2"
      "decrypt_field cr c2 pw = Inr (um_src_addr (up_meta p))" by blast
  from a encrypt_bytes_ok [of cr n3 "up_data p" pw] obtain c3
    where 3: "encrypt_bytes cr n3 (up_data p) pw = Inr c3" "decrypt_bytes cr c3 pw = Inr (up_data p)"
    by blast
  let ?res = "res\<lparr>us_dst_addr := Some c1, us_src_addr := Some c2, us_payload := c3\<rparr>"
  have s: "pb_udp_seal_res cr pw (fst x) res = Inr ?res"
    by (simp add: x pb_udp_seal_res_def res opt_field_def 1 2 3)
  moreover have "length (enc ?res) \<le> max_frame"
    using assms s unfolding pb_res_sendable_def by blast
  moreover have "pb_udp_open_res cr pw ?res = Inr res"
    by (simp add: pb_udp_open_res_def res opt_field_def 1 2 3)
  ultimately show ?thesis by blast
qed

interpretation pb_up: packet_channel "pb_udp_client_write enc cr auth pw" "pb_udp_server_read dec cr auth pw"
    tw_tx tcp_pending "\<lambda>w. tw_err w = None" tcp_clean "pb_req_sendable enc dec cr auth pw"
  for enc dec cr auth pw
proof (unfold_locales, goal_cases)
  case (1 w x p)
  from pb_req_sealed [OF 1(2)] obtain req q where s: "pb_udp_seal_req cr pw (fst x) (udp_req_from_packet p auth) = Inr req"
    and le: "length (enc req) \<le> max_frame" and o: "pb_udp_open_req cr auth pw req = Inr q"
      "udp_req_try_into q = Inr (Inr p)" by blast
  have codec: "codec_ok enc dec" using 1(2) by (simp add: pb_req_sendable_def)
  have "\<exists>r'. pb_udp_server_read dec cr auth pw r = (r', Inr p) \<and> tcp_pending r' = rest \<and> tcp_clean r'"
    if "tcp_clean r" and "tcp_pending r = frame_bytes (snd x) (enc req) @ rest" for r rest
  proof -
    from tcp_half.read_msg_ok [OF codec that le] obtain r'
      where "read_msg tcp_half_read dec r = (r', Inr req)" "tcp_pending r' = rest" "tcp_clean r'" by blast
    then show ?thesis by (simp add: pb_udp_server_read_def st_bind_def o convert_err_def)
  qed
  with 1(1) s show ?case
    by (intro exI [of _ "w\<lparr>tw_tx := tw_tx w @ frame_bytes (snd x) (enc req)\<rparr>"]
        exI [of _ "frame_bytes (snd x) (enc req)"]) (simp add: pb_udp_client_write_def tcp_write_frame)
qed

interpretation pb_down: packet_channel "pb_udp_server_write enc cr pw" "pb_udp_client_read dec cr pw"
    tw_tx tcp_pending "\<lambda>w. tw_err w = None" tcp_clean "pb_res_sendable enc dec cr pw"
  for enc dec cr pw
proof (unfold_locales, goal_cases)
  case (1 w x p)
  obtain res where res: "udp_res_try_from p = Inr res" "udp_res_try_into res = Inr (Inr p)"
    using udp_convert_roundtrip(2) by blast
  from pb_res_sealed [OF 1(2) res(1)] obtain res' where s: "pb_udp_seal_res cr pw (fst x) res = Inr res'"
    and le: "length (enc res') \<le> max_frame" and o: "pb_udp_open_res cr pw res' = Inr res" by blast
  have codec: "codec_ok enc dec" using 1(2) by (simp add: pb_res_sendable_def)
  have "\<exists>r'. pb_udp_client_read dec cr pw r = (r', Inr p) \<and> tcp_pending r' = rest \<and> tcp_clean r'"
    if "tcp_clean r" and "tcp_pending r = frame_bytes (snd x) (enc res') @ rest" for r rest
  proof -
    from tcp_half.read_msg_ok [OF codec that le] obtain r'
      where "read_msg tcp_half_read dec r = (r', Inr res')" "tcp_pending r' = rest" "tcp_clean r'" by blast
    then show ?thesis by (simp add: pb_udp_client_read_def st_bind_def o res convert_err_def)
  qed
  with 1(1) s res show ?case
    by (intro exI [of _ "w\<lparr>tw_tx := tw_tx w @ frame_bytes (snd x) (enc res')\<rparr>"]
        exI [of _ "frame_bytes (snd x) (enc res')"])
      (simp add: pb_udp_server_write_def tcp_write_frame convert_err_def)
qed

section \<open>Properties\<close>

text \<open>The three UDP tunnels deliver packets unchanged and in order, in both directions: any packets
  written to an open writer are what the other end, with the same token or password, reads, with
  the bytes of a framed connection cut anywhere, and nothing beyond their messages is consumed.\<close>

theorem udp_tunnels_deliver:
  assumes "sd_closed w1 = None" and "sd_closed w2 = None" and "sd_closed w3 = None" and "sd_closed w4 = None"
    and "tw_err w5 = None" and "\<forall>(x, p) \<in> set ps5. pb_req_sendable enc dec cr auth pw x p"
    and "tw_err w6 = None" and "\<forall>(x, p) \<in> set ps6. pb_res_sendable enc' dec' cr pw x p"
  shows "delivers (grpc_udp_client_write auth) grpc_udp_server_read sent_events ud_events
           (\<lambda>r. ud_auth r = auth) ps w1
       \<and> delivers grpc_udp_server_write grpc_udp_client_read sent_events (\<lambda>r. r) (\<lambda>_. True) ps w2
       \<and> delivers (rev_udp_client_write auth) rev_udp_server_read sent_events ud_events
           (\<lambda>r. ud_auth r = auth) ps w3
       \<and> delivers rev_udp_server_write rev_udp_client_read sent_events (\<lambda>r. r) (\<lambda>_. True) ps w4
       \<and> delivers (pb_udp_client_write enc cr auth pw) (pb_udp_server_read dec cr auth pw)
           tw_tx tcp_pending tcp_clean ps5 w5
       \<and> delivers (pb_udp_server_write enc' cr pw) (pb_udp_client_read dec' cr pw)
           tw_tx tcp_pending tcp_clean ps6 w6"
  by (intro conjI grpc_up.packets_delivered grpc_down.packets_delivered rev_up.packets_delivered
      rev_down.packets_delivered pb_up.packets_delivered pb_down.packets_delivered assms) auto

definition demo_packet :: udp_packet where
  "demo_packet = \<lparr>up_meta = \<lparr>um_dst_addr = ''dns'', um_dst_port = 53, um_src_addr = ''10.0.0.9'',
     um_src_port = 4000\<rparr>, up_data = [1, 2, 3]\<rparr>"

lemma udp_tunnels_deliver_witness:
  "\<exists>w' b. write_packets (grpc_udp_client_write ''pw'') [((), demo_packet)] open_sender = (w', Inr ())
     \<and> sent_events w' = b
     \<and> (\<exists>r'. read_packets grpc_udp_server_read 1 \<lparr>ud_events = b, ud_auth = ''pw''\<rparr> = (r', Inr [demo_packet]))"
proof -
  let ?n = "replicate 12 0" and ?w = "\<lparr>tw_tx = [], tw_err = None\<rparr>"
  have open_s: "sd_closed (open_sender :: 'm sender) = None" by (simp add: open_sender_def)
  have w: "tw_err ?w = None" by simp
  have t: "text_ok ''pw''" "packet_ok demo_packet"
    unfolding packet_ok_def text_ok_def demo_packet_def by (simp, code_simp)+
  have rq: "\<forall>(x, p) \<in> set [(((?n, ?n, ?n, ?n), 7), demo_packet)].
      pb_req_sendable enc_udp_req dec_udp_req toy_crypto ''pw'' ''pw'' x p"
    using t toy_crypto_ok [unfolded toy_crypto_def] by (auto simp: pb_req_sendable_def codec_udp_req nonce_len_def pb_udp_seal_req_def
        udp_req_from_packet_def demo_packet_def opt_field_def opt_bytes_def encrypt_field_def
        encrypt_bytes_def toy_crypto_def enc_udp_req_def put_str_def put_u32_def max_frame_def Let_def)
  have rs: "\<forall>(x, p) \<in> set [(((?n, ?n, ?n), 7), demo_packet)].
      pb_res_sendable enc_udp_res dec_udp_res toy_crypto ''pw'' x p"
    using t toy_crypto_ok [unfolded toy_crypto_def] by (auto simp: pb_res_sendable_def codec_udp_res nonce_len_def pb_udp_seal_res_def
        udp_res_try_from_def demo_packet_def opt_field_def encrypt_field_def
        encrypt_bytes_def toy_crypto_def enc_udp_res_def put_str_def put_u32_def max_frame_def Let_def)
  from udp_tunnels_deliver [OF open_s open_s open_s open_s w rq w rs, of "[((), demo_packet)]"]
  have "delivers (grpc_udp_client_write ''pw'') grpc_udp_server_read sent_events ud_events
      (\<lambda>r. ud_auth r = ''pw'') [((), demo_packet)] open_sender" by (rule conjunct1)
  then obtain w' b where wb: "write_packets (grpc_udp_client_write ''pw'') [((), demo_packet)] open_sender = (w', Inr ())"
      "sent_events w' = b"
    and r: "\<forall>r rest. ud_auth r = ''pw'' \<and> ud_events r = b @ rest \<longrightarrow>
      (\<exists>r'. read_packets grpc_udp_server_read 1 r = (r', Inr [demo_packet]) \<and> ud_events r' = rest)"
    unfolding delivers_def by (simp add: open_sender_def sent_events_def) blast
  from r [rule_format, of "\<lparr>ud_events = b, ud_auth = ''pw''\<rparr>" "[]"]
  have "\<exists>r'. read_packets grpc_udp_server_read 1 \<lparr>ud_events = b, ud_auth = ''pw''\<rparr> = (r', Inr [demo_packet])"
    by (simp del: read_packets.simps) blast
  with wb show ?thesis by blast
qed

text \<open>C25: Every packet a tunnel's server takes is authenticated, not only the first: a successful read
  consumed a message that carried the listener's token, encrypted under the password over framed
  TCP.\<close>

theorem udp_reads_authenticated:
  "(grpc_udp_server_read g = (g', Inr p) \<longrightarrow>
      (\<exists>m. ud_events g = GMsg m # ud_events g' \<and> uq_auth m = ud_auth g))
   \<and> (rev_udp_server_read v = (v', Inr p) \<longrightarrow>
      (\<exists>m. ud_events v = GMsg m # ud_events v' \<and> wq_auth m = ud_auth v))
   \<and> (pb_udp_server_read dec cr auth pw r = (r', Inr p) \<longrightarrow>
      (\<exists>k d m. tcp_pending r = frame_bytes k d @ tcp_pending r' \<and> dec d = Inr m
         \<and> decrypt_field cr (uq_auth m) pw = Inr auth))"
proof (intro conjI impI)
  assume "pb_udp_server_read dec cr auth pw r = (r', Inr p)"
  then obtain m where m: "read_msg tcp_half_read dec r = (r', Inr m)"
    and "decrypt_field cr (uq_auth m) pw = Inr auth"
    by (auto simp: pb_udp_server_read_def pb_udp_open_req_def st_bind_def io_bind_eq_Inr
        split: prod.splits sum.splits if_splits)
  moreover from m obtain d where "read_frame tcp_half_read r = (r', Inr d)" "dec d = Inr m"
    by (auto simp: read_msg_eq_Inr)
  ultimately show "\<exists>k d m. tcp_pending r = frame_bytes k d @ tcp_pending r' \<and> dec d = Inr m
         \<and> decrypt_field cr (uq_auth m) pw = Inr auth"
    using tcp_half.read_frame_prefix by blast
qed (auto simp: grpc_udp_server_read_def rev_udp_server_read_def
      split: list.splits grpc_event.splits if_splits)

lemma udp_reads_authenticated_witness:
  "\<exists>g'. grpc_udp_server_read \<lparr>ud_events = [GMsg (udp_req_from_packet demo_packet ''pw'')], ud_auth = ''pw''\<rparr>
      = (g', Inr demo_packet) \<and> uq_auth (udp_req_from_packet demo_packet ''pw'') = ''pw''"
proof -
  let ?m = "udp_req_from_packet demo_packet ''pw''"
  have a: "uq_auth ?m = ''pw''" by (simp add: udp_req_from_packet_def Let_def)
  then have g: "grpc_udp_server_read \<lparr>ud_events = [GMsg ?m], ud_auth = ''pw''\<rparr>
      = (\<lparr>ud_events = [], ud_auth = ''pw''\<rparr>, Inr demo_packet)"
    by (simp add: grpc_udp_server_read_def udp_convert_roundtrip unwrap_ok_def)
  from conjunct1 [OF udp_reads_authenticated, rule_format, OF g] g show ?thesis by auto
qed

end
