(* ===== verification/Rev_Grpc.thy ===== *)
theory Rev_Grpc
  imports Udp_Streams
begin

text \<open>
  The reverse tunnel.  \<open>src/connector/rev_grpc.rs\<close>: the server that reverse clients register with,
  and the connector that asks a registered client to open a stream back, kept in the shared
  \<open>RevGrpcState\<close>.  \<open>src/listener/rev_grpc.rs\<close>: the client.

  A call of \<open>connect\<close> is a task of several steps: it registers a pending connection with the
  sender of a oneshot channel, sends the request to the client's manager channel, and waits for
  the channel, an error or the timeout.  The handlers of the gRPC service do all their work after
  the first message without waiting, so each is one step.  \<open>rev_run\<close> is every interleaving of
  calls, handlers, client actions and timeouts, with the trace of what happened.  Connection ids
  (\<open>uuid::Uuid::new_v4\<close>) and channels are new in each run; timeouts may come at any time.

  The tables of pending streams and of pending UDP associations work alike; \<open>rev_side\<close> is the
  one structure for both, with what a call asked for (\<open>'e\<close>) and what it is handed (\<open>'x\<close>).
\<close>

section \<open>State\<close>

datatype status_code =
  InvalidArgument | Unauthenticated | AlreadyExists | StatusNotFound | Internal | Received

datatype status = Status status_code string

text \<open>\<open>PendingConn\<close> and \<open>PendingUdpConn\<close>: \<open>pe_tx\<close> is the call whose oneshot channel the sender
  belongs to.\<close>

record 'e pending =
  pe_tx :: nat
  pe_pw :: "string option"
  pe_info :: 'e

type_synonym pending_conn = "(string \<times> u16) pending"
type_synonym pending_udp_conn = "unit pending"

datatype 'x oneshot = Unsent | Delivered 'x | TxDropped

datatype 'x call_phase = Sending manager_res | Waiting | Done "'x io"

record ('e, 'x) rev_task =
  rt_id :: string
  rt_chan :: nat
  rt_pw :: "string option"
  rt_info :: 'e
  rt_slot :: "'x oneshot"
  rt_phase :: "'x call_phase"

record ('e, 'x) rev_side =
  rd_table :: "string \<rightharpoonup> 'e pending"
  rd_tasks :: "nat \<rightharpoonup> ('e, 'x) rev_task"

record manager_chan =
  mc_queue :: "manager_res list"
  mc_open :: bool

type_synonym manager_chans = "nat \<rightharpoonup> manager_chan"
type_synonym rev_udp_pair = "rev_udp_req udp_reader \<times> rev_udp_res sender"
type_synonym stream_side = "(string \<times> u16, rev_grpc_server_stream) rev_side"
type_synonym udp_side = "(unit, rev_udp_pair) rev_side"

record rev_state =
  rs_managers :: "string \<rightharpoonup> nat"
  rs_chans :: manager_chans
  rs_sessions :: "nat \<rightharpoonup> string"
  rs_streams :: stream_side
  rs_udps :: udp_side

definition rev_side_new :: "('e, 'x) rev_side" where
  "rev_side_new = \<lparr>rd_table = Map.empty, rd_tasks = Map.empty\<rparr>"

definition rev_state_new :: rev_state where
  "rev_state_new = \<lparr>rs_managers = Map.empty, rs_chans = Map.empty, rs_sessions = Map.empty,
     rs_streams = rev_side_new, rs_udps = rev_side_new\<rparr>"

section \<open>Steps of a call\<close>

definition upd_task :: "nat \<Rightarrow> (('e, 'x) rev_task \<Rightarrow> ('e, 'x) rev_task) \<Rightarrow> ('e, 'x) rev_side \<Rightarrow> ('e, 'x) rev_side" where
  "upd_task n f sd =
     (case rd_tasks sd n of None \<Rightarrow> sd | Some t \<Rightarrow> sd\<lparr>rd_tasks := (rd_tasks sd)(n \<mapsto> f t)\<rparr>)"

definition register ::
    "nat \<Rightarrow> string \<Rightarrow> nat \<Rightarrow> string option \<Rightarrow> 'e \<Rightarrow> manager_res \<Rightarrow> ('e, 'x) rev_side \<Rightarrow> ('e, 'x) rev_side" where
  "register n conn_id ch pw info req sd =
     sd\<lparr>rd_table := (rd_table sd)(conn_id \<mapsto> \<lparr>pe_tx = n, pe_pw = pw, pe_info = info\<rparr>),
        rd_tasks := (rd_tasks sd)(n \<mapsto>
          \<lparr>rt_id = conn_id, rt_chan = ch, rt_pw = pw, rt_info = info, rt_slot = Unsent,
           rt_phase = Sending req\<rparr>)\<rparr>"

text \<open>The pending entry is removed and the call returns an error.\<close>

definition give_up :: "fault \<Rightarrow> nat \<Rightarrow> ('e, 'x) rev_task \<Rightarrow> ('e, 'x) rev_side \<Rightarrow> ('e, 'x) rev_side" where
  "give_up e n t sd =
     upd_task n (\<lambda>t. t\<lparr>rt_phase := Done (Inl e)\<rparr>) (sd\<lparr>rd_table := (rd_table sd)(rt_id t := None)\<rparr>)"

definition manager_cap :: nat where "manager_cap = 32"

definition rev_send ::
    "string \<Rightarrow> nat \<Rightarrow> manager_chans \<times> ('e, 'x) rev_side \<Rightarrow> (manager_chans \<times> ('e, 'x) rev_side) option" where
  "rev_send msg n w =
     (case w of (chans, sd) \<Rightarrow>
        case rd_tasks sd n of
          None \<Rightarrow> None
        | Some t \<Rightarrow>
            (case rt_phase t of
               Sending req \<Rightarrow>
                 (case chans (rt_chan t) of
                    None \<Rightarrow> None
                  | Some c \<Rightarrow>
                      if \<not> mc_open c then
                        Some (chans, give_up (IoError ConnectionAborted (msg @ ''channel closed'')) n t sd)
                      else if length (mc_queue c) < manager_cap then
                        Some (chans(rt_chan t \<mapsto> c\<lparr>mc_queue := mc_queue c @ [req]\<rparr>),
                              upd_task n (\<lambda>t. t\<lparr>rt_phase := Waiting\<rparr>) sd)
                      else None)
             | _ \<Rightarrow> None))"

definition rev_await :: "string \<Rightarrow> nat \<Rightarrow> ('e, 'x) rev_side \<Rightarrow> ('e, 'x) rev_side option" where
  "rev_await closed n sd =
     (case rd_tasks sd n of
        None \<Rightarrow> None
      | Some t \<Rightarrow>
          (case rt_phase t of
             Waiting \<Rightarrow>
               (case rt_slot t of
                  Delivered x \<Rightarrow> Some (upd_task n (\<lambda>t. t\<lparr>rt_phase := Done (Inr x)\<rparr>) sd)
                | TxDropped \<Rightarrow> Some (give_up (IoError ConnectionAborted closed) n t sd)
                | Unsent \<Rightarrow> None)
           | _ \<Rightarrow> None))"

text \<open>\<open>timeout\<close> returns a value that is there, even if the time is up as well.\<close>

definition rev_timeout :: "string \<Rightarrow> nat \<Rightarrow> ('e, 'x) rev_side \<Rightarrow> ('e, 'x) rev_side option" where
  "rev_timeout msg n sd =
     (case rd_tasks sd n of
        None \<Rightarrow> None
      | Some t \<Rightarrow>
          (case (rt_phase t, rt_slot t) of
             (Waiting, Unsent) \<Rightarrow> Some (give_up (IoError TimedOut msg) n t sd)
           | _ \<Rightarrow> None))"

section \<open>The connector\<close>

definition offline :: "string \<Rightarrow> fault" where
  "offline tag = IoError NotConnected (''reverse client '' @ [CHR 0x27] @ tag @ [CHR 0x27] @ '' offline'')"

definition rev_connect ::
    "'v connector_cfg \<Rightarrow> string \<Rightarrow> string \<Rightarrow> nat \<Rightarrow> rev_state \<Rightarrow> rev_state \<times> unit io" where
  "rev_connect cfg addr conn_id n st =
     (case parse_address addr of
        Inl e \<Rightarrow> (st, Inl e)
      | Inr (host, port) \<Rightarrow>
          (case rs_managers st (cc_name cfg) of
             None \<Rightarrow> (st, Inl (offline (cc_name cfg)))
           | Some ch \<Rightarrow>
               let req = \<lparr>ms_addr_info = Some \<lparr>ai_dst_addr = host, ai_dst_port = u32_of_port port,
                                                ai_src_addr = [], ai_src_port = 0\<rparr>,
                          ms_udp = Some 0, ms_conn_id = Some conn_id\<rparr>
               in (st\<lparr>rs_streams := register n conn_id ch (cc_pw cfg) (host, port) req (rs_streams st)\<rparr>,
                   Inr ())))"

definition rev_udp_tunnel ::
    "'v connector_cfg \<Rightarrow> string \<Rightarrow> nat \<Rightarrow> rev_state \<Rightarrow> rev_state \<times> unit io" where
  "rev_udp_tunnel cfg conn_id n st =
     (case rs_managers st (cc_name cfg) of
        None \<Rightarrow> (st, Inl (offline (cc_name cfg)))
      | Some ch \<Rightarrow>
          let req = \<lparr>ms_addr_info = None, ms_udp = Some 1, ms_conn_id = Some conn_id\<rparr>
          in (st\<lparr>rs_udps := register n conn_id ch (cc_pw cfg) () req (rs_udps st)\<rparr>, Inr ()))"

section \<open>The service\<close>

text \<open>The sender of a pending entry: dropped without a value, or used.  \<open>None\<close> when the call has
  returned and dropped the receiver.\<close>

definition drop_tx :: "nat \<Rightarrow> ('e, 'x) rev_side \<Rightarrow> ('e, 'x) rev_side" where
  "drop_tx n = upd_task n (\<lambda>t. t\<lparr>rt_slot := TxDropped\<rparr>)"

definition deliver :: "nat \<Rightarrow> 'x \<Rightarrow> ('e, 'x) rev_side \<Rightarrow> ('e, 'x) rev_side option" where
  "deliver n x sd =
     (case rd_tasks sd n of
        None \<Rightarrow> None
      | Some t \<Rightarrow>
          (case rt_phase t of
             Done _ \<Rightarrow> None
           | _ \<Rightarrow> Some (upd_task n (\<lambda>t. t\<lparr>rt_slot := Delivered x\<rparr>) sd)))"

definition auth_ok :: "string option \<Rightarrow> string \<Rightarrow> bool" where
  "auth_ok expected auth \<longleftrightarrow> (case expected of None \<Rightarrow> True | Some pw \<Rightarrow> auth = pw)"

definition rev_manager ::
    "(string \<rightharpoonup> string option) \<Rightarrow> nat \<Rightarrow> manager_req grpc_event list \<Rightarrow> rev_state
       \<Rightarrow> rev_state \<times> (status + nat)" where
  "rev_manager pw_map ch request st =
     (case request of
        [] \<Rightarrow> (st, Inl (Status InvalidArgument ''missing first auth message''))
      | GStatus e # _ \<Rightarrow> (st, Inl (Status Received e))
      | GMsg first_msg # in_stream \<Rightarrow>
          if (case pw_map (mq_tag first_msg) of
                Some (Some expected_pw) \<Rightarrow> mq_auth first_msg \<noteq> expected_pw
              | _ \<Rightarrow> False)
          then (st, Inl (Status Unauthenticated ''invalid auth''))
          else
            let tag = mq_tag first_msg in
            (case rs_managers st tag of
               Some _ \<Rightarrow>
                 (st, Inl (Status AlreadyExists (''client with tag '' @ [CHR 0x27] @ tag @ [CHR 0x27]
                             @ '' is already connected'')))
             | None \<Rightarrow>
                 (st\<lparr>rs_managers := (rs_managers st)(tag \<mapsto> ch),
                     rs_chans := (rs_chans st)(ch \<mapsto> \<lparr>mc_queue = [], mc_open = True\<rparr>),
                     rs_sessions := (rs_sessions st)(ch \<mapsto> tag)\<rparr>, Inr ch)))"

text \<open>The task that waits for the end of the client's request stream.\<close>

definition rev_session_end :: "nat \<Rightarrow> rev_state \<Rightarrow> rev_state" where
  "rev_session_end ch st =
     (case rs_sessions st ch of
        None \<Rightarrow> st
      | Some tag \<Rightarrow> st\<lparr>rs_managers := (rs_managers st)(tag := None),
                        rs_sessions := (rs_sessions st)(ch := None)\<rparr>)"

definition rev_grpc_server_new ::
    "rev_stream_req grpc_event list \<Rightarrow> string \<Rightarrow> u16 \<Rightarrow> rev_grpc_server_stream" where
  "rev_grpc_server_new in_stream host port =
     \<lparr>st_reader = cached_new in_stream, st_writer = open_sender, st_info = stream_info_default,
      vs_dst_addr = host, vs_dst_port = port\<rparr>"

definition rev_stream ::
    "rev_stream_req grpc_event list \<Rightarrow> stream_side \<Rightarrow> stream_side \<times> (status + unit)" where
  "rev_stream request sd =
     (case request of
        [] \<Rightarrow> (sd, Inl (Status InvalidArgument ''missing first stream message''))
      | GStatus e # _ \<Rightarrow> (sd, Inl (Status Received e))
      | GMsg first_msg # in_stream \<Rightarrow>
          let conn_id = (case vq_conn_id first_msg of None \<Rightarrow> [] | Some i \<Rightarrow> i) in
          if conn_id = [] then (sd, Inl (Status InvalidArgument ''missing conn_id''))
          else
            (case rd_table sd conn_id of
               None \<Rightarrow> (sd, Inl (Status StatusNotFound ''conn_id not found or expired''))
             | Some pending \<Rightarrow>
                 let sd = sd\<lparr>rd_table := (rd_table sd)(conn_id := None)\<rparr> in
                 if \<not> auth_ok (pe_pw pending) (vq_auth first_msg)
                 then (drop_tx (pe_tx pending) sd, Inl (Status Unauthenticated ''invalid auth''))
                 else
                   let run_stream = rev_grpc_server_new in_stream (fst (pe_info pending)) (snd (pe_info pending))
                   in (case deliver (pe_tx pending) run_stream sd of
                         None \<Rightarrow> (sd, Inr ())
                       | Some sd \<Rightarrow> (sd, Inr ()))))"

definition rev_udp ::
    "rev_udp_req grpc_event list \<Rightarrow> udp_side \<Rightarrow> udp_side \<times> (status + unit)" where
  "rev_udp request sd =
     (case request of
        [] \<Rightarrow> (sd, Inl (Status InvalidArgument ''missing first udp message''))
      | GStatus e # _ \<Rightarrow> (sd, Inl (Status Received e))
      | GMsg first_msg # in_stream \<Rightarrow>
          let conn_id = (case wq_conn_id first_msg of None \<Rightarrow> [] | Some i \<Rightarrow> i) in
          if conn_id = [] then (sd, Inl (Status InvalidArgument ''missing conn_id in udp''))
          else
            (case rd_table sd conn_id of
               None \<Rightarrow> (sd, Inl (Status StatusNotFound ''udp conn_id not found or expired''))
             | Some pending \<Rightarrow>
                 let sd = sd\<lparr>rd_table := (rd_table sd)(conn_id := None)\<rparr> in
                 if \<not> auth_ok (pe_pw pending) (wq_auth first_msg)
                 then (drop_tx (pe_tx pending) sd, Inl (Status Unauthenticated ''invalid udp auth''))
                 else
                   let reader = \<lparr>ud_events = in_stream, ud_auth = wq_auth first_msg\<rparr>
                   in (case deliver (pe_tx pending) (reader, open_sender) sd of
                         None \<Rightarrow> (sd, Inl (Status Internal ''failed to deliver udp pair to connector''))
                       | Some sd \<Rightarrow> (sd, Inr ()))))"

text \<open>The passwords by tag, from the configured connectors (\<open>src/main.rs\<close>); of two connectors of one
  name the last counts.\<close>

definition rev_pw_map :: "'v connector_cfg list \<Rightarrow> string \<rightharpoonup> string option" where
  "rev_pw_map connectors =
     map_of (rev (map (\<lambda>c. (cc_name c, cc_pw c)) (filter (\<lambda>c. cc_proto c = ''rev_grpc'') connectors)))"

section \<open>Runs\<close>

datatype rev_label =
    ManagerCall "manager_req grpc_event list" nat
  | ManagerEnd nat
  | ManagerRecv nat manager_res
  | ManagerGone nat
  | Connect nat string
  | UdpTunnel nat
  | StreamCall "rev_stream_req grpc_event list"
  | UdpCall "rev_udp_req grpc_event list"
  | Resume nat

text \<open>A connection id and a call number no call has used.\<close>

definition fresh_call :: "('e, 'x) rev_side \<Rightarrow> string \<Rightarrow> nat \<Rightarrow> bool" where
  "fresh_call sd conn_id n \<longleftrightarrow>
     conn_id \<noteq> [] \<and> rd_tasks sd n = None \<and> (\<forall>m t. rd_tasks sd m = Some t \<longrightarrow> rt_id t \<noteq> conn_id)"

definition stream_send_msg :: string where "stream_send_msg = ''failed to send to manager: ''"
definition udp_send_msg :: string where "udp_send_msg = ''failed to send udp manager req: ''"
definition stream_closed_msg :: string where "stream_closed_msg = ''stream channel closed''"
definition udp_closed_msg :: string where "udp_closed_msg = ''udp channel closed before listener connected''"
definition stream_timeout_msg :: string where "stream_timeout_msg = ''timeout waiting for reverse stream''"
definition udp_timeout_msg :: string where "udp_timeout_msg = ''timeout waiting for reverse udp stream''"

inductive rev_run :: "(string \<rightharpoonup> string option) \<Rightarrow> rev_label list \<Rightarrow> rev_state \<Rightarrow> bool"
  for pw_map :: "string \<rightharpoonup> string option" where
  run_start: "rev_run pw_map [] rev_state_new"
| run_manager: "rev_run pw_map (ManagerCall request ch # tr) st'"
    if "rev_run pw_map tr st" "rs_chans st ch = None" "rev_manager pw_map ch request st = (st', r)"
| run_manager_end: "rev_run pw_map (ManagerEnd ch # tr) (rev_session_end ch st)"
    if "rev_run pw_map tr st" "rs_sessions st ch \<noteq> None"
| run_manager_recv: "rev_run pw_map (ManagerRecv ch m # tr)
      (st\<lparr>rs_chans := (rs_chans st)(ch \<mapsto> c\<lparr>mc_queue := q\<rparr>)\<rparr>)"
    if "rev_run pw_map tr st" "rs_chans st ch = Some c" "mc_open c" "mc_queue c = m # q"
| run_manager_gone: "rev_run pw_map (ManagerGone ch # tr) (st\<lparr>rs_chans := (rs_chans st)(ch \<mapsto> c\<lparr>mc_open := False\<rparr>)\<rparr>)"
    if "rev_run pw_map tr st" "rs_chans st ch = Some c"
| run_connect: "rev_run pw_map (Connect n addr # tr) st'"
    if "rev_run pw_map tr st" "fresh_call (rs_streams st) conn_id n"
       "rev_connect (cfg :: unit connector_cfg) addr conn_id n st = (st', r)"
| run_udp_tunnel: "rev_run pw_map (UdpTunnel n # tr) st'"
    if "rev_run pw_map tr st" "fresh_call (rs_udps st) conn_id n"
       "rev_udp_tunnel (cfg :: unit connector_cfg) conn_id n st = (st', r)"
| run_stream_call: "rev_run pw_map (StreamCall request # tr) (st\<lparr>rs_streams := sd\<rparr>)"
    if "rev_run pw_map tr st" "rev_stream request (rs_streams st) = (sd, r)"
| run_udp_call: "rev_run pw_map (UdpCall request # tr) (st\<lparr>rs_udps := sd\<rparr>)"
    if "rev_run pw_map tr st" "rev_udp request (rs_udps st) = (sd, r)"
| run_send: "rev_run pw_map (Resume n # tr) (st\<lparr>rs_chans := chans, rs_streams := sd\<rparr>)"
    if "rev_run pw_map tr st" "rev_send stream_send_msg n (rs_chans st, rs_streams st) = Some (chans, sd)"
| run_await: "rev_run pw_map (Resume n # tr) (st\<lparr>rs_streams := sd\<rparr>)"
    if "rev_run pw_map tr st" "rev_await stream_closed_msg n (rs_streams st) = Some sd"
| run_timeout: "rev_run pw_map (Resume n # tr) (st\<lparr>rs_streams := sd\<rparr>)"
    if "rev_run pw_map tr st" "rev_timeout stream_timeout_msg n (rs_streams st) = Some sd"
| run_udp_send: "rev_run pw_map (Resume n # tr) (st\<lparr>rs_chans := chans, rs_udps := sd\<rparr>)"
    if "rev_run pw_map tr st" "rev_send udp_send_msg n (rs_chans st, rs_udps st) = Some (chans, sd)"
| run_udp_await: "rev_run pw_map (Resume n # tr) (st\<lparr>rs_udps := sd\<rparr>)"
    if "rev_run pw_map tr st" "rev_await udp_closed_msg n (rs_udps st) = Some sd"
| run_udp_timeout: "rev_run pw_map (Resume n # tr) (st\<lparr>rs_udps := sd\<rparr>)"
    if "rev_run pw_map tr st" "rev_timeout udp_timeout_msg n (rs_udps st) = Some sd"

section \<open>What the tables hold\<close>

abbreviation call_done :: "('e, 'x) rev_task \<Rightarrow> bool" where
  "call_done t \<equiv> (case rt_phase t of Done _ \<Rightarrow> True | _ \<Rightarrow> False)"

text \<open>A call that has not returned and whose sender has been neither used nor dropped.\<close>

definition open_call :: "('e, 'x) rev_task \<Rightarrow> bool" where
  "open_call t \<longleftrightarrow> \<not> call_done t \<and> rt_slot t = Unsent"

text \<open>The pending table holds exactly the open calls, and no two calls have the same id.  The second part: what a
  call was handed satisfies \<open>P\<close>.\<close>

definition table_ok :: "('e, 'x) rev_side \<Rightarrow> bool" where
  "table_ok sd \<longleftrightarrow>
     (\<forall>i p. rd_table sd i = Some p \<longrightarrow>
        (\<exists>t. rd_tasks sd (pe_tx p) = Some t \<and> open_call t \<and> rt_id t = i
           \<and> pe_pw p = rt_pw t \<and> pe_info p = rt_info t))
   \<and> (\<forall>n t. rd_tasks sd n = Some t \<and> open_call t \<longrightarrow>
        (\<exists>p. rd_table sd (rt_id t) = Some p \<and> pe_tx p = n))
   \<and> (\<forall>m n t u. rd_tasks sd m = Some t \<and> rd_tasks sd n = Some u \<and> rt_id t = rt_id u \<longrightarrow> m = n)"

definition handed :: "('e, 'x) rev_task \<Rightarrow> 'x \<Rightarrow> bool" where
  "handed t x \<longleftrightarrow> rt_slot t = Delivered x \<or> rt_phase t = Done (Inr x)"

definition handed_ok :: "(string \<Rightarrow> string option \<Rightarrow> 'e \<Rightarrow> 'x \<Rightarrow> bool) \<Rightarrow> ('e, 'x) rev_side \<Rightarrow> bool" where
  "handed_ok P sd \<longleftrightarrow>
     (\<forall>n t x. rd_tasks sd n = Some t \<and> handed t x \<longrightarrow> P (rt_id t) (rt_pw t) (rt_info t) x)"

lemma table_okI:
  assumes "\<And>i p. rd_table sd i = Some p \<Longrightarrow>
      \<exists>t. rd_tasks sd (pe_tx p) = Some t \<and> open_call t \<and> rt_id t = i \<and> pe_pw p = rt_pw t \<and> pe_info p = rt_info t"
    and "\<And>n t. rd_tasks sd n = Some t \<Longrightarrow> open_call t \<Longrightarrow> \<exists>p. rd_table sd (rt_id t) = Some p \<and> pe_tx p = n"
    and "\<And>m n t u. rd_tasks sd m = Some t \<Longrightarrow> rd_tasks sd n = Some u \<Longrightarrow> rt_id t = rt_id u \<Longrightarrow> m = n"
  shows "table_ok sd"
  unfolding table_ok_def using assms by blast

lemma table_okD:
  assumes "table_ok sd"
  shows "rd_table sd i = Some p \<Longrightarrow>
      \<exists>t. rd_tasks sd (pe_tx p) = Some t \<and> open_call t \<and> rt_id t = i \<and> pe_pw p = rt_pw t \<and> pe_info p = rt_info t"
    and "rd_tasks sd n = Some t \<Longrightarrow> open_call t \<Longrightarrow> \<exists>p. rd_table sd (rt_id t) = Some p \<and> pe_tx p = n"
    and "rd_tasks sd m = Some t \<Longrightarrow> rd_tasks sd n = Some u \<Longrightarrow> rt_id t = rt_id u \<Longrightarrow> m = n"
  using assms unfolding table_ok_def by blast+

lemma side_new_ok: "table_ok rev_side_new" "handed_ok P rev_side_new"
  by (simp_all add: table_ok_def handed_ok_def rev_side_new_def)

text \<open>A task changes in its slot and phase only; what a closed call has in the table is gone.\<close>

definition same_call :: "(('e, 'x) rev_task \<Rightarrow> ('e, 'x) rev_task) \<Rightarrow> bool" where
  "same_call f \<longleftrightarrow> (\<forall>t. rt_id (f t) = rt_id t \<and> rt_pw (f t) = rt_pw t \<and> rt_info (f t) = rt_info t)"

lemma upd_task_tasks:
  "rd_tasks (upd_task n f sd) m =
     (if m = n then map_option f (rd_tasks sd n) else rd_tasks sd m)"
  "rd_table (upd_task n f sd) = rd_table sd"
  by (auto simp: upd_task_def split: option.split)

lemma update_open:
  assumes "table_ok sd" and "same_call f" and "rd_tasks sd n = Some t"
    and "open_call (f t) = open_call t"
  shows "table_ok (upd_task n f sd)"
proof -
  note d = table_okD [OF assms(1)]
  have f: "rt_id (f u) = rt_id u" "rt_pw (f u) = rt_pw u" "rt_info (f u) = rt_info u" for u
    using assms(2) by (simp_all add: same_call_def)
  show ?thesis
  proof (rule table_okI, goal_cases)
    case (1 i p)
    then have "rd_table sd i = Some p" by (simp add: upd_task_tasks)
    from d(1) [OF this] show ?case using assms(3,4) f by (auto simp: upd_task_tasks)
  next
    case (2 m u)
    then have "\<exists>v. rd_tasks sd m = Some v \<and> open_call v \<and> rt_id v = rt_id u"
      using assms(3,4) f by (auto simp: upd_task_tasks split: if_splits)
    then show ?case using d(2) [of m] by (auto simp: upd_task_tasks)
  next
    case (3 m k u v)
    then show ?case using d(3) f by (auto simp: upd_task_tasks split: if_splits)
  qed
qed

lemma update_closed:
  assumes "table_ok sd" and "same_call f" and "rd_tasks sd n = Some t" and "\<not> open_call (f t)"
  shows "table_ok (upd_task n f (sd\<lparr>rd_table := (rd_table sd)(rt_id t := None)\<rparr>))"
proof -
  note d = table_okD [OF assms(1)]
  have f: "rt_id (f u) = rt_id u" "rt_pw (f u) = rt_pw u" "rt_info (f u) = rt_info u" for u
    using assms(2) by (simp_all add: same_call_def)
  show ?thesis
  proof (rule table_okI, goal_cases)
    case (1 i p)
    then have i: "rd_table sd i = Some p" "i \<noteq> rt_id t" by (auto simp: upd_task_tasks split: if_splits)
    from d(1) [OF i(1)] i(2) show ?case using assms(3) by (auto simp: upd_task_tasks)
  next
    case (2 m u)
    then have m: "m \<noteq> n" "rd_tasks sd m = Some u" "open_call u"
      using assms(3,4) by (auto simp: upd_task_tasks split: if_splits)
    with d(3) [OF m(2) assms(3)] have "rt_id u \<noteq> rt_id t" by blast
    with d(2) [OF m(2,3)] show ?case by (auto simp: upd_task_tasks)
  next
    case (3 m k u v)
    then show ?case using d(3) f by (auto simp: upd_task_tasks split: if_splits)
  qed
qed

text \<open>What is handed to a task by an update is what \<open>P\<close> must hold of.\<close>

lemma update_handed:
  assumes "handed_ok P sd" and "same_call f"
    and "\<And>t x. rd_tasks sd n = Some t \<Longrightarrow> handed (f t) x \<Longrightarrow> \<not> handed t x \<Longrightarrow> P (rt_id t) (rt_pw t) (rt_info t) x"
  shows "handed_ok P (upd_task n f (sd\<lparr>rd_table := tb\<rparr>))"
  using assms unfolding handed_ok_def same_call_def
  by (auto simp: upd_task_tasks split: if_splits) metis+

lemma handed_table [simp]: "handed_ok P (sd\<lparr>rd_table := tb\<rparr>) = handed_ok P sd"
  by (simp add: handed_ok_def)

lemma register_table:
  assumes "table_ok sd" and "fresh_call sd i n"
  shows "table_ok (register n i ch pw info req sd)"
proof -
  note d = table_okD [OF assms(1)] and f = assms(2) [unfolded fresh_call_def]
  show ?thesis
  proof (rule table_okI, goal_cases)
    case (1 j p)
    then show ?case
    proof (cases "j = i")
      case True
      with 1 show ?thesis by (auto simp: register_def open_call_def)
    next
      case False
      with 1 have "rd_table sd j = Some p" by (simp add: register_def)
      from d(1) [OF this] f show ?thesis by (auto simp: register_def)
    qed
  next
    case (2 m u)
    then show ?case using d(2) [of m u] f by (cases "m = n") (auto simp: register_def)
  next
    case (3 m k u v)
    have "rd_tasks sd k = Some v \<Longrightarrow> rt_id v \<noteq> i" "rd_tasks sd m = Some u \<Longrightarrow> rt_id u \<noteq> i"
      using f by blast+
    with 3 show ?case using d(3) [of m u k v]
      by (cases "m = n"; cases "k = n") (auto simp: register_def)
  qed
qed

lemma register_handed: "handed_ok P sd \<Longrightarrow> handed_ok P (register n i ch pw info req sd)"
  by (auto simp: handed_ok_def register_def handed_def)

subsection \<open>Every step keeps the tables\<close>

definition side_ok :: "(string \<Rightarrow> string option \<Rightarrow> 'e \<Rightarrow> 'x \<Rightarrow> bool) \<Rightarrow> ('e, 'x) rev_side \<Rightarrow> bool" where
  "side_ok P sd \<longleftrightarrow> table_ok sd \<and> handed_ok P sd"

lemma side_ok_new: "side_ok P rev_side_new" by (simp add: side_ok_def side_new_ok)

lemma side_ok_register: "side_ok P sd \<Longrightarrow> fresh_call sd i n \<Longrightarrow> side_ok P (register n i ch pw info req sd)"
  by (simp add: side_ok_def register_table register_handed)

lemma side_ok_mono: "side_ok P sd \<Longrightarrow> (\<And>i pw e x. P i pw e x \<Longrightarrow> Q i pw e x) \<Longrightarrow> side_ok Q sd"
  by (auto simp: side_ok_def handed_ok_def)

lemma side_ok_open:
  assumes "side_ok P sd" and "same_call f" and "rd_tasks sd n = Some t"
    and "open_call (f t) = open_call t" and "\<And>x. handed (f t) x \<Longrightarrow> handed t x"
  shows "side_ok P (upd_task n f sd)"
  using update_open [OF _ assms(2-4)] update_handed [of P sd f n "rd_table sd", OF _ assms(2)] assms(1,3,5)
  by (auto simp: side_ok_def)

lemma side_ok_closed:
  assumes "side_ok P sd" and "same_call f" and "rd_tasks sd n = Some t" and "\<not> open_call (f t)"
    and "\<And>x. handed (f t) x \<Longrightarrow> \<not> handed t x \<Longrightarrow> P (rt_id t) (rt_pw t) (rt_info t) x"
  shows "side_ok P (upd_task n f (sd\<lparr>rd_table := (rd_table sd)(rt_id t := None)\<rparr>))"
  using update_closed [OF _ assms(2-4)] assms(1,3,5)
    update_handed [of P sd f n "(rd_table sd)(rt_id t := None)", OF _ assms(2)]
  by (auto simp: side_ok_def)

lemma give_up_ok:
  assumes "side_ok P sd" and "rd_tasks sd n = Some t"
  shows "side_ok P (give_up e n t sd)"
  unfolding give_up_def
  by (rule side_ok_closed [OF assms(1) _ assms(2)])
    (simp_all add: same_call_def open_call_def handed_def)

lemma rev_send_ok:
  assumes "side_ok P sd" and "rev_send msg n (chans, sd) = Some (chans', sd')"
  shows "side_ok P sd'"
proof -
  from assms(2) obtain t req where t: "rd_tasks sd n = Some t" "rt_phase t = Sending req"
    by (auto simp: rev_send_def split: option.splits call_phase.splits)
  have "side_ok P (upd_task n (\<lambda>t. t\<lparr>rt_phase := Waiting\<rparr>) sd)"
    by (rule side_ok_open [OF assms(1) _ t(1)]) (simp_all add: same_call_def open_call_def handed_def t(2))
  with give_up_ok [OF assms(1) t(1)] assms(2) t show ?thesis
    by (auto simp: rev_send_def split: option.splits if_splits)
qed

lemma rev_await_ok:
  assumes "side_ok P sd" and "rev_await closed n sd = Some sd'"
  shows "side_ok P sd'"
proof -
  from assms(2) obtain t where t: "rd_tasks sd n = Some t" "rt_phase t = Waiting"
    by (auto simp: rev_await_def split: option.splits call_phase.splits)
  have "side_ok P (upd_task n (\<lambda>t. t\<lparr>rt_phase := Done (Inr x)\<rparr>) sd)" if "rt_slot t = Delivered x" for x
    by (rule side_ok_open [OF assms(1) _ t(1)]) (auto simp: same_call_def open_call_def handed_def that)
  with give_up_ok [OF assms(1) t(1)] assms(2) t show ?thesis
    by (auto simp: rev_await_def split: oneshot.splits)
qed

lemma rev_timeout_ok:
  assumes "side_ok P sd" and "rev_timeout msg n sd = Some sd'"
  shows "side_ok P sd'"
  using assms give_up_ok [OF assms(1)]
  by (auto simp: rev_timeout_def split: option.splits call_phase.splits oneshot.splits)

lemma claim_entry:
  assumes "side_ok P sd" and "rd_table sd i = Some p"
  shows "side_ok P (drop_tx (pe_tx p) (sd\<lparr>rd_table := (rd_table sd)(i := None)\<rparr>))"
    and "P i (pe_pw p) (pe_info p) x \<Longrightarrow>
      \<exists>sd'. deliver (pe_tx p) x (sd\<lparr>rd_table := (rd_table sd)(i := None)\<rparr>) = Some sd' \<and> side_ok P sd'"
proof -
  from assms obtain t where t: "rd_tasks sd (pe_tx p) = Some t" "open_call t" "rt_id t = i"
    "pe_pw p = rt_pw t" "pe_info p = rt_info t"
    using table_okD(1) [of sd i p] by (auto simp: side_ok_def)
  have "side_ok P (upd_task (pe_tx p) (\<lambda>t. t\<lparr>rt_slot := TxDropped\<rparr>)
      (sd\<lparr>rd_table := (rd_table sd)(rt_id t := None)\<rparr>))"
    by (rule side_ok_closed [OF assms(1) _ t(1)]) (simp_all add: same_call_def open_call_def handed_def)
  then show "side_ok P (drop_tx (pe_tx p) (sd\<lparr>rd_table := (rd_table sd)(i := None)\<rparr>))"
    by (simp add: drop_tx_def t(3))
  assume P: "P i (pe_pw p) (pe_info p) x"
  have "side_ok P (upd_task (pe_tx p) (\<lambda>t. t\<lparr>rt_slot := Delivered x\<rparr>)
      (sd\<lparr>rd_table := (rd_table sd)(rt_id t := None)\<rparr>))"
    by (rule side_ok_closed [OF assms(1) _ t(1)])
      (use P t in \<open>auto simp: same_call_def open_call_def handed_def\<close>)
  with t(1-3) show "\<exists>sd'. deliver (pe_tx p) x (sd\<lparr>rd_table := (rd_table sd)(i := None)\<rparr>) = Some sd' \<and> side_ok P sd'"
    by (auto simp: deliver_def open_call_def split: call_phase.splits)
qed

text \<open>Where a stream or a pair that a call was handed comes from.\<close>

definition stream_origin ::
    "rev_label list \<Rightarrow> string \<Rightarrow> string option \<Rightarrow> string \<times> u16 \<Rightarrow> rev_grpc_server_stream \<Rightarrow> bool" where
  "stream_origin tr i pw info x \<longleftrightarrow>
     (\<exists>m in_stream. StreamCall (GMsg m # in_stream) \<in> set tr \<and> vq_conn_id m = Some i
        \<and> auth_ok pw (vq_auth m) \<and> x = rev_grpc_server_new in_stream (fst info) (snd info))"

definition udp_origin ::
    "rev_label list \<Rightarrow> string \<Rightarrow> string option \<Rightarrow> unit \<Rightarrow> rev_udp_pair \<Rightarrow> bool" where
  "udp_origin tr i pw _ x \<longleftrightarrow>
     (\<exists>m in_stream. UdpCall (GMsg m # in_stream) \<in> set tr \<and> wq_conn_id m = Some i
        \<and> auth_ok pw (wq_auth m) \<and> x = (\<lparr>ud_events = in_stream, ud_auth = wq_auth m\<rparr>, open_sender))"

lemma stream_origin_Cons: "stream_origin tr i pw e x \<Longrightarrow> stream_origin (l # tr) i pw e x"
  by (auto simp: stream_origin_def)

lemma udp_origin_Cons: "udp_origin tr i pw e x \<Longrightarrow> udp_origin (l # tr) i pw e x"
  by (auto simp: udp_origin_def)

lemma rev_stream_ok:
  assumes "side_ok (stream_origin tr) sd" and "rev_stream request sd = (sd', r)"
  shows "side_ok (stream_origin (StreamCall request # tr)) sd'"
proof -
  let ?P = "stream_origin (StreamCall request # tr)"
  have s: "side_ok ?P sd" using assms(1) by (rule side_ok_mono) (rule stream_origin_Cons)
  show ?thesis
  proof (cases "\<exists>m r p. request = GMsg m # r \<and> vq_conn_id m \<noteq> None \<and> rd_table sd (the (vq_conn_id m)) = Some p
      \<and> the (vq_conn_id m) \<noteq> []")
    case False
    with assms(2) s show ?thesis
      by (auto simp: rev_stream_def Let_def split: list.splits grpc_event.splits option.splits if_splits)
  next
    case True
    then obtain m rest i p where m: "request = GMsg m # rest" "vq_conn_id m = Some i" "rd_table sd i = Some p" "i \<noteq> []"
      by auto
    let ?x = "rev_grpc_server_new rest (fst (pe_info p)) (snd (pe_info p))"
    show ?thesis
    proof (cases "auth_ok (pe_pw p) (vq_auth m)")
      case False
      with m assms(2) claim_entry(1) [OF s m(3)] show ?thesis by (auto simp: rev_stream_def)
    next
      case True
      with m have "?P i (pe_pw p) (pe_info p) ?x" by (auto simp: stream_origin_def)
      from claim_entry(2) [OF s m(3), of ?x, OF this] True m assms(2) show ?thesis
        by (auto simp: rev_stream_def)
    qed
  qed
qed

lemma rev_udp_ok:
  assumes "side_ok (udp_origin tr) sd" and "rev_udp request sd = (sd', r)"
  shows "side_ok (udp_origin (UdpCall request # tr)) sd'"
proof -
  let ?P = "udp_origin (UdpCall request # tr)"
  have s: "side_ok ?P sd" using assms(1) by (rule side_ok_mono) (rule udp_origin_Cons)
  show ?thesis
  proof (cases "\<exists>m r p. request = GMsg m # r \<and> wq_conn_id m \<noteq> None \<and> rd_table sd (the (wq_conn_id m)) = Some p
      \<and> the (wq_conn_id m) \<noteq> []")
    case False
    with assms(2) s show ?thesis
      by (auto simp: rev_udp_def Let_def split: list.splits grpc_event.splits option.splits if_splits)
  next
    case True
    then obtain m rest i p where m: "request = GMsg m # rest" "wq_conn_id m = Some i" "rd_table sd i = Some p" "i \<noteq> []"
      by auto
    let ?x = "(\<lparr>ud_events = rest, ud_auth = wq_auth m\<rparr>, open_sender)"
    show ?thesis
    proof (cases "auth_ok (pe_pw p) (wq_auth m)")
      case False
      with m assms(2) claim_entry(1) [OF s m(3)] show ?thesis by (auto simp: rev_udp_def)
    next
      case True
      with m have "?P i (pe_pw p) (pe_info p) ?x" by (auto simp: udp_origin_def)
      from claim_entry(2) [OF s m(3), of ?x, OF this] True m assms(2) show ?thesis
        by (auto simp: rev_udp_def)
    qed
  qed
qed

subsection \<open>The state of a run\<close>

text \<open>A tag is registered exactly while the task that watches its client's request stream runs.\<close>

definition sessions_ok :: "rev_state \<Rightarrow> bool" where
  "sessions_ok st \<longleftrightarrow>
     (\<forall>ch tag. rs_sessions st ch = Some tag \<longleftrightarrow> rs_managers st tag = Some ch)
   \<and> (\<forall>ch tag. rs_managers st tag = Some ch \<longrightarrow> rs_chans st ch \<noteq> None)"

definition rev_ok :: "rev_label list \<Rightarrow> rev_state \<Rightarrow> bool" where
  "rev_ok tr st \<longleftrightarrow> side_ok (stream_origin tr) (rs_streams st) \<and> side_ok (udp_origin tr) (rs_udps st)
     \<and> sessions_ok st"

lemma rev_ok_Cons: "rev_ok tr st \<Longrightarrow> rev_ok (l # tr) st"
  by (auto simp: rev_ok_def intro: side_ok_mono stream_origin_Cons udp_origin_Cons)

lemma sessions_ok_sides [simp]:
  "sessions_ok (st\<lparr>rs_streams := x\<rparr>) = sessions_ok st" "sessions_ok (st\<lparr>rs_udps := y\<rparr>) = sessions_ok st"
  by (simp_all add: sessions_ok_def)

lemma rev_manager_sessions:
  assumes "sessions_ok st" and "rs_chans st ch = None" and "rev_manager pw_map ch request st = (st', r)"
  shows "sessions_ok st'" "rs_streams st' = rs_streams st" "rs_udps st' = rs_udps st"
proof -
  have m: "rs_managers st tag \<noteq> Some ch" for tag using assms(1,2) by (auto simp: sessions_ok_def)
  moreover have "rs_sessions st ch \<noteq> Some tag" for tag using assms(1) m by (auto simp: sessions_ok_def)
  ultimately have "sessions_ok (st\<lparr>rs_managers := (rs_managers st)(tag \<mapsto> ch),
      rs_chans := (rs_chans st)(ch \<mapsto> c), rs_sessions := (rs_sessions st)(ch \<mapsto> tag)\<rparr>)"
    if "rs_managers st tag = None" for tag c
    using assms(1) that by (auto simp: sessions_ok_def)
  then show "sessions_ok st'" "rs_streams st' = rs_streams st" "rs_udps st' = rs_udps st"
    using assms(1,3)
    by (auto simp: rev_manager_def Let_def split: list.splits grpc_event.splits option.splits if_splits)
qed

lemma rev_session_end_ok:
  assumes "sessions_ok st"
  shows "sessions_ok (rev_session_end ch st)"
proof (cases "rs_sessions st ch")
  case None
  with assms show ?thesis by (simp add: rev_session_end_def)
next
  case (Some tag)
  with assms have one: "rs_sessions st c = Some tag \<longleftrightarrow> c = ch" for c
    by (auto simp: sessions_ok_def)
  have "rev_session_end ch st = st\<lparr>rs_managers := (rs_managers st)(tag := None),
      rs_sessions := (rs_sessions st)(ch := None)\<rparr>"
    by (simp add: rev_session_end_def Some)
  moreover have "rs_managers st t = Some ch \<longleftrightarrow> t = tag" for t
    using Some assms unfolding sessions_ok_def by (metis option.inject)
  ultimately show ?thesis using assms one by (auto simp: sessions_ok_def)
qed

lemma rev_run_ok: "rev_run pw_map tr st \<Longrightarrow> rev_ok tr st"
proof (induction rule: rev_run.induct)
  case run_start
  show ?case by (simp add: rev_ok_def rev_state_new_def side_ok_new sessions_ok_def)
next
  case (run_manager tr st ch request st' r)
  from rev_manager_sessions [OF _ run_manager(2,3)] rev_ok_Cons [OF run_manager(4)] show ?case
    by (simp add: rev_ok_def)
next
  case (run_manager_end tr st ch)
  from rev_ok_Cons [OF run_manager_end(3)] rev_session_end_ok [of st ch] show ?case
    by (auto simp: rev_ok_def rev_session_end_def split: option.splits)
next
  case (run_manager_recv tr st ch c m q)
  from rev_ok_Cons [OF run_manager_recv(5)] show ?case by (auto simp: rev_ok_def sessions_ok_def)
next
  case (run_manager_gone tr st ch c)
  from rev_ok_Cons [OF run_manager_gone(3)] show ?case by (auto simp: rev_ok_def sessions_ok_def)
next
  case (run_connect tr st conn_id n cfg addr st' r)
  from rev_ok_Cons [OF run_connect(4)] side_ok_register [OF _ run_connect(2)] run_connect(3) show ?case
    by (auto simp: rev_ok_def rev_connect_def split: sum.splits option.splits)
next
  case (run_udp_tunnel tr st conn_id n cfg st' r)
  from rev_ok_Cons [OF run_udp_tunnel(4)] side_ok_register [OF _ run_udp_tunnel(2)] run_udp_tunnel(3) show ?case
    by (auto simp: rev_ok_def rev_udp_tunnel_def split: option.splits)
next
  case (run_stream_call tr st request sd r)
  then have "side_ok (stream_origin tr) (rs_streams st)" by (simp add: rev_ok_def)
  from rev_stream_ok [OF this run_stream_call(2)] rev_ok_Cons [OF run_stream_call(3)] show ?case
    by (simp add: rev_ok_def)
next
  case (run_udp_call tr st request sd r)
  then have "side_ok (udp_origin tr) (rs_udps st)" by (simp add: rev_ok_def)
  from rev_udp_ok [OF this run_udp_call(2)] rev_ok_Cons [OF run_udp_call(3)] show ?case
    by (simp add: rev_ok_def)
next
  case (run_send tr st n chans sd)
  have "dom chans = dom (rs_chans st)"
    using run_send(2) by (auto simp: rev_send_def split: option.splits call_phase.splits if_splits)
  then have "rs_chans st ch \<noteq> None \<longleftrightarrow> chans ch \<noteq> None" for ch by (auto simp: dom_def)
  with rev_ok_Cons [OF run_send(3)] rev_send_ok [OF _ run_send(2)] show ?case
    by (auto simp: rev_ok_def sessions_ok_def)
next
  case (run_await tr st n sd)
  from rev_ok_Cons [OF run_await(3)] rev_await_ok [OF _ run_await(2)] show ?case
    by (simp add: rev_ok_def)
next
  case (run_timeout tr st n sd)
  from rev_ok_Cons [OF run_timeout(3)] rev_timeout_ok [OF _ run_timeout(2)] show ?case
    by (simp add: rev_ok_def)
next
  case (run_udp_send tr st n chans sd)
  have "dom chans = dom (rs_chans st)"
    using run_udp_send(2) by (auto simp: rev_send_def split: option.splits call_phase.splits if_splits)
  then have "rs_chans st ch \<noteq> None \<longleftrightarrow> chans ch \<noteq> None" for ch by (auto simp: dom_def)
  with rev_ok_Cons [OF run_udp_send(3)] rev_send_ok [OF _ run_udp_send(2)] show ?case
    by (auto simp: rev_ok_def sessions_ok_def)
next
  case (run_udp_await tr st n sd)
  from rev_ok_Cons [OF run_udp_await(3)] rev_await_ok [OF _ run_udp_await(2)] show ?case
    by (simp add: rev_ok_def)
next
  case (run_udp_timeout tr st n sd)
  from rev_ok_Cons [OF run_udp_timeout(3)] rev_timeout_ok [OF _ run_udp_timeout(2)] show ?case
    by (simp add: rev_ok_def)
qed

section \<open>A run\<close>

text \<open>A client registers, a call of \<open>connect\<close> asks it for a stream, the client calls back.\<close>

definition demo_rev_cfg :: "unit connector_cfg" where
  "demo_rev_cfg = \<lparr>cc_endpoint = None, cc_name = ''home'', cc_user = None, cc_pw = Some ''pw'',
     cc_proto = ''rev_grpc'', cc_options = None\<rparr>"

definition demo_manager :: "manager_req grpc_event list" where
  "demo_manager = [GMsg \<lparr>mq_auth = ''pw'', mq_tag = ''home'', mq_addr_info = None, mq_udp = None, mq_conn_id = None\<rparr>]"

definition demo_call :: rev_stream_req where
  "demo_call = \<lparr>vq_auth = ''pw'', vq_payload = None, vq_conn_id = Some ''i''\<rparr>"

definition demo_trace :: "rev_label list" where
  "demo_trace = [Resume 0, StreamCall [GMsg demo_call], Resume 0, Connect 0 ''a.b:80'', ManagerCall demo_manager 0]"

lemma demo_run:
  "\<exists>st t. rev_run Map.empty demo_trace st \<and> rd_tasks (rs_streams st) 0 = Some t \<and> rt_id t = ''i''
     \<and> rt_phase t = Done (Inr (rev_grpc_server_new [] ''a.b'' 80)) \<and> rs_managers st ''home'' = Some 0"
proof -
  have addr: "parse_address ''a.b:80'' = Inr (''a.b'', 80)" by (rule demo_address)
  let ?new = "rev_side_new :: udp_side"
  let ?s1 = "\<lparr>rs_managers = [''home'' \<mapsto> 0], rs_chans = [0 \<mapsto> \<lparr>mc_queue = [], mc_open = True\<rparr>],
    rs_sessions = [0 \<mapsto> ''home''], rs_streams = rev_side_new, rs_udps = ?new\<rparr>"
  let ?req = "\<lparr>ms_addr_info = Some \<lparr>ai_dst_addr = ''a.b'', ai_dst_port = u32_of_port 80, ai_src_addr = [], ai_src_port = 0\<rparr>,
    ms_udp = Some 0, ms_conn_id = Some ''i''\<rparr>"
  let ?task = "\<lambda>slot ph. \<lparr>rt_id = ''i'', rt_chan = 0, rt_pw = Some ''pw'', rt_info = (''a.b'', 80 :: u16), rt_slot = slot, rt_phase = ph\<rparr>"
  let ?entry = "\<lparr>pe_tx = 0, pe_pw = Some ''pw'', pe_info = (''a.b'', 80 :: u16)\<rparr>"
  let ?d2 = "\<lparr>rd_table = [''i'' \<mapsto> ?entry], rd_tasks = [0 \<mapsto> ?task Unsent (Sending ?req)]\<rparr>"
  let ?d3 = "\<lparr>rd_table = [''i'' \<mapsto> ?entry], rd_tasks = [0 \<mapsto> ?task Unsent Waiting]\<rparr>"
  let ?x = "rev_grpc_server_new [] ''a.b'' 80"
  let ?d4 = "\<lparr>rd_table = Map.empty, rd_tasks = [0 \<mapsto> ?task (Delivered ?x) Waiting]\<rparr>"
  let ?d5 = "\<lparr>rd_table = Map.empty, rd_tasks = [0 \<mapsto> ?task (Delivered ?x) (Done (Inr ?x))]\<rparr>"
  let ?chans = "[0 \<mapsto> \<lparr>mc_queue = [?req], mc_open = True\<rparr>]"
  have m: "rev_manager Map.empty 0 demo_manager rev_state_new = (?s1, Inr 0)"
    by (simp add: rev_manager_def demo_manager_def rev_state_new_def Let_def)
  have "rev_run Map.empty [ManagerCall demo_manager 0] ?s1"
    by (rule run_manager [OF run_start _ m]) (simp add: rev_state_new_def)
  moreover have "rev_connect demo_rev_cfg ''a.b:80'' ''i'' 0 ?s1 = (?s1\<lparr>rs_streams := ?d2\<rparr>, Inr ())"
    by (simp add: rev_connect_def addr demo_rev_cfg_def register_def rev_side_new_def Let_def)
  moreover have "fresh_call (rs_streams ?s1) ''i'' 0" by (simp add: fresh_call_def rev_side_new_def)
  ultimately have "rev_run Map.empty [Connect 0 ''a.b:80'', ManagerCall demo_manager 0] (?s1\<lparr>rs_streams := ?d2\<rparr>)"
    using run_connect by blast
  moreover have "rev_send stream_send_msg 0 (rs_chans ?s1, ?d2) = Some (?chans, ?d3)"
    by (simp add: rev_send_def upd_task_def manager_cap_def)
  ultimately have "rev_run Map.empty [Resume 0, Connect 0 ''a.b:80'', ManagerCall demo_manager 0]
      (?s1\<lparr>rs_chans := ?chans, rs_streams := ?d3\<rparr>)"
    using run_send [of Map.empty _ "?s1\<lparr>rs_streams := ?d2\<rparr>" 0 ?chans ?d3] by simp
  moreover have "rev_stream [GMsg demo_call] ?d3 = (?d4, Inr ())"
    by (simp add: rev_stream_def demo_call_def auth_ok_def deliver_def upd_task_def Let_def)
  ultimately have "rev_run Map.empty [StreamCall [GMsg demo_call], Resume 0, Connect 0 ''a.b:80'', ManagerCall demo_manager 0]
      (?s1\<lparr>rs_chans := ?chans, rs_streams := ?d4\<rparr>)"
    using run_stream_call [of Map.empty _ "?s1\<lparr>rs_chans := ?chans, rs_streams := ?d3\<rparr>" "[GMsg demo_call]" ?d4] by simp
  moreover have "rev_await stream_closed_msg 0 ?d4 = Some ?d5"
    by (simp add: rev_await_def upd_task_def)
  ultimately have "rev_run Map.empty demo_trace (?s1\<lparr>rs_chans := ?chans, rs_streams := ?d5\<rparr>)"
    using run_await [of Map.empty _ "?s1\<lparr>rs_chans := ?chans, rs_streams := ?d4\<rparr>" 0 ?d5]
    by (simp add: demo_trace_def)
  then show ?thesis by (intro exI conjI) auto
qed

section \<open>Properties\<close>





end
