(* ===== verification/Rev_Client.thy ===== *)
theory Rev_Client
  imports Rev_Grpc
begin

text \<open>
  The client end of the reverse tunnel, \<open>src/listener/rev_grpc.rs\<close>: a task that connects to the
  server, registers with it, and opens a stream or a UDP call for every request it is sent, and the
  acceptor that takes what it opened from two queues.  What the gRPC client answers (a channel, a
  registration, an opened call) is an argument.  A step of the task that has to wait, for a full
  queue, is not enabled.
\<close>

section \<open>One request of the server\<close>

type_synonym rev_client_pair = "rev_udp_res grpc_event list \<times> rev_udp_req sender \<times> string"
type_synonym rev_queues = "(rev_grpc_client_stream, rev_client_pair) acc_queues"

record rev_client_calls =
  rc_stream :: "rev_stream_req \<Rightarrow> string + rev_stream_res grpc_event list"
  rc_udp :: "rev_udp_req \<Rightarrow> string + rev_udp_res grpc_event list"

definition rev_first :: "string \<Rightarrow> manager_res \<Rightarrow> rev_stream_req" where
  "rev_first auth req =
     \<lparr>vq_auth = auth, vq_payload = None,
      vq_conn_id = Some (case ms_conn_id req of None \<Rightarrow> [] | Some i \<Rightarrow> i)\<rparr>"

definition rev_udp_first :: "string \<Rightarrow> manager_res \<Rightarrow> rev_udp_req" where
  "rev_udp_first auth req =
     \<lparr>wq_auth = auth, wq_payload = None, wq_addr_info = None,
      wq_conn_id = Some (case ms_conn_id req of None \<Rightarrow> [] | Some i \<Rightarrow> i)\<rparr>"

text \<open>The inner result is the function's own \<open>Result<(), ()>\<close>; \<open>gone\<close> says that the acceptor dropped
  the receivers.  The first send is to a channel whose receiver is at hand, so it does not fail.\<close>

definition handle_manage_req ::
    "rev_client_calls \<Rightarrow> string \<Rightarrow> bool \<Rightarrow> manager_res \<Rightarrow> rev_queues
       \<Rightarrow> (rev_queues \<times> (unit + unit) io) option" where
  "handle_manage_req calls auth gone req q =
     (case unwrap (ms_udp req) of
        Inl e \<Rightarrow> Some (q, Inl e)
      | Inr udp \<Rightarrow>
          if udp = 0 then
            (case rc_stream calls (rev_first auth req) of
               Inl e \<Rightarrow> Some (q, Inr (Inr ()))
             | Inr stream \<Rightarrow>
                 let stx = \<lparr>sd_sent = [rev_first auth req], sd_closed = None\<rparr>
                 in (case unwrap (ms_addr_info req) of
                       Inl e \<Rightarrow> Some (q, Inl e)
                     | Inr addr_info \<Rightarrow>
                         let new_stream = rev_grpc_client_set_info (\<lambda>x. x\<lparr>
                               si_protocol_name := ''rev_grpc'',
                               si_src_addr := Some (ai_src_addr addr_info),
                               si_src_port := Some (port_of_u32 (ai_src_port addr_info)),
                               si_dst_addr := Some (ai_dst_addr addr_info),
                               si_dst_port := Some (port_of_u32 (ai_dst_port addr_info)),
                               si_udp := Some False\<rparr>) (rev_grpc_client_stream_new stream stx)
                         in if gone then Some (q, Inr (Inl ()))
                            else map_option (\<lambda>q. (q, Inr (Inr ()))) (send_stream new_stream q)))
          else
            (case rc_udp calls (rev_udp_first auth req) of
               Inl e \<Rightarrow> Some (q, Inr (Inr ()))
             | Inr res_stream \<Rightarrow>
                 let utx = \<lparr>sd_sent = [rev_udp_first auth req], sd_closed = None\<rparr>
                 in if gone then Some (q, Inr (Inl ()))
                    else map_option (\<lambda>q. (q, Inr (Inr ()))) (send_udp (res_stream, utx, auth) q)))"

section \<open>The task\<close>

text \<open>\<open>Crashed\<close> is the task after a panic, which has dropped the senders of both queues.\<close>

datatype rev_client_phase =
    Connecting
  | Registering
  | Managing "manager_res grpc_event list"
  | Crashed

definition manager_first :: "string \<Rightarrow> string \<Rightarrow> manager_req" where
  "manager_first auth tag =
     \<lparr>mq_auth = auth, mq_tag = tag, mq_addr_info = None, mq_udp = None, mq_conn_id = None\<rparr>"

definition rev_client_step ::
    "(string + unit) \<Rightarrow> (manager_req \<Rightarrow> string + manager_res grpc_event list) \<Rightarrow> rev_client_calls
       \<Rightarrow> string \<Rightarrow> string \<Rightarrow> bool \<Rightarrow> rev_client_phase \<times> rev_queues
       \<Rightarrow> (rev_client_phase \<times> rev_queues) option" where
  "rev_client_step connect manager_call calls auth tag gone w =
     (case w of (ph, q) \<Rightarrow>
        (case ph of
           Connecting \<Rightarrow>
             (case connect of Inr _ \<Rightarrow> Some (Registering, q) | Inl e \<Rightarrow> Some (Connecting, q))
         | Registering \<Rightarrow>
             (case manager_call (manager_first auth tag) of
                Inr manager_stream \<Rightarrow> Some (Managing manager_stream, q)
              | Inl e \<Rightarrow> Some (Connecting, q))
         | Managing [] \<Rightarrow> Some (Connecting, q)
         | Managing (GStatus e # _) \<Rightarrow> Some (Connecting, q)
         | Managing (GMsg req # r) \<Rightarrow>
             (case handle_manage_req calls auth gone req q of
                None \<Rightarrow> None
              | Some (q, Inr (Inr _)) \<Rightarrow> Some (Managing r, q)
              | Some (q, Inr (Inl _)) \<Rightarrow> Some (Connecting, q)
              | Some (q, Inl panic) \<Rightarrow> Some (Crashed, q\<lparr>aq_open := False\<rparr>))
         | Crashed \<Rightarrow> None))"

section \<open>The acceptor\<close>

definition rev_listen :: "(string \<Rightarrow> bool) \<Rightarrow> 'v listener_cfg \<Rightarrow> string \<Rightarrow> (string \<times> string \<times> rev_queues) io" where
  "rev_listen endpoint_ok cfg addr =
     (if \<not> endpoint_ok addr then Inl (IoError Other ''rev grpc endpoint new error'')
      else io_bind (unwrap (lc_pw cfg)) (\<lambda>auth. Inr (auth, lc_name cfg, acc_queues_new)))"

definition rev_accept ::
    "bool \<Rightarrow> rev_queues
       \<Rightarrow> (rev_queues \<times> ((rev_grpc_client_stream, rev_client_pair) acc_stream \<times> socket_addr) io) option" where
  "rev_accept udp_first = queue_accept udp_first ''udp receiver closed'' ''receiver closed''"

definition rev_handshake :: "(rev_grpc_client_stream, run_addr \<times> bytes option) op" where
  "rev_handshake s =
     (let info = msg_get_info s in
      (s, io_bind (unwrap (si_dst_addr info)) (\<lambda>addr.
          io_bind (unwrap (si_dst_port info)) (\<lambda>port.
          io_bind (unwrap (si_udp info)) (\<lambda>udp.
            Inr (\<lparr>ra_addr = addr, ra_port = port, ra_udp = udp\<rparr>, None))))))"

section \<open>A connection through the tunnel\<close>

lemma rev_connect_new:
  assumes "rs_managers st (cc_name cfg) = Some ch" and "parse_address addr = Inr (host, port)"
  shows "rev_connect cfg addr i n st =
    (st\<lparr>rs_streams := register n i ch (cc_pw cfg) (host, port)
        \<lparr>ms_addr_info = Some \<lparr>ai_dst_addr = host, ai_dst_port = u32_of_port port, ai_src_addr = [], ai_src_port = 0\<rparr>,
         ms_udp = Some 0, ms_conn_id = Some i\<rparr> (rs_streams st)\<rparr>, Inr ())"
  using assms by (simp add: rev_connect_def)

text \<open>The call that answers the request of a new call: what the service does with it, by its password.\<close>

definition sent_call :: "nat \<Rightarrow> string \<Rightarrow> nat \<Rightarrow> string option \<Rightarrow> 'e \<Rightarrow> ('e, 'x) rev_side \<Rightarrow> ('e, 'x) rev_side" where
  "sent_call n i ch pw info sd =
     \<lparr>rd_table = (rd_table sd)(i \<mapsto> \<lparr>pe_tx = n, pe_pw = pw, pe_info = info\<rparr>),
      rd_tasks = (rd_tasks sd)(n \<mapsto> \<lparr>rt_id = i, rt_chan = ch, rt_pw = pw, rt_info = info,
        rt_slot = Unsent, rt_phase = Waiting\<rparr>)\<rparr>"

lemma send_new:
  assumes "chans ch = Some c" and "mc_open c" and "length (mc_queue c) < manager_cap"
  shows "rev_send msg n (chans, register n i ch pw info req sd) =
    Some (chans(ch \<mapsto> c\<lparr>mc_queue := mc_queue c @ [req]\<rparr>), sent_call n i ch pw info sd)"
  using assms by (simp add: rev_send_def register_def upd_task_def sent_call_def)

lemma stream_answer:
  assumes "i \<noteq> []" and "vq_conn_id m = Some i"
  shows "rev_stream (GMsg m # later) (sent_call n i ch pw info sd) =
    (if auth_ok pw (vq_auth m)
     then (\<lparr>rd_table = (rd_table sd)(i := None), rd_tasks = (rd_tasks sd)(n \<mapsto>
            \<lparr>rt_id = i, rt_chan = ch, rt_pw = pw, rt_info = info,
             rt_slot = Delivered (rev_grpc_server_new later (fst info) (snd info)), rt_phase = Waiting\<rparr>)\<rparr>, Inr ())
     else (\<lparr>rd_table = (rd_table sd)(i := None), rd_tasks = (rd_tasks sd)(n \<mapsto>
            \<lparr>rt_id = i, rt_chan = ch, rt_pw = pw, rt_info = info, rt_slot = TxDropped, rt_phase = Waiting\<rparr>)\<rparr>,
           Inl (Status Unauthenticated ''invalid auth'')))"
  using assms by (simp add: rev_stream_def sent_call_def deliver_def drop_tx_def upd_task_def)

definition returned :: "('e, 'x) rev_side option \<Rightarrow> nat \<Rightarrow> 'x io option" where
  "returned w n =
     (case w of None \<Rightarrow> None
      | Some sd \<Rightarrow> (case rd_tasks sd n of None \<Rightarrow> None
                    | Some t \<Rightarrow> (case rt_phase t of Done r \<Rightarrow> Some r | _ \<Rightarrow> None)))"

lemma await_delivered:
  "rd_tasks sd n = Some t \<Longrightarrow> rt_phase t = Waiting \<Longrightarrow> rt_slot t = Delivered x \<Longrightarrow>
    returned (rev_await closed n sd) n = Some (Inr x)"
  by (simp add: rev_await_def returned_def upd_task_def)

lemma await_dropped:
  "rd_tasks sd n = Some t \<Longrightarrow> rt_phase t = Waiting \<Longrightarrow> rt_slot t = TxDropped \<Longrightarrow>
    returned (rev_await closed n sd) n = Some (Inl (IoError ConnectionAborted closed))"
  by (simp add: rev_await_def returned_def give_up_def upd_task_def)

text \<open>C32: A connection through the reverse tunnel.  With a registered client whose password is the
  connector's, the request that \<open>connect\<close> puts on the manager channel makes the client call back
  with the id and the password; its acceptor gets a stream whose handshake says the host, port and
  TCP of the address that was asked for, and \<open>connect\<close> returns a stream to that host and
  port carrying the messages the client sends after its first.\<close>

theorem rev_tunnel_setup:
  assumes "rs_managers st (cc_name cfg) = Some ch" and "rs_chans st ch = Some c" and "mc_open c"
    and "length (mc_queue c) < manager_cap" and "parse_address addr = Inr (host, port)"
    and "cc_pw cfg = Some pw" and "i \<noteq> []" and "length (aq_streams q) < queue_cap"
    and "rc_stream calls (rev_first pw req) = Inr evs"
    and "req = \<lparr>ms_addr_info = Some \<lparr>ai_dst_addr = host, ai_dst_port = u32_of_port port,
      ai_src_addr = [], ai_src_port = 0\<rparr>, ms_udp = Some 0, ms_conn_id = Some i\<rparr>"
  shows "\<exists>st1 chans sd c' q' s m.
      rev_connect cfg addr i n st = (st1, Inr ())
    \<and> rev_send stream_send_msg n (rs_chans st1, rs_streams st1) = Some (chans, sd)
    \<and> chans ch = Some c' \<and> mc_queue c' = mc_queue c @ [req]
    \<and> handle_manage_req calls pw False req q = Some (q', Inr (Inr ()))
    \<and> aq_streams q' = aq_streams q @ [s] \<and> sd_sent (st_writer s) = [m]
    \<and> rev_handshake s = (s, Inr (\<lparr>ra_addr = host, ra_port = port, ra_udp = False\<rparr>, None))
    \<and> returned (rev_await stream_closed_msg n (fst (rev_stream (GMsg m # later) sd))) n
      = Some (Inr (rev_grpc_server_new later host port))"
proof -
  let ?side = "sent_call n i ch (Some pw) (host, port) (rs_streams st)"
  let ?s = "msg_set_info (\<lambda>x. x\<lparr>si_protocol_name := ''rev_grpc'', si_src_addr := Some [],
      si_src_port := Some (port_of_u32 0), si_dst_addr := Some host, si_dst_port := Some port,
      si_udp := Some False\<rparr>) (msg_stream_new evs \<lparr>sd_sent = [rev_first pw req], sd_closed = None\<rparr>)"
  note conn = rev_connect_new [OF assms(1,5), of i n, folded assms(10)]
  note snd = send_new [of "rs_chans st" ch c, OF assms(2-4), of stream_send_msg n i "Some pw" "(host, port)" req "rs_streams st"]
  have h: "handle_manage_req calls pw False req q = Some (q\<lparr>aq_streams := aq_streams q @ [?s]\<rparr>, Inr (Inr ()))"
    using assms(8,9) by (simp add: handle_manage_req_def assms(10) send_stream_def)
  have "rev_handshake ?s = (?s, Inr (\<lparr>ra_addr = host, ra_port = port, ra_udp = False\<rparr>, None))"
    by (simp add: rev_handshake_def msg_set_info_def)
  moreover have "vq_conn_id (rev_first pw req) = Some i" "auth_ok (Some pw) (vq_auth (rev_first pw req))"
    by (simp_all add: rev_first_def assms(10) auth_ok_def)
  then have "returned (rev_await stream_closed_msg n (fst (rev_stream (GMsg (rev_first pw req) # later) ?side))) n
      = Some (Inr (rev_grpc_server_new later host port))"
    by (intro await_delivered, simp add: stream_answer [OF assms(7)], simp_all)
  ultimately show ?thesis using conn snd h assms(6)
    by (intro exI [of _ "st\<lparr>rs_streams := register n i ch (Some pw) (host, port) req (rs_streams st)\<rparr>"]
        exI [of _ "(rs_chans st)(ch \<mapsto> c\<lparr>mc_queue := mc_queue c @ [req]\<rparr>)"] exI [of _ ?side]
        exI [of _ "c\<lparr>mc_queue := mc_queue c @ [req]\<rparr>"] exI [of _ "q\<lparr>aq_streams := aq_streams q @ [?s]\<rparr>"]
        exI [of _ ?s] exI [of _ "rev_first pw req"])
      (simp add: msg_set_info_def msg_stream_new_def)
qed

lemma rev_tunnel_setup_witness:
  "\<exists>st st1 chans sd m.
      rev_connect demo_rev_cfg ''a.b:80'' ''i'' 0 st = (st1, Inr ())
    \<and> rev_send stream_send_msg 0 (rs_chans st1, rs_streams st1) = Some (chans, sd)
    \<and> returned (rev_await stream_closed_msg 0 (fst (rev_stream [GMsg m, GMsg (rev_stream_req_default\<lparr>vq_payload := Some [1]\<rparr>)] sd))) 0
      = Some (Inr (rev_grpc_server_new [GMsg (rev_stream_req_default\<lparr>vq_payload := Some [1]\<rparr>)] ''a.b'' 80))"
proof -
  let ?st = "rev_state_new\<lparr>rs_managers := [''home'' \<mapsto> 0], rs_chans := [0 \<mapsto> \<lparr>mc_queue = [], mc_open = True\<rparr>]\<rparr>"
  let ?req = "\<lparr>ms_addr_info = Some \<lparr>ai_dst_addr = ''a.b'', ai_dst_port = u32_of_port 80, ai_src_addr = [], ai_src_port = 0\<rparr>,
    ms_udp = Some 0, ms_conn_id = Some ''i''\<rparr>"
  let ?calls = "\<lparr>rc_stream = \<lambda>_. Inr [], rc_udp = \<lambda>_. Inl ''no''\<rparr>"
  have "rs_managers ?st (cc_name demo_rev_cfg) = Some 0" "cc_pw demo_rev_cfg = Some ''pw''"
    by (simp_all add: demo_rev_cfg_def)
  moreover have "rs_chans ?st 0 = Some \<lparr>mc_queue = [], mc_open = True\<rparr>" by simp
  moreover have "length (mc_queue \<lparr>mc_queue = [], mc_open = True\<rparr>) < manager_cap"
    "length (aq_streams (acc_queues_new :: rev_queues)) < queue_cap"
    by (simp_all add: manager_cap_def acc_queues_new_def queue_cap_def)
  moreover have "mc_open \<lparr>mc_queue = [], mc_open = True\<rparr>" "''i'' \<noteq> []"
    "rc_stream ?calls (rev_first ''pw'' ?req) = Inr []" by simp_all
  ultimately show ?thesis
    using rev_tunnel_setup [of ?st demo_rev_cfg 0 "\<lparr>mc_queue = [], mc_open = True\<rparr>" "''a.b:80''" "''a.b''" 80 "''pw''" "''i''"
        acc_queues_new ?calls ?req "[]" 0 "[GMsg (rev_stream_req_default\<lparr>vq_payload := Some [1]\<rparr>)]", OF _ _ _ _ demo_address]
    by blast
qed

text \<open>A client that names a waiting connection's id with a wrong password does more than be refused:
  the pending entry is taken before the password is looked at, so the waiting \<open>connect\<close>
  fails at once, and the right client's call that follows is told the id is unknown.\<close>

theorem rev_wrong_password_aborts:
  assumes "i \<noteq> []" and "vq_conn_id bad = Some i" and "vq_auth bad \<noteq> pw"
    and "vq_conn_id good = Some i" and "vq_auth good = pw"
    and "rev_stream (GMsg bad # evil) (sent_call n i ch (Some pw) info sd) = (sd1, r1)"
    and "rev_stream (GMsg good # later) sd1 = (sd2, r2)"
  shows "r1 = Inl (Status Unauthenticated ''invalid auth'')
    \<and> returned (rev_await stream_closed_msg n sd1) n = Some (Inl (IoError ConnectionAborted stream_closed_msg))
    \<and> r2 = Inl (Status StatusNotFound ''conn_id not found or expired'')"
proof -
  from assms(6) have sd1: "r1 = Inl (Status Unauthenticated ''invalid auth'')"
    "rd_table sd1 i = None" "rd_tasks sd1 n = Some \<lparr>rt_id = i, rt_chan = ch, rt_pw = Some pw, rt_info = info,
       rt_slot = TxDropped, rt_phase = Waiting\<rparr>"
    using assms(3) by (auto simp: stream_answer [OF assms(1,2)] auth_ok_def)
  from await_dropped [OF sd1(3)] sd1(1,2) assms(1,4,7) show ?thesis by (auto simp: rev_stream_def)
qed

lemma rev_wrong_password_aborts_witness:
  "\<exists>sd1 r1. rev_stream [GMsg (demo_call\<lparr>vq_auth := ''x''\<rparr>)]
        (sent_call 0 ''i'' 0 (Some ''pw'') (''a.b'', 80) rev_side_new) = (sd1, r1)
     \<and> returned (rev_await stream_closed_msg 0 sd1) 0 = Some (Inl (IoError ConnectionAborted stream_closed_msg))
     \<and> snd (rev_stream [GMsg demo_call] sd1) = Inl (Status StatusNotFound ''conn_id not found or expired'')"
proof -
  obtain sd1 r1 where 1: "rev_stream [GMsg (demo_call\<lparr>vq_auth := ''x''\<rparr>)]
      (sent_call 0 ''i'' 0 (Some ''pw'') (''a.b'', 80) rev_side_new) = (sd1, r1)" by fastforce
  obtain sd2 r2 where 2: "rev_stream [GMsg demo_call] sd1 = (sd2, r2)" by fastforce
  have "vq_conn_id (demo_call\<lparr>vq_auth := ''x''\<rparr>) = Some ''i''" "vq_auth (demo_call\<lparr>vq_auth := ''x''\<rparr>) \<noteq> ''pw''"
    "vq_conn_id demo_call = Some ''i''" "vq_auth demo_call = ''pw''"
    by (simp_all add: demo_call_def)
  from rev_wrong_password_aborts [OF _ this 1 2] 1 2 show ?thesis by auto
qed

end
