(* ===== verification/Router.thy ===== *)
theory Router
  imports Config Resolver
begin

text \<open>
  \<open>src/router.rs\<close> and \<open>src/router/\<close> without the resolver: matchers compiled from lines of route data,
  the loading of that data, exclusion rules, and the choice of a connector for an address.

  The regular expressions and the two network types (\<open>ipnetwork\<close> in the matchers, \<open>ipnet\<close> in the
  exclusion rules) are library types: the record \<open>net_lib\<close> holds the operations the code calls on
  them.  The files and the web pages that route data is read from are the record \<open>data_world\<close>.  The
  resolver is an operation with a state, under the contract \<open>name_resolver\<close>.  Log messages are not
  modelled.
\<close>

record ('n, 'm, 'r) net_lib =
  nl_network :: "string \<Rightarrow> 'n option"
  nl_contains :: "'n \<Rightarrow> ip_addr \<Rightarrow> bool"
  nl_ipnet :: "string \<Rightarrow> 'm option"
  nl_ipnet_contains :: "'m \<Rightarrow> ip_addr \<Rightarrow> bool"
  nl_regex :: "string \<Rightarrow> 'r option"
  nl_is_match :: "'r \<Rightarrow> string \<Rightarrow> bool"

section \<open>Matchers\<close>

definition FORMAT_REGEX :: string where "FORMAT_REGEX = ''regex''"
definition FORMAT_CIDR :: string where "FORMAT_CIDR = ''cidr''"
definition FORMAT_LAN :: string where "FORMAT_LAN = ''lan''"

record 'n cidr_line =
  cl_cidr :: "'n option"
  cl_host :: "string option"

record ('n, 'r) regex_line =
  rl_regex :: "'r option"
  rl_cidr :: "'n option"
  rl_host :: "string option"

datatype ('n, 'r) matcher =
    CIDRMatcher "'n cidr_line list"
  | RegexMatcher "('n, 'r) regex_line list"

fun cidr_lines :: "('n, 'm, 'r) net_lib \<Rightarrow> string list \<Rightarrow> 'n cidr_line list" where
  "cidr_lines lib [] = []"
| "cidr_lines lib (l # ls) =
     (let t = trim l in
      if t = [] then cidr_lines lib ls
      else (case nl_network lib t of
              Some cidr \<Rightarrow> \<lparr>cl_cidr = Some cidr, cl_host = None\<rparr>
            | None \<Rightarrow> \<lparr>cl_cidr = None, cl_host = Some t\<rparr>) # cidr_lines lib ls)"

definition cidr_matcher_factory :: "('n, 'm, 'r) net_lib \<Rightarrow> string list \<Rightarrow> ('n, 'r) matcher" where
  "cidr_matcher_factory lib ls = CIDRMatcher (cidr_lines lib ls)"

definition cidr_match_line :: "('n, 'm, 'r) net_lib \<Rightarrow> 'n cidr_line \<Rightarrow> string \<Rightarrow> bool" where
  "cidr_match_line lib item line =
     (let by_host = (case cl_host item of Some h \<Rightarrow> h = line | None \<Rightarrow> False) in
      case cl_cidr item of
        Some cidr \<Rightarrow> (case parse_ip line of Some ip \<Rightarrow> nl_contains lib cidr ip | None \<Rightarrow> by_host)
      | None \<Rightarrow> by_host)"

definition parse_regex_line :: "('n, 'm, 'r) net_lib \<Rightarrow> string \<Rightarrow> ('n, 'r) regex_line" where
  "parse_regex_line lib line =
     (case nl_network lib line of
        Some cidr \<Rightarrow> \<lparr>rl_regex = None, rl_cidr = Some cidr, rl_host = None\<rparr>
      | None \<Rightarrow>
          (case nl_regex lib line of
             Some re \<Rightarrow> \<lparr>rl_regex = Some re, rl_cidr = None, rl_host = None\<rparr>
           | None \<Rightarrow> \<lparr>rl_regex = None, rl_cidr = None, rl_host = Some line\<rparr>))"

fun regex_lines :: "('n, 'm, 'r) net_lib \<Rightarrow> string list \<Rightarrow> ('n, 'r) regex_line list" where
  "regex_lines lib [] = []"
| "regex_lines lib (l # ls) =
     (let t = trim l in
      if t = [] then regex_lines lib ls else parse_regex_line lib t # regex_lines lib ls)"

definition regex_matcher_factory :: "('n, 'm, 'r) net_lib \<Rightarrow> string list \<Rightarrow> ('n, 'r) matcher" where
  "regex_matcher_factory lib ls = RegexMatcher (regex_lines lib ls)"

definition regex_match_line :: "('n, 'm, 'r) net_lib \<Rightarrow> ('n, 'r) regex_line \<Rightarrow> string \<Rightarrow> bool" where
  "regex_match_line lib item host =
     (let by_host = (case rl_host item of Some h \<Rightarrow> h = host | None \<Rightarrow> False) in
      case parse_ip host of
        Some ip \<Rightarrow> (case rl_cidr item of Some cidr \<Rightarrow> nl_contains lib cidr ip | None \<Rightarrow> by_host)
      | None \<Rightarrow> (case rl_regex item of Some re \<Rightarrow> nl_is_match lib re host | None \<Rightarrow> by_host))"

fun any_line :: "('l \<Rightarrow> bool) \<Rightarrow> 'l list \<Rightarrow> bool" where
  "any_line p [] = False"
| "any_line p (item # ls) = (if p item then True else any_line p ls)"

fun match_host :: "('n, 'm, 'r) net_lib \<Rightarrow> ('n, 'r) matcher \<Rightarrow> string \<Rightarrow> bool" where
  "match_host lib (CIDRMatcher ls) host = any_line (\<lambda>i. cidr_match_line lib i host) ls"
| "match_host lib (RegexMatcher ls) host = any_line (\<lambda>i. regex_match_line lib i host) ls"

definition get_matcher_factory_fn ::
    "('n, 'm, 'r) net_lib \<Rightarrow> string \<Rightarrow> (string list \<Rightarrow> ('n, 'r) matcher) option" where
  "get_matcher_factory_fn lib name =
     (if name = FORMAT_CIDR then Some (cidr_matcher_factory lib)
      else if name = FORMAT_REGEX then Some (regex_matcher_factory lib)
      else None)"

text \<open>What a line of data means, in either format.\<close>

definition line_matches :: "('n, 'm, 'r) net_lib \<Rightarrow> bool \<Rightarrow> string \<Rightarrow> string \<Rightarrow> bool" where
  "line_matches lib regex t host \<longleftrightarrow>
     (case (nl_network lib t, parse_ip host) of
        (Some n, Some ip) \<Rightarrow> nl_contains lib n ip
      | (Some n, None) \<Rightarrow> False
      | (None, Some ip) \<Rightarrow> host = t \<and> (regex \<longrightarrow> nl_regex lib t = None)
      | (None, None) \<Rightarrow>
          (case (if regex then nl_regex lib t else None) of
             Some re \<Rightarrow> nl_is_match lib re host
           | None \<Rightarrow> host = t))"

lemma any_line_iff: "any_line p ls \<longleftrightarrow> (\<exists>i \<in> set ls. p i)"
  by (induction ls) auto

lemma cidr_match_iff:
  "match_host lib (cidr_matcher_factory lib ls) host \<longleftrightarrow>
     (\<exists>l \<in> set ls. trim l \<noteq> [] \<and> line_matches lib False (trim l) host)"
  by (induction ls)
    (auto simp: cidr_matcher_factory_def cidr_match_line_def line_matches_def Let_def
      split: option.splits)

lemma regex_match_iff:
  "match_host lib (regex_matcher_factory lib ls) host \<longleftrightarrow>
     (\<exists>l \<in> set ls. trim l \<noteq> [] \<and> line_matches lib True (trim l) host)"
  by (induction ls)
    (auto simp: regex_matcher_factory_def parse_regex_line_def regex_match_line_def
      line_matches_def Let_def split: option.splits)

section \<open>Exclusion rules\<close>

datatype ('m, 'r) exclude_rule = ExIp ip_addr | ExCidr 'm | ExRegex 'r

fun exclude_new :: "('n, 'm, 'r) net_lib \<Rightarrow> string list \<Rightarrow> ('m, 'r) exclude_rule list" where
  "exclude_new lib [] = []"
| "exclude_new lib (e # es) =
     (if CHR 0x2F \<in> set e then
        (case nl_ipnet lib e of
           Some network \<Rightarrow> ExCidr network # exclude_new lib es | None \<Rightarrow> exclude_new lib es)
      else
        (case parse_ip e of
           Some ip \<Rightarrow> ExIp ip # exclude_new lib es
         | None \<Rightarrow>
             (case nl_regex lib e of
                Some re \<Rightarrow> ExRegex re # exclude_new lib es | None \<Rightarrow> exclude_new lib es)))"

fun exclude_rule_match :: "('n, 'm, 'r) net_lib \<Rightarrow> string \<Rightarrow> ('m, 'r) exclude_rule \<Rightarrow> bool" where
  "exclude_rule_match lib host (ExIp rule_ip) = (parse_ip host = Some rule_ip)"
| "exclude_rule_match lib host (ExCidr network) =
     (case parse_ip host of Some ip \<Rightarrow> nl_ipnet_contains lib network ip | None \<Rightarrow> False)"
| "exclude_rule_match lib host (ExRegex re) = nl_is_match lib re host"

fun exclude_is_match :: "('n, 'm, 'r) net_lib \<Rightarrow> ('m, 'r) exclude_rule list \<Rightarrow> string \<Rightarrow> bool" where
  "exclude_is_match lib [] host = False"
| "exclude_is_match lib (r # rs) host =
     (if exclude_rule_match lib host r then True else exclude_is_match lib rs host)"

lemma exclude_is_match_iff:
  "exclude_is_match lib rs host \<longleftrightarrow> (\<exists>r \<in> set rs. exclude_rule_match lib host r)"
  by (induction rs) auto

section \<open>Route data\<close>

text \<open>\<open>Url::from_str\<close>, the lines of a file (reading any of them may fail), and an HTTP GET with its
  status and its body.\<close>

record data_world =
  dw_url :: "string \<Rightarrow> string + url_parts"
  dw_file :: "string \<Rightarrow> fault + (fault + string) list"
  dw_get :: "string \<Rightarrow> string + (nat \<times> (string + string))"

text \<open>The field \<open>data\<close> of the source's structure is always empty and no factory reads it.\<close>

record inner_route_data =
  ird_name :: string
  ird_lines :: "string list"
  ird_format :: string

definition not_blank :: "string \<Rightarrow> bool" where
  "not_blank s \<longleftrightarrow> trim s \<noteq> []"

fun file_lines :: "(fault + string) list \<Rightarrow> string list io" where
  "file_lines [] = Inr []"
| "file_lines (Inl e # ls) = Inl e"
| "file_lines (Inr l # ls) =
     io_bind (file_lines ls) (\<lambda>r. Inr (if not_blank l then l # r else r))"

definition load_route_data_from_file :: "data_world \<Rightarrow> string \<Rightarrow> string list io" where
  "load_route_data_from_file w path = io_bind (dw_file w path) file_lines"

definition load_route_data_from_url :: "data_world \<Rightarrow> string \<Rightarrow> string + string list" where
  "load_route_data_from_url w url =
     (case dw_get w url of
        Inl e \<Rightarrow> Inl (''failed to get URL: '' @ e)
      | Inr (status, text) \<Rightarrow>
          if status \<noteq> 200 then Inl ''failed to fetch URL''
          else (case text of
                  Inl e \<Rightarrow> Inl (''failed to read body from URL: '' @ e)
                | Inr body \<Rightarrow> Inr (filter not_blank (str_lines body))))"

definition load_data_from_source ::
    "data_world \<Rightarrow> inner_route_data \<Rightarrow> string \<Rightarrow> string + inner_route_data" where
  "load_data_from_source w rd source_url =
     (case dw_url w source_url of
        Inl e \<Rightarrow> Inl (''invalid URL: '' @ e)
      | Inr url \<Rightarrow>
          if up_scheme url = ''file'' then
            (case load_route_data_from_file w (up_path url) of
               Inl e \<Rightarrow> Inl ''error loading from file''
             | Inr lines \<Rightarrow> Inr (rd\<lparr>ird_lines := lines\<rparr>))
          else if up_scheme url = ''http'' \<or> up_scheme url = ''https'' then
            (case load_route_data_from_url w source_url of
               Inl e \<Rightarrow> Inl (''error loading from URL: '' @ e)
             | Inr lines \<Rightarrow> Inr (rd\<lparr>ird_lines := lines\<rparr>))
          else Inl (''unsupported URL scheme: '' @ up_scheme url))"

definition lan_lines :: "string list" where
  "lan_lines = [''10.0.0.0/8'', ''172.16.0.0/12'', ''192.168.0.0/16'', ''127.0.0.0/8'']"

text \<open>The lines and the format of one entry, or nothing when it is skipped with a warning.\<close>

definition route_data_source :: "data_world \<Rightarrow> route_data \<Rightarrow> inner_route_data option" where
  "route_data_source w rd_cfg =
     (let rd = \<lparr>ird_name = rt_name rd_cfg, ird_lines = [], ird_format = rt_format rd_cfg\<rparr> in
      if ird_format rd = FORMAT_LAN then
        Some (rd\<lparr>ird_lines := lan_lines, ird_format := FORMAT_CIDR\<rparr>)
      else (case rt_url rd_cfg of
              Some url \<Rightarrow> (case load_data_from_source w rd url of Inl _ \<Rightarrow> None | Inr rd \<Rightarrow> Some rd)
            | None \<Rightarrow>
                (case rt_data rd_cfg of
                   Some data \<Rightarrow> Some (rd\<lparr>ird_lines := filter not_blank (split_on [CHR 0x0A] data)\<rparr>)
                 | None \<Rightarrow> None)))"

definition load_step ::
    "('n, 'm, 'r) net_lib \<Rightarrow> data_world \<Rightarrow> (string \<rightharpoonup> ('n, 'r) matcher) \<Rightarrow> route_data
       \<Rightarrow> string \<rightharpoonup> ('n, 'r) matcher" where
  "load_step lib w m rd_cfg =
     (case route_data_source w rd_cfg of
        None \<Rightarrow> m
      | Some rd \<Rightarrow>
          (case get_matcher_factory_fn lib (ird_format rd) of
             None \<Rightarrow> m
           | Some factory \<Rightarrow> m(rt_name rd_cfg \<mapsto> factory (ird_lines rd))))"

definition load_route_data ::
    "('n, 'm, 'r) net_lib \<Rightarrow> data_world \<Rightarrow> route_data list \<Rightarrow> string \<rightharpoonup> ('n, 'r) matcher" where
  "load_route_data lib w data_cfg = foldl (load_step lib w) Map.empty data_cfg"

text \<open>The lines an entry contributes and how they are read: what the matcher of an entry accepts.\<close>

definition entry_lines :: "data_world \<Rightarrow> route_data \<Rightarrow> (bool \<times> string list) option" where
  "entry_lines w rd_cfg =
     (case route_data_source w rd_cfg of
        None \<Rightarrow> None
      | Some rd \<Rightarrow> if ird_format rd = FORMAT_CIDR then Some (False, ird_lines rd)
                   else if ird_format rd = FORMAT_REGEX then Some (True, ird_lines rd)
                   else None)"

lemma load_step_entry:
  "load_step lib w m rd n =
     (if n = rt_name rd \<and> entry_lines w rd \<noteq> None
      then (case entry_lines w rd of
              Some (regex, ls) \<Rightarrow> Some ((if regex then regex_matcher_factory else cidr_matcher_factory) lib ls))
      else m n)"
  by (auto simp: load_step_def entry_lines_def get_matcher_factory_fn_def FORMAT_CIDR_def
      FORMAT_REGEX_def split: option.splits)

lemma load_route_data_last:
  "load_route_data lib w cfg n =
     (case find (\<lambda>rd. rt_name rd = n \<and> entry_lines w rd \<noteq> None) (rev cfg) of
        None \<Rightarrow> None
      | Some rd \<Rightarrow> (case entry_lines w rd of None \<Rightarrow> None
          | Some (regex, ls) \<Rightarrow>
              Some ((if regex then regex_matcher_factory else cidr_matcher_factory) lib ls)))"
proof (induction cfg rule: rev_induct)
  case Nil
  then show ?case by (simp add: load_route_data_def)
next
  case (snoc rd cfg)
  then show ?case
    by (auto simp: load_route_data_def load_step_entry split: option.split)
qed

section \<open>Routers\<close>

record ('m, 'r) compiled_rule =
  cr_name :: string
  cr_select :: string
  cr_domain_to_ip :: bool
  cr_dns :: "string option"
  cr_exclude :: "('m, 'r) exclude_rule list"

definition compiled_rule_new ::
    "('n, 'm, 'r) net_lib \<Rightarrow> route_rule \<Rightarrow> ('m, 'r) compiled_rule" where
  "compiled_rule_new lib rule =
     \<lparr>cr_name = rr_name rule, cr_select = rr_select rule,
      cr_domain_to_ip = (case rr_domain_to_ip rule of Some b \<Rightarrow> b | None \<Rightarrow> False),
      cr_dns = rr_dns rule, cr_exclude = exclude_new lib (rr_exclude rule)\<rparr>"

record ('n, 'm, 'r) base_router =
  br_name :: string
  br_default_tag :: string
  br_rules :: "('m, 'r) compiled_rule list"
  br_data_map :: "string \<rightharpoonup> ('n, 'r) matcher"

definition base_router_new ::
    "('n, 'm, 'r) net_lib \<Rightarrow> string \<Rightarrow> string \<Rightarrow> route_rule list \<Rightarrow> (string \<rightharpoonup> ('n, 'r) matcher)
       \<Rightarrow> ('n, 'm, 'r) base_router" where
  "base_router_new lib name default_tag rules data_map =
     \<lparr>br_name = name, br_default_tag = default_tag,
      br_rules = map (compiled_rule_new lib) rules, br_data_map = data_map\<rparr>"

fun push_ips :: "string list \<Rightarrow> ip_addr list \<Rightarrow> string list" where
  "push_ips hosts [] = hosts"
| "push_ips hosts (ip # ips) =
     (let ip_str = show_ip ip in
      push_ips (if ip_str \<in> set hosts then hosts else hosts @ [ip_str]) ips)"

fun match_hosts ::
    "('n, 'm, 'r) net_lib \<Rightarrow> (string \<rightharpoonup> ('n, 'r) matcher) \<Rightarrow> ('m, 'r) compiled_rule \<Rightarrow> string list
       \<Rightarrow> bool" where
  "match_hosts lib data_map rule [] = False"
| "match_hosts lib data_map rule (host # hosts) =
     (case data_map (cr_name rule) of
        Some data \<Rightarrow>
          if exclude_is_match lib (cr_exclude rule) host then match_hosts lib data_map rule hosts
          else if match_host lib data host then True
          else match_hosts lib data_map rule hosts
      | None \<Rightarrow> match_hosts lib data_map rule hosts)"

type_synonym 's resolve_op = "string \<Rightarrow> string \<Rightarrow> 's \<Rightarrow> 's \<times> ips"

definition rule_hosts ::
    "'s resolve_op \<Rightarrow> ('m, 'r) compiled_rule \<Rightarrow> string \<Rightarrow> 's \<Rightarrow> 's \<times> string list" where
  "rule_hosts resolve rule addr s =
     (if cr_domain_to_ip rule then
        (case resolve addr (case cr_dns rule of Some d \<Rightarrow> d | None \<Rightarrow> []) s of
           (s', Inr ips) \<Rightarrow> (s', push_ips [addr] ips)
         | (s', Inl e) \<Rightarrow> (s', [addr]))
      else (s, [addr]))"

fun route_rules ::
    "('n, 'm, 'r) net_lib \<Rightarrow> 's resolve_op \<Rightarrow> (string \<rightharpoonup> ('n, 'r) matcher) \<Rightarrow> string
       \<Rightarrow> ('m, 'r) compiled_rule list \<Rightarrow> string \<Rightarrow> 's \<Rightarrow> 's \<times> string \<times> string" where
  "route_rules lib resolve data_map tag [] addr s = (s, ''default'', tag)"
| "route_rules lib resolve data_map tag (rule # rules) addr s =
     (case rule_hosts resolve rule addr s of
        (s', hosts) \<Rightarrow>
          if match_hosts lib data_map rule hosts then (s', cr_name rule, cr_select rule)
          else route_rules lib resolve data_map tag rules addr s')"

definition base_route ::
    "('n, 'm, 'r) net_lib \<Rightarrow> 's resolve_op \<Rightarrow> ('n, 'm, 'r) base_router \<Rightarrow> run_addr \<Rightarrow> 's
       \<Rightarrow> 's \<times> string \<times> string" where
  "base_route lib resolve router addr s =
     route_rules lib resolve (br_data_map router) (br_default_tag router) (br_rules router)
       (ra_addr addr) s"

record ('n, 'm, 'r) default_router =
  dr_router_map :: "string \<rightharpoonup> ('n, 'm, 'r) base_router"
  dr_data_map :: "string \<rightharpoonup> ('n, 'r) matcher"

definition default_router_new ::
    "('n, 'm, 'r) net_lib \<Rightarrow> data_world \<Rightarrow> router_cfg list \<Rightarrow> route_data list
       \<Rightarrow> ('n, 'm, 'r) default_router" where
  "default_router_new lib w cfg data_cfg =
     (let data_map = load_route_data lib w data_cfg in
      \<lparr>dr_router_map =
         foldl (\<lambda>m r. m(rc_name r \<mapsto> base_router_new lib (rc_name r) (rc_default r)
                          (case rc_route_rules r of Some rs \<Rightarrow> rs | None \<Rightarrow> []) data_map))
           Map.empty cfg,
       dr_data_map = data_map\<rparr>)"

definition default_route ::
    "('n, 'm, 'r) net_lib \<Rightarrow> 's resolve_op \<Rightarrow> ('n, 'm, 'r) default_router \<Rightarrow> string \<Rightarrow> run_addr
       \<Rightarrow> 's \<Rightarrow> 's \<times> string" where
  "default_route lib resolve rs r_name addr s =
     (case dr_router_map rs r_name of
        Some router \<Rightarrow> (case base_route lib resolve router addr s of (s', _, res) \<Rightarrow> (s', res))
      | None \<Rightarrow> (s, ''default''))"

section \<open>First match\<close>

text \<open>A rule selects a connector when one of the hosts is not excluded and is in its data.\<close>

definition rule_selects ::
    "('n, 'm, 'r) net_lib \<Rightarrow> (string \<rightharpoonup> ('n, 'r) matcher) \<Rightarrow> ('m, 'r) compiled_rule \<Rightarrow> string set
       \<Rightarrow> bool" where
  "rule_selects lib data_map rule hosts \<longleftrightarrow>
     (case data_map (cr_name rule) of
        None \<Rightarrow> False
      | Some data \<Rightarrow> \<exists>h \<in> hosts. match_host lib data h \<and> \<not> exclude_is_match lib (cr_exclude rule) h)"

definition dns_name :: "('m, 'r) compiled_rule \<Rightarrow> string" where
  "dns_name rule = (case cr_dns rule of Some d \<Rightarrow> d | None \<Rightarrow> [])"

text \<open>The hosts of a rule, for an answer of the resolver: the address itself, and with
  \<open>domain_to_ip\<close> the addresses it resolves to.\<close>

definition hosts_of :: "string \<Rightarrow> ips \<Rightarrow> string set" where
  "hosts_of addr r = insert addr (case r of Inl _ \<Rightarrow> {} | Inr ips \<Rightarrow> show_ip ` set ips)"

definition hosts_ok ::
    "(string \<Rightarrow> string \<Rightarrow> ips \<Rightarrow> bool) \<Rightarrow> string \<Rightarrow> ('m, 'r) compiled_rule \<Rightarrow> string set \<Rightarrow> bool" where
  "hosts_ok answer addr rule hosts \<longleftrightarrow>
     (if cr_domain_to_ip rule then \<exists>r. answer addr (dns_name rule) r \<and> hosts = hosts_of addr r
      else hosts = {addr})"

definition first_selected ::
    "('n, 'm, 'r) net_lib \<Rightarrow> (string \<rightharpoonup> ('n, 'r) matcher) \<Rightarrow> string
       \<Rightarrow> (('m, 'r) compiled_rule \<times> string set) list \<Rightarrow> string \<times> string" where
  "first_selected lib data_map tag rhs =
     (case find (\<lambda>(rule, hosts). rule_selects lib data_map rule hosts) rhs of
        Some (rule, _) \<Rightarrow> (cr_name rule, cr_select rule)
      | None \<Rightarrow> (''default'', tag))"

lemma match_hosts_iff: "match_hosts lib dm rule hosts \<longleftrightarrow> rule_selects lib dm rule (set hosts)"
  by (induction hosts) (auto simp: rule_selects_def split: option.splits)

lemma set_push_ips: "set (push_ips hosts ips) = set hosts \<union> show_ip ` set ips"
  by (induction ips arbitrary: hosts) (auto simp: Let_def)

context name_resolver begin

lemma rule_hosts_ok:
  assumes "valid s" and "cr_domain_to_ip rule \<Longrightarrow> dns_name rule \<in> servers"
    and "rule_hosts resolve rule addr s = (s', hs)"
  shows "valid s' \<and> hosts_ok answer addr rule (set hs)"
proof (cases "cr_domain_to_ip rule")
  case True
  obtain t r where run: "resolve addr (dns_name rule) s = (t, r)" by fastforce
  from resolve_valid [OF assms(1) assms(2) [OF True] run]
    resolve_answer [OF assms(1) assms(2) [OF True] run]
  have "valid t" "answer addr (dns_name rule) r" by simp_all
  with True run assms(3) show ?thesis
    by (auto simp: rule_hosts_def hosts_ok_def hosts_of_def dns_name_def set_push_ips
        split: sum.splits intro!: exI [of _ r])
next
  case False
  with assms show ?thesis by (auto simp: rule_hosts_def hosts_ok_def)
qed

lemma hosts_exist:
  "valid s \<Longrightarrow> \<forall>rule \<in> set rules. cr_domain_to_ip rule \<longrightarrow> dns_name rule \<in> servers \<Longrightarrow>
     \<exists>hs. list_all2 (hosts_ok answer addr) rules hs"
proof (induction rules arbitrary: s)
  case Nil
  then show ?case by simp
next
  case (Cons rule rules)
  obtain t hs where "rule_hosts resolve rule addr s = (t, hs)" by fastforce
  with rule_hosts_ok [OF Cons.prems(1)] Cons.prems(2) have "valid t" "hosts_ok answer addr rule (set hs)"
    by auto
  moreover from Cons.IH [OF \<open>valid t\<close>] Cons.prems(2) obtain gs
    where "list_all2 (hosts_ok answer addr) rules gs" by auto
  ultimately show ?case by (intro exI [of _ "set hs # gs"]) simp
qed

lemma route_rules_first:
  assumes "valid s" and "\<forall>rule \<in> set rules. cr_domain_to_ip rule \<longrightarrow> dns_name rule \<in> servers"
    and "route_rules lib resolve dm tag rules addr s = (s', out)"
  shows "valid s' \<and> (\<exists>hs. list_all2 (hosts_ok answer addr) rules hs
      \<and> out = first_selected lib dm tag (zip rules hs))"
  using assms
proof (induction rules arbitrary: s)
  case Nil
  then show ?case by (simp add: first_selected_def)
next
  case (Cons rule rules)
  obtain t h where r: "rule_hosts resolve rule addr s = (t, h)" by fastforce
  with rule_hosts_ok [OF Cons.prems(1) _ r] Cons.prems(2)
  have t: "valid t" "hosts_ok answer addr rule (set h)" by auto
  show ?case
  proof (cases "match_hosts lib dm rule h")
    case True
    from hosts_exist [OF t(1)] Cons.prems(2) obtain hs where "list_all2 (hosts_ok answer addr) rules hs"
      by fastforce
    with True r t Cons.prems(3) show ?thesis
      by (intro conjI exI [of _ "set h # hs"]) (auto simp: first_selected_def match_hosts_iff)
  next
    case False
    with r Cons.prems have rest: "route_rules lib resolve dm tag rules addr t = (s', out)"
      and dns: "\<forall>rule \<in> set rules. cr_domain_to_ip rule \<longrightarrow> dns_name rule \<in> servers" by auto
    from Cons.IH [OF t(1) dns rest] obtain hs where hs: "valid s'"
      "list_all2 (hosts_ok answer addr) rules hs" "out = first_selected lib dm tag (zip rules hs)"
      by blast
    with False t show ?thesis
      by (intro conjI exI [of _ "set h # hs"]) (auto simp: first_selected_def match_hosts_iff)
  qed
qed

end

section \<open>Networks\<close>

text \<open>What the code relies on from \<open>ipnetwork\<close>: an IPv4 address with a prefix length is a network,
  which contains the IPv4 addresses with the same leading bits and no IPv6 address.\<close>

definition v4_nat :: "u8 \<Rightarrow> u8 \<Rightarrow> u8 \<Rightarrow> u8 \<Rightarrow> nat" where
  "v4_nat a b c d = ((unat a * 256 + unat b) * 256 + unat c) * 256 + unat d"

fun in_v4_prefix :: "nat \<Rightarrow> nat \<Rightarrow> ip_addr \<Rightarrow> bool" where
  "in_v4_prefix n p (V4 a b c d) \<longleftrightarrow> v4_nat a b c d div 2 ^ (32 - p) = n div 2 ^ (32 - p)"
| "in_v4_prefix n p (V6 a b c d e f g h) \<longleftrightarrow> False"

definition net_ok :: "('n, 'm, 'r) net_lib \<Rightarrow> bool" where
  "net_ok lib \<longleftrightarrow>
     (\<forall>a b c d p. p \<le> 32 \<longrightarrow>
        (\<exists>n. nl_network lib (show_v4 a b c d @ ''/'' @ show_dec p) = Some n
           \<and> (\<forall>ip. nl_contains lib n ip \<longleftrightarrow> in_v4_prefix (v4_nat a b c d) p ip)))"

definition lan_ip :: "ip_addr \<Rightarrow> bool" where
  "lan_ip ip \<longleftrightarrow> (case ip of
     V4 a b _ _ \<Rightarrow> a = 10 \<or> a = 127 \<or> a = 192 \<and> b = 168 \<or> a = 172 \<and> 16 \<le> b \<and> b < 32
   | V6 _ _ _ _ _ _ _ _ \<Rightarrow> False)"

lemma lan_lines_show:
  "lan_lines = [show_v4 10 0 0 0 @ ''/'' @ show_dec 8, show_v4 172 16 0 0 @ ''/'' @ show_dec 12,
     show_v4 192 168 0 0 @ ''/'' @ show_dec 16, show_v4 127 0 0 0 @ ''/'' @ show_dec 8]"
  by code_simp

lemma lan_lines_trim: "map trim lan_lines = lan_lines"
  by code_simp

lemma v4_div:
  "v4_nat a b c d div 2 ^ 16 = unat a * 256 + unat b"
  "v4_nat a b c d div 2 ^ 24 = unat a"
  "v4_nat a b c d div 2 ^ 20 = unat a * 16 + unat b div 16"
proof -
  have step: "(n * 256 + unat x) div 256 = n" for n and x :: u8 by simp
  have "v4_nat a b c d div 2 ^ 16 = v4_nat a b c d div 256 div 256"
    by (simp flip: div_mult2_eq)
  then show 16: "v4_nat a b c d div 2 ^ 16 = unat a * 256 + unat b"
    by (simp only: v4_nat_def step)
  have "v4_nat a b c d div 2 ^ 24 = v4_nat a b c d div 2 ^ 16 div 256"
    by (simp flip: div_mult2_eq)
  then show "v4_nat a b c d div 2 ^ 24 = unat a" by (simp only: 16 step)
  have "v4_nat a b c d div 2 ^ 20 = v4_nat a b c d div 2 ^ 16 div 16"
    by (simp flip: div_mult2_eq)
  also have "\<dots> = unat a * 16 + unat b div 16"
  proof -
    have "unat a * 256 + unat b = unat b + unat a * 16 * 16" by simp
    then show ?thesis unfolding 16 by simp
  qed
  finally show "v4_nat a b c d div 2 ^ 20 = unat a * 16 + unat b div 16" .
qed

lemma lan_prefixes:
  "in_v4_prefix (v4_nat 10 0 0 0) 8 ip \<or> in_v4_prefix (v4_nat 172 16 0 0) 12 ip
     \<or> in_v4_prefix (v4_nat 192 168 0 0) 16 ip \<or> in_v4_prefix (v4_nat 127 0 0 0) 8 ip \<longleftrightarrow> lan_ip ip"
proof (cases ip)
  case (V4 a b c d)
  have b: "unat b div 16 < 16" using unat_u8_less [of b] by (simp add: less_mult_imp_div_less)
  have "x * 16 + y = 2753 \<longleftrightarrow> x = 172 \<and> y = 1" if "y < 16" for x y :: nat
    using that by presburger
  from this [OF b, of "unat a"]
  have "unat a * 16 + unat b div 16 = 2753 \<longleftrightarrow> unat a = 172 \<and> unat b div 16 = 1" .
  moreover have "unat b div 16 = 1 \<longleftrightarrow> 16 \<le> unat b \<and> unat b < 32" by auto
  moreover have "x * 256 + y = 49320 \<longleftrightarrow> x = 192 \<and> y = 168" if "y < 256" for x y :: nat
    using that by presburger
  from this [OF unat_u8_less [of b], of "unat a"]
  have "unat a * 256 + unat b = 49320 \<longleftrightarrow> unat a = 192 \<and> unat b = 168" .
  ultimately show ?thesis
    by (simp add: V4 v4_div [simplified] lan_ip_def word_unat_eq_iff word_le_nat_alt word_less_nat_alt) blast
qed (simp add: lan_ip_def)


lemma net_line:
  assumes "net_ok lib" and "p \<le> 32"
  shows "line_matches lib False (show_v4 a b c d @ ''/'' @ show_dec p) host
    \<longleftrightarrow> (\<exists>ip. parse_ip host = Some ip \<and> in_v4_prefix (v4_nat a b c d) p ip)"
proof -
  from assms obtain n where "nl_network lib (show_v4 a b c d @ ''/'' @ show_dec p) = Some n"
    "\<forall>ip. nl_contains lib n ip \<longleftrightarrow> in_v4_prefix (v4_nat a b c d) p ip"
    unfolding net_ok_def by blast
  then show ?thesis by (simp add: line_matches_def split: option.split)
qed

lemma lan_match:
  assumes "net_ok lib"
  shows "match_host lib (cidr_matcher_factory lib lan_lines) host
    \<longleftrightarrow> (\<exists>ip. parse_ip host = Some ip \<and> lan_ip ip)"
proof -
  have "l \<in> set lan_lines \<Longrightarrow> trim l = l" for l
    using lan_lines_trim by (metis map_eq_conv map_ident)
  moreover have "l \<in> set lan_lines \<Longrightarrow> l \<noteq> []" for l by (auto simp: lan_lines_def)
  ultimately have "match_host lib (cidr_matcher_factory lib lan_lines) host
      \<longleftrightarrow> (\<exists>l \<in> set lan_lines. line_matches lib False l host)"
    unfolding cidr_match_iff by metis
  also have "\<dots> \<longleftrightarrow> (\<exists>ip. parse_ip host = Some ip \<and>
      (in_v4_prefix (v4_nat 10 0 0 0) 8 ip \<or> in_v4_prefix (v4_nat 172 16 0 0) 12 ip
     \<or> in_v4_prefix (v4_nat 192 168 0 0) 16 ip \<or> in_v4_prefix (v4_nat 127 0 0 0) 8 ip))"
    unfolding lan_lines_show
    by (simp add: net_line [OF assms, simplified] del: in_v4_prefix.simps) blast
  finally show ?thesis unfolding lan_prefixes .
qed

section \<open>A network library\<close>

text \<open>An instance of \<open>net_lib\<close>, to evaluate routers on: networks are an address and a prefix length,
  regular expressions are literals, found anywhere in the host.\<close>

definition demo_network :: "string \<Rightarrow> (ip_addr \<times> nat) option" where
  "demo_network s =
     (case rsplit_once CHR 0x2F s of
        None \<Rightarrow> map_option (\<lambda>ip. (ip, 32)) (parse_ip s)
      | Some (h, p) \<Rightarrow>
          (case (parse_ip h, parse_uint 32 p) of
             (Some ip, Some n) \<Rightarrow> Some (ip, n) | _ \<Rightarrow> None))"

fun demo_contains :: "ip_addr \<times> nat \<Rightarrow> ip_addr \<Rightarrow> bool" where
  "demo_contains (V4 a b c d, p) ip = in_v4_prefix (v4_nat a b c d) p ip"
| "demo_contains (n, p) ip = (n = ip)"

definition demo_net :: "(ip_addr \<times> nat, ip_addr \<times> nat, string) net_lib" where
  "demo_net =
     \<lparr>nl_network = demo_network, nl_contains = demo_contains, nl_ipnet = demo_network,
      nl_ipnet_contains = demo_contains, nl_regex = (\<lambda>s. if s = [] then None else Some s),
      nl_is_match = (\<lambda>r s. str_contains s r)\<rparr>"

lemma demo_net_ok: "net_ok demo_net"
proof -
  have slash: "CHR 0x2F \<notin> set (show_dec p)" for p
    using show_dec_chars [of "CHR 0x2F" p] by auto
  have "demo_network (show_v4 a b c d @ ''/'' @ show_dec p) = Some (V4 a b c d, p)"
    if "p \<le> 32" for a b c d p
    using that parse_show_v4 [of a b c d] rsplit_once_append [OF slash]
    by (simp add: demo_network_def parse_uint_show_dec)
  then show ?thesis by (auto simp: net_ok_def demo_net_def)
qed

section \<open>Properties\<close>


definition demo_rule :: "string \<Rightarrow> string \<Rightarrow> bool \<Rightarrow> string list \<Rightarrow> route_rule" where
  "demo_rule name select dti exclude =
     \<lparr>rr_name = name, rr_select = select, rr_exclude = exclude, rr_domain_to_ip = Some dti,
      rr_dns = None\<rparr>"

definition demo_data :: "string \<rightharpoonup> (ip_addr \<times> nat, string) matcher" where
  "demo_data = [''ten'' \<mapsto> cidr_matcher_factory demo_net [''10.0.0.0/8'']]"

definition demo_router :: "(ip_addr \<times> nat, ip_addr \<times> nat, string) base_router" where
  "demo_router = base_router_new demo_net ''r'' ''direct''
     [demo_rule ''none'' ''a'' False [], demo_rule ''ten'' ''b'' True [''shop'']] demo_data"

lemma demo_ten: "match_host demo_net (cidr_matcher_factory demo_net [''10.0.0.0/8'']) ''10.0.0.1''"
proof -
  have l: "trim ''10.0.0.0/8'' = show_v4 10 0 0 0 @ ''/'' @ show_dec 8" by code_simp
  have "parse_ip ''10.0.0.1'' = Some (V4 10 0 0 1)" by code_simp
  moreover have "in_v4_prefix (v4_nat 10 0 0 0) 8 (V4 10 0 0 1)" by (simp add: v4_div [simplified])
  moreover have "trim ''10.0.0.0/8'' \<noteq> []" by code_simp
  moreover have "line_matches demo_net False (trim ''10.0.0.0/8'') ''10.0.0.1''"
    unfolding l using calculation net_line [OF demo_net_ok, of 8 10 0 0 0] by simp
  ultimately show ?thesis unfolding cidr_match_iff by simp
qed

abbreviation demo_addr :: run_addr where
  "demo_addr \<equiv> \<lparr>ra_addr = ''shop.org'', ra_port = 80, ra_udp = False\<rparr>"

definition demo_ten_rule :: "(ip_addr \<times> nat, string) compiled_rule" where
  "demo_ten_rule = \<lparr>cr_name = ''ten'', cr_select = ''b'', cr_domain_to_ip = True, cr_dns = None,
     cr_exclude = [ExRegex ''shop'']\<rparr>"

lemma demo_ten_compiled:
  "compiled_rule_new demo_net (demo_rule ''ten'' ''b'' True [''shop'']) = demo_ten_rule"
proof -
  have "parse_ip ''shop'' = None" by (rule parse_ip_first) code_simp+
  then show ?thesis
    by (simp add: compiled_rule_new_def demo_rule_def demo_ten_rule_def demo_net_def)
qed

lemma demo_resolve:
  "timed_resolve demo_dns 1 ''shop.org'' [] (0, resolver_new) =
     ((1, resolver_new(''shop.org-'' \<mapsto> cache_entry 1 (Inr [V4 10 0 0 1]))), Inr [V4 10 0 0 1])"
  by (simp add: timed_resolve_def resolve_ip_def resolver_new_def cache_key_def lookup_ip_def
      resolve_ip_with_default_dns_def demo_dns_def Let_def)

lemma demo_hosts:
  "push_ips [''shop.org''] [V4 10 0 0 1] = [''shop.org'', ''10.0.0.1'']"
  "exclude_is_match demo_net (cr_exclude demo_ten_rule) ''shop.org''"
  "\<not> exclude_is_match demo_net (cr_exclude demo_ten_rule) ''10.0.0.1''"
  by code_simp+

lemma demo_route:
  "base_route demo_net (timed_resolve demo_dns 1) demo_router demo_addr (0, resolver_new) =
     ((1, resolver_new(''shop.org-'' \<mapsto> cache_entry 1 (Inr [V4 10 0 0 1]))), ''ten'', ''b'')"
proof -
  let ?none = "compiled_rule_new demo_net (demo_rule ''none'' ''a'' False [])"
  have r: "br_rules demo_router = [?none, demo_ten_rule]" "br_data_map demo_router = demo_data"
    by (simp_all add: demo_router_def base_router_new_def demo_ten_compiled)
  have 1: "rule_hosts (timed_resolve demo_dns 1) ?none ''shop.org'' s = (s, [''shop.org''])"
    "\<not> match_hosts demo_net demo_data ?none [''shop.org'']" for s
    by (simp_all add: rule_hosts_def compiled_rule_new_def demo_rule_def demo_data_def)
  have 2: "rule_hosts (timed_resolve demo_dns 1) demo_ten_rule ''shop.org'' (0, resolver_new) =
      ((1, resolver_new(''shop.org-'' \<mapsto> cache_entry 1 (Inr [V4 10 0 0 1]))), [''shop.org'', ''10.0.0.1''])"
    using demo_resolve demo_hosts(1) by (simp add: rule_hosts_def demo_ten_rule_def)
  have "demo_data (cr_name demo_ten_rule) = Some (cidr_matcher_factory demo_net [''10.0.0.0/8''])"
    by (simp add: demo_data_def demo_ten_rule_def)
  then have 3: "match_hosts demo_net demo_data demo_ten_rule [''shop.org'', ''10.0.0.1'']"
    by (simp only: match_hosts.simps option.case demo_hosts(2,3) demo_ten if_True if_False)
  show ?thesis
    by (simp only: base_route_def r run_addr.select_convs route_rules.simps 1 2 3 prod.case if_True if_False)
      (simp add: demo_ten_rule_def)
qed


text \<open>C19: What route data matches: the data of a name is that of the last entry with this name that
  could be loaded and has a known format, blank lines dropped; a CIDR line that is a network
  matches the IPs in it, any other line the host equal to it, and in the regex format a line that
  is no network matches as a regular expression, but never an IP address.\<close>

theorem route_data_matches:
  "(case find (\<lambda>rd. rt_name rd = n \<and> entry_lines w rd \<noteq> None) (rev cfg) of
      None \<Rightarrow> load_route_data lib w cfg n = None
    | Some rd \<Rightarrow> \<exists>m regex ls. load_route_data lib w cfg n = Some m \<and> entry_lines w rd = Some (regex, ls)
        \<and> (\<forall>host. match_host lib m host \<longleftrightarrow>
             (\<exists>l \<in> set ls. trim l \<noteq> [] \<and> line_matches lib regex (trim l) host)))"
proof (cases "find (\<lambda>rd. rt_name rd = n \<and> entry_lines w rd \<noteq> None) (rev cfg)")
  case None
  then show ?thesis unfolding load_route_data_last by simp
next
  case (Some rd)
  then have "entry_lines w rd \<noteq> None" unfolding find_Some_iff by blast
  then obtain regex ls where e: "entry_lines w rd = Some (regex, ls)" by auto
  have "load_route_data lib w cfg n =
      Some ((if regex then regex_matcher_factory else cidr_matcher_factory) lib ls)"
    unfolding load_route_data_last Some by (simp add: e)
  with Some e show ?thesis by (simp add: cidr_match_iff regex_match_iff)
qed

text \<open>Private networks: in a router with one rule, on data in the format \<open>lan\<close>, exactly the IPv4
  addresses in 10/8, 172.16/12, 192.168/16 and 127/8 go to the rule's connector, every other
  address and every domain goes to the default one; an unknown router sends all to \<open>default\<close>.\<close>

theorem lan_routes_private:
  assumes "net_ok lib" and "rt_format rd = ''lan''" and "rt_name rd = rr_name rule"
    and "rc_route_rules r = Some [rule]" and "rr_exclude rule = []" and "rr_domain_to_ip rule \<noteq> Some True"
  shows "default_route lib resolve (default_router_new lib w [r] [rd]) name addr s =
    (s, if name \<noteq> rc_name r then ''default''
        else if \<exists>ip. parse_ip (ra_addr addr) = Some ip \<and> lan_ip ip then rr_select rule
        else rc_default r)"
proof -
  have "entry_lines w rd = Some (False, lan_lines)"
    using assms(2) by (simp add: entry_lines_def route_data_source_def FORMAT_LAN_def)
  then have m: "load_route_data lib w [rd] (rr_name rule) = Some (cidr_matcher_factory lib lan_lines)"
    using assms(3) by (auto simp: load_route_data_last)
  have "\<not> (case rr_domain_to_ip rule of Some b \<Rightarrow> b | None \<Rightarrow> False)"
    using assms(6) by (auto split: option.split)
  then show ?thesis
    using m assms(4,5) lan_match [OF assms(1)]
    by (auto simp: default_route_def default_router_new_def base_route_def base_router_new_def
        compiled_rule_new_def rule_hosts_def Let_def)
qed

definition demo_world :: data_world where
  "demo_world = \<lparr>dw_url = \<lambda>u. Inl ''relative URL without a base'', dw_file = \<lambda>p. Inr [],
     dw_get = \<lambda>u. Inr (404, Inr [])\<rparr>"

lemma lan_routes_private_witness:
  "\<forall>r. default_route demo_net (timed_resolve demo_dns 1)
     (default_router_new demo_net demo_world
        [\<lparr>rc_name = ''r'', rc_default = ''out'', rc_route_rules = Some [demo_rule ''lan'' ''direct'' False []]\<rparr>]
        [\<lparr>rt_name = ''lan'', rt_url = None, rt_format = ''lan'', rt_data = None\<rparr>])
     ''r'' \<lparr>ra_addr = ''172.31.0.9'', ra_port = 80, ra_udp = False\<rparr> r = (r, ''direct'')"
proof -
  have "parse_ip ''172.31.0.9'' = Some (V4 172 31 0 9)" by code_simp
  moreover have "lan_ip (V4 172 31 0 9)" by (simp add: lan_ip_def)
  ultimately have lan: "\<exists>ip. parse_ip ''172.31.0.9'' = Some ip \<and> lan_ip ip" by blast
  show ?thesis
    by (subst lan_routes_private [OF demo_net_ok, where rule = "demo_rule ''lan'' ''direct'' False []"])
      (use lan in \<open>simp_all add: demo_rule_def\<close>)
qed

text \<open>With \<open>domain_to_ip\<close> an exclusion that names a domain has no effect on the addresses it
  resolves to: the excluded domain is still sent to the rule's connector when one of them is in the
  rule's data and not excluded itself.\<close>

theorem exclude_bypassed:
  assumes "br_rules router = rule # rules" and "cr_domain_to_ip rule"
    and "exclude_is_match lib (cr_exclude rule) (ra_addr addr)"
    and "resolve (ra_addr addr) (dns_name rule) s = (s', Inr ips)" and "ip \<in> set ips"
    and "br_data_map router (cr_name rule) = Some data" and "match_host lib data (show_ip ip)"
    and "\<not> exclude_is_match lib (cr_exclude rule) (show_ip ip)"
  shows "base_route lib resolve router addr s = (s', cr_name rule, cr_select rule)
    \<and> \<not> match_hosts lib (br_data_map router) rule [ra_addr addr]"
proof -
  have "match_hosts lib (br_data_map router) rule (push_ips [ra_addr addr] ips)"
    unfolding match_hosts_iff set_push_ips rule_selects_def using assms(5-8) by auto
  moreover have "rule_hosts resolve rule (ra_addr addr) s = (s', push_ips [ra_addr addr] ips)"
    using assms(2,4) by (simp add: rule_hosts_def dns_name_def)
  ultimately show ?thesis
    using assms(1,3,6) by (simp add: base_route_def)
qed

lemma exclude_bypassed_witness:
  "\<exists>s'. base_route demo_net (timed_resolve demo_dns 1)
     (base_router_new demo_net ''r'' ''direct'' [demo_rule ''ten'' ''b'' True [''shop'']] demo_data)
     demo_addr (0, resolver_new) = (s', ''ten'', ''b'')"
proof -
  let ?router = "base_router_new demo_net ''r'' ''direct'' [demo_rule ''ten'' ''b'' True [''shop'']] demo_data"
  have rules: "br_rules ?router = demo_ten_rule # []"
    by (simp add: base_router_new_def demo_ten_compiled)
  have dti: "cr_domain_to_ip demo_ten_rule" and nm: "cr_name demo_ten_rule = ''ten''" "cr_select demo_ten_rule = ''b''"
    and dns: "dns_name demo_ten_rule = []"
    by (simp_all add: demo_ten_rule_def dns_name_def)
  have e: "exclude_is_match demo_net (cr_exclude demo_ten_rule) (ra_addr demo_addr)"
    using demo_hosts(2) by simp
  have r: "timed_resolve demo_dns 1 (ra_addr demo_addr) (dns_name demo_ten_rule) (0, resolver_new) =
     ((1, resolver_new(''shop.org-'' \<mapsto> cache_entry 1 (Inr [V4 10 0 0 1]))), Inr [V4 10 0 0 1])"
    using demo_resolve by (simp add: dns)
  have d: "br_data_map ?router (cr_name demo_ten_rule) = Some (cidr_matcher_factory demo_net [''10.0.0.0/8''])"
    by (simp add: base_router_new_def nm demo_data_def)
  have i: "show_ip (V4 10 0 0 1) = ''10.0.0.1''" by code_simp
  have m: "match_host demo_net (cidr_matcher_factory demo_net [''10.0.0.0/8'']) (show_ip (V4 10 0 0 1))"
    unfolding i by (rule demo_ten)
  have n: "\<not> exclude_is_match demo_net (cr_exclude demo_ten_rule) (show_ip (V4 10 0 0 1))"
    unfolding i by (rule demo_hosts(3))
  have "V4 10 0 0 1 \<in> set [V4 10 0 0 1]" by simp
  from exclude_bypassed [OF rules dti e, of "timed_resolve demo_dns 1", OF r this d m n]
  show ?thesis unfolding nm by blast
qed

end
