(* ===== verification/Dispatch.thy ===== *)
theory Dispatch
  imports Http_Proxy Rev_Client Router
begin

text \<open>
  \<open>src/object.rs\<close>, \<open>src/connector.rs\<close> and \<open>src/listener.rs\<close>: what is created from the configuration, and
  what is done with an accepted connection: handshake, route, find or create the connector, connect,
  tell the client, and hand both streams to the relay.

  Acceptors and connectors are trait objects; here they are the operations a connection uses, in
  the record \<open>object_ops\<close>, and the datatypes of what \<open>create\<close> makes.  Creating a connector holds the
  lock of the cache, so looking it up and storing it is one step.  Reports to the observation
  registry and log messages are not modelled.
\<close>

section \<open>What is created\<close>

text \<open>\<open>'g\<close> is the connected gRPC client.\<close>

datatype ('v, 'g) connector =
    TcpConnector
  | GrpcConnector 'g "'v connector_cfg"
  | RevGrpcConnector "'v connector_cfg"
  | PbTcpConnector "'v connector_cfg"
  | BlockConnector

definition connector_create ::
    "('v connector_cfg \<Rightarrow> 'g io) \<Rightarrow> 'v connector_cfg \<Rightarrow> ('v, 'g) connector io" where
  "connector_create grpc_new cfg =
     (if cc_proto cfg = ''tcp'' then Inr TcpConnector
      else if cc_proto cfg = ''grpc'' then io_bind (grpc_new cfg) (\<lambda>g. Inr (GrpcConnector g cfg))
      else if cc_proto cfg = ''rev_grpc'' then Inr (RevGrpcConnector cfg)
      else if cc_proto cfg = ''pb_tcp'' then io_bind (pb_tcp_connector_new cfg) (\<lambda>c. Inr (PbTcpConnector c))
      else if cc_proto cfg = ''block'' then Inr BlockConnector
      else Inl (IoError InvalidInput (''connector proto '' @ cc_proto cfg @ '' not found'')))"

text \<open>The listening sockets and queues of the acceptors; the HTTP ones know the server's id.\<close>

datatype tcp_acceptor =
    SocksAcceptor tcp_listener
  | HttpAcceptor tcp_listener string
  | Htss5Acceptor tcp_listener string

datatype 'k acceptor =
    OnTcp tcp_acceptor
  | GrpcAcceptor string grpc_queues
  | RevGrpcAcceptor string string rev_queues
  | PbTcpAcceptor string "('k pb_stream, pb_udp_conn) acc_queues"

definition listener_create ::
    "(string \<Rightarrow> tcp_listener io) \<Rightarrow> (string \<Rightarrow> bool) \<Rightarrow> 'v object_config \<Rightarrow> 'k acceptor io" where
  "listener_create bind_tcp endpoint_ok cfg =
     (let l = oc_listener cfg; addr = lc_endpoint l in
      if lc_proto l = ''socks5'' then io_bind (bind_tcp addr) (\<lambda>ls. Inr (OnTcp (SocksAcceptor ls)))
      else if lc_proto l = ''grpc'' then io_bind (grpc_listen l) (\<lambda>(auth, q). Inr (GrpcAcceptor auth q))
      else if lc_proto l = ''rev_grpc'' then
        io_bind (rev_listen endpoint_ok l addr) (\<lambda>(auth, tag, q). Inr (RevGrpcAcceptor auth tag q))
      else if lc_proto l = ''http'' then
        io_bind (bind_tcp addr) (\<lambda>ls. Inr (OnTcp (HttpAcceptor ls (oc_server_id cfg))))
      else if lc_proto l = ''pb_tcp'' then io_bind (pb_tcp_listen l) (\<lambda>(auth, q). Inr (PbTcpAcceptor auth q))
      else if lc_proto l = ''htss5'' then
        io_bind (bind_tcp addr) (\<lambda>ls. Inr (OnTcp (Htss5Acceptor ls (oc_server_id cfg))))
      else Inl (IoError InvalidInput (''listener proto '' @ lc_proto l @ '' not found'')))"

section \<open>One connection\<close>

record ('s, 'c, 't, 'v) object_ops =
  oo_handshake :: "('s, run_addr \<times> bytes option) op"
  oo_post_handshake :: "bool \<Rightarrow> u16 \<Rightarrow> ('s, unit) op"
  oo_create :: "'v connector_cfg \<Rightarrow> 'c io"
  oo_connect :: "'c \<Rightarrow> string \<Rightarrow> 't io"

type_synonym 'c connector_cache = "string \<rightharpoonup> 'c"

definition cached_connector ::
    "('v connector_cfg \<Rightarrow> 'c io) \<Rightarrow> string \<Rightarrow> 'v connector_cfg \<Rightarrow> ('c connector_cache, 'c) op" where
  "cached_connector create client_name conn_conf cache =
     (case cache client_name of
        Some cached \<Rightarrow> (cache, Inr cached)
      | None \<Rightarrow>
          (case create conn_conf of
             Inl e \<Rightarrow> (cache, Inl e)
           | Inr new_connector \<Rightarrow> (cache(client_name \<mapsto> new_connector), Inr new_connector)))"

text \<open>How the task of a connection went on: it ended early, or the client stream went to
  \<open>handle_udp_connection\<close>, or both streams went to \<open>handle_tcp_connection\<close>.\<close>

datatype 't dispatched =
    HandshakeError fault
  | UdpConnection run_addr
  | NoConnector string
  | CreateError fault
  | ConnectError fault "unit io"
  | PostHandshakeError fault
  | Relayed run_addr "bytes option" 't

type_synonym 'q route_op = "string \<Rightarrow> string \<Rightarrow> run_addr \<Rightarrow> 'q \<Rightarrow> 'q \<times> string"

definition object_dispatch ::
    "('s, 'c, 't, 'v) object_ops \<Rightarrow> 'q route_op \<Rightarrow> 'v object_config \<Rightarrow> 's \<Rightarrow> 'c connector_cache \<times> 'q
       \<Rightarrow> ('c connector_cache \<times> 'q) \<times> 's \<times> 't dispatched" where
  "object_dispatch ops route cfg s w =
     (case w of (cache, q) \<Rightarrow>
        (case oo_handshake ops s of
           (s, Inl e) \<Rightarrow> (w, s, HandshakeError e)
         | (s, Inr (addr, payload_cache)) \<Rightarrow>
             if ra_udp addr then (w, s, UdpConnection addr)
             else
               let (q, client_name) = route (lc_name (oc_listener cfg)) (lc_router (oc_listener cfg)) addr q
               in (case oc_connector cfg client_name of
                     None \<Rightarrow> ((cache, q), s, NoConnector client_name)
                   | Some conn_conf \<Rightarrow>
                       (case cached_connector (oo_create ops) client_name conn_conf cache of
                          (cache, Inl e) \<Rightarrow> ((cache, q), s, CreateError e)
                        | (cache, Inr connector_obj) \<Rightarrow>
                            (case oo_connect ops connector_obj (endpoint addr) of
                               Inl e \<Rightarrow>
                                 (case oo_post_handshake ops True 0 s of
                                    (s, r) \<Rightarrow> ((cache, q), s, ConnectError e r))
                             | Inr client_stream \<Rightarrow>
                                 (case oo_post_handshake ops False 0 s of
                                    (s, Inl e) \<Rightarrow> ((cache, q), s, PostHandshakeError e)
                                  | (s, Inr _) \<Rightarrow>
                                      ((cache, q), s, Relayed addr payload_cache client_stream)))))))"

text \<open>The accept loop: the connections a task was spawned for, and the error that ends \<open>start\<close>.\<close>

fun object_accepts :: "(fault + 'x) list \<Rightarrow> 'x list \<times> fault option" where
  "object_accepts [] = ([], None)"
| "object_accepts (Inl e # _) = ([], Some e)"
| "object_accepts (Inr x # r) = (case object_accepts r of (xs, e) \<Rightarrow> (x # xs, e))"

definition udp_endpoint_for_observe :: "string \<Rightarrow> u16 \<Rightarrow> string" where
  "udp_endpoint_for_observe addr port =
     (if CHR '':'' \<in> set addr then ''['' @ addr @ '']:'' @ show_dec (unat port) else host_port addr port)"

definition endpoint_for_observe :: "run_addr \<Rightarrow> string" where
  "endpoint_for_observe addr =
     (if CHR '':'' \<in> set (ra_addr addr) then ''['' @ ra_addr addr @ '']:'' @ show_dec (unat (ra_port addr))
      else endpoint addr)"

section \<open>The operations of the listeners on a TCP socket\<close>

text \<open>A stream of the direct connector, or of a tunnel (an argument).\<close>

datatype 'o out_stream = TcpOut tcp_stream | TunnelOut 'o

definition connector_connect ::
    "dialer \<Rightarrow> (('v, 'g) connector \<Rightarrow> string \<Rightarrow> 'o io) \<Rightarrow> ('v, 'g) connector \<Rightarrow> string \<Rightarrow> 'o out_stream io" where
  "connector_connect dial tunnel c addr =
     (case c of
        TcpConnector \<Rightarrow> io_bind (tcp_connect dial addr) (\<lambda>s. Inr (TcpOut s))
      | BlockConnector \<Rightarrow> io_bind (block_connect addr) (\<lambda>s. Inr (TcpOut s))
      | _ \<Rightarrow> io_bind (tunnel c addr) (\<lambda>s. Inr (TunnelOut s)))"

definition tcp_object_ops ::
    "(string \<Rightarrow> string + url_parts) \<Rightarrow> ('v connector_cfg \<Rightarrow> 'g io) \<Rightarrow> dialer
       \<Rightarrow> (('v, 'g) connector \<Rightarrow> string \<Rightarrow> 'o io) \<Rightarrow> tcp_acceptor
       \<Rightarrow> (tcp_stream, ('v, 'g) connector, 'o out_stream, 'v) object_ops" where
  "tcp_object_ops parse_url grpc_new dial tunnel acc =
     \<lparr>oo_handshake = (case acc of
          SocksAcceptor _ \<Rightarrow> socks_handshake
        | HttpAcceptor _ server_id \<Rightarrow> http_handshake parse_url server_id
        | Htss5Acceptor _ server_id \<Rightarrow> htss5_handshake parse_url server_id),
      oo_post_handshake = (case acc of
          SocksAcceptor _ \<Rightarrow> socks_post_handshake
        | HttpAcceptor _ _ \<Rightarrow> (\<lambda>_ _. st_ret ())
        | Htss5Acceptor _ _ \<Rightarrow> htss5_post_handshake),
      oo_create = connector_create grpc_new,
      oo_connect = connector_connect dial tunnel\<rparr>"

section \<open>The connector cache\<close>

text \<open>\<open>makes\<close> relates a configuration to the connectors \<open>create\<close> may return for it: connecting a gRPC
  client may go differently each time.  The caches a listener reaches, with its tasks in any
  order:\<close>

inductive cache_reach ::
    "('v connector_cfg \<Rightarrow> 'c \<Rightarrow> bool) \<Rightarrow> 'v object_config \<Rightarrow> 'c connector_cache \<Rightarrow> bool"
  for makes cfg where
  cache_start: "cache_reach makes cfg Map.empty"
| cache_lookup: "cache_reach makes cfg cache'"
    if "cache_reach makes cfg cache" "oc_connector cfg name = Some conf"
       "\<And>c. create conf = Inr c \<Longrightarrow> makes conf c" "cached_connector create name conf cache = (cache', r)"

definition cache_ok :: "('v connector_cfg \<Rightarrow> 'c \<Rightarrow> bool) \<Rightarrow> 'v object_config \<Rightarrow> 'c connector_cache \<Rightarrow> bool" where
  "cache_ok makes cfg cache \<longleftrightarrow>
     (\<forall>name c. cache name = Some c \<longrightarrow> (\<exists>conf. oc_connector cfg name = Some conf \<and> makes conf c))"

lemma cached_connector_ok:
  assumes "cache_ok makes cfg cache" and "oc_connector cfg name = Some conf"
    and "\<And>c. create conf = Inr c \<Longrightarrow> makes conf c" and "cached_connector create name conf cache = (cache', r)"
  shows "cache_ok makes cfg cache'" and "r = Inr c \<Longrightarrow> makes conf c"
proof -
  show "cache_ok makes cfg cache'"
    using assms by (auto simp: cached_connector_def cache_ok_def split: option.splits sum.splits if_splits)
  assume "r = Inr c"
  with assms show "makes conf c"
    unfolding cached_connector_def cache_ok_def by (auto split: option.splits sum.splits) (metis option.inject)+
qed

lemma cached_connector_mono: "cached_connector create name conf cache = (cache', r) \<Longrightarrow> cache \<subseteq>\<^sub>m cache'"
  by (auto simp: cached_connector_def map_le_def split: option.splits sum.splits)

lemma cache_reach_ok: "cache_reach makes cfg cache \<Longrightarrow> cache_ok makes cfg cache"
proof (induction rule: cache_reach.induct)
  case cache_start
  show ?case by (simp add: cache_ok_def)
next
  case (cache_lookup cache name conf create cache' r)
  show ?case by (rule cached_connector_ok(1) [OF cache_lookup(5,2,3,4)])
qed

text \<open>What a task that relays has done.\<close>

lemma object_dispatch_relayed:
  assumes "object_dispatch ops route cfg s (cache, q) = (w, s', Relayed addr data t)"
  shows "\<exists>s1 q1 name conf cache1 c. oo_handshake ops s = (s1, Inr (addr, data)) \<and> \<not> ra_udp addr
    \<and> route (lc_name (oc_listener cfg)) (lc_router (oc_listener cfg)) addr q = (q1, name)
    \<and> oc_connector cfg name = Some conf
    \<and> cached_connector (oo_create ops) name conf cache = (cache1, Inr c) \<and> w = (cache1, q1)
    \<and> oo_connect ops c (endpoint addr) = Inr t \<and> oo_post_handshake ops False 0 s1 = (s', Inr ())"
  using assms
  by (auto simp: object_dispatch_def Let_def split: prod.splits sum.splits if_splits option.splits)

lemma socks_object_ok:
  assumes "tcp_clean s" and "ts_err s = None" and "NO_AUTH \<in> set methods" and "length methods < 256"
    and "request_wf CMD_CONNECT a_typ a" and "a \<noteq> []"
    and "tcp_pending s = socks_client_bytes methods CMD_CONNECT a_typ a port @ rest"
    and "requested CMD_CONNECT a_typ a port = Inr addr"
    and "route (lc_name (oc_listener cfg)) (lc_router (oc_listener cfg)) addr q = (q', name)"
    and "oc_connector cfg name = Some conf"
    and "cached_connector (connector_create grpc_new) name conf cache = (cache', Inr c)"
  shows "\<exists>s'. object_dispatch (tcp_object_ops parse_url grpc_new dial tunnel (SocksAcceptor ls)) route cfg s (cache, q)
      = ((cache', q'), s',
         case connector_connect dial tunnel c (endpoint addr) of
           Inl e \<Rightarrow> ConnectError e (Inr ()) | Inr t \<Rightarrow> Relayed addr None t)
    \<and> ts_tx s' = ts_tx s @ [5, 0] @ confirm_to_bytes (confirm_new
        (case connector_connect dial tunnel c (endpoint addr) of Inl _ \<Rightarrow> True | Inr _ \<Rightarrow> False) 0)
    \<and> tcp_pending s' = rest"
proof -
  let ?cmd = "CMD_CONNECT"
  have "CMD_CONNECT \<noteq> CMD_UDP" by (simp add: CMD_CONNECT_def CMD_UDP_def)
  with assms(8) have udp: "\<not> ra_udp addr" by (auto simp: requested_def io_bind_eq_Inr)
  from socks_handshake_ok [OF assms(1-7)] assms(8) obtain t
    where t: "socks_handshake s = (t, Inr (addr, None))" "ts_tx t = ts_tx s @ [5, 0]" "tcp_pending t = rest"
      "ts_err t = None"
    by auto
  have post: "socks_post_handshake e 0 t = (t\<lparr>ts_tx := ts_tx t @ confirm_to_bytes (confirm_new e 0)\<rparr>, Inr ())" for e
    using t(4) by (simp add: socks_post_handshake_def tcp_write_def)
  show ?thesis using t(2,3)
    by (cases "connector_connect dial tunnel c (endpoint addr)")
      (simp_all add: object_dispatch_def tcp_object_ops_def t(1) udp assms(9-11) post tcp_pending_def)
qed

text \<open>A listener with one direct connector, and a client of it.\<close>

definition demo_direct :: "unit connector_cfg" where
  "demo_direct = \<lparr>cc_endpoint = None, cc_name = ''out'', cc_user = None, cc_pw = None, cc_proto = ''tcp'', cc_options = None\<rparr>"

definition demo_object :: "unit object_config" where
  "demo_object = \<lparr>oc_listener = \<lparr>lc_endpoint = ''127.0.0.1:1080'', lc_name = ''in'', lc_user = None, lc_pw = None,
       lc_proto = ''socks5'', lc_router = ''r'', lc_options = None\<rparr>,
     oc_connector = [''out'' \<mapsto> demo_direct], oc_server_id = ''srv''\<rparr>"

definition demo_route :: "unit route_op" where "demo_route l r a q = (q, ''out'')"

definition demo_client :: tcp_stream where
  "demo_client = tcp_run_stream_new [Segment [5, 1, 0], Segment [5, 1, 0, 1, 10, 0, 0, 1, 0, 80, 7]]"

definition demo_ops :: "(tcp_stream, (unit, unit) connector, unit out_stream, unit) object_ops" where
  "demo_ops = tcp_object_ops demo_url (\<lambda>_. Inr ()) (\<lambda>_. Inr [Segment [9]]) (\<lambda>_ _. Inr ()) (SocksAcceptor [])"

lemma demo_object_facts:
  "tcp_clean demo_client" "ts_err demo_client = None" "NO_AUTH \<in> set [0]" "length [0 :: u8] < 256"
  "request_wf CMD_CONNECT 1 [10, 0, 0, 1]" "[10, 0, 0, 1 :: u8] \<noteq> []"
  "tcp_pending demo_client = socks_client_bytes [0] CMD_CONNECT 1 [10, 0, 0, 1] 80 @ [7]"
  "requested CMD_CONNECT 1 [10, 0, 0, 1] 80 = Inr \<lparr>ra_addr = ''10.0.0.1'', ra_port = 80, ra_udp = False\<rparr>"
  "demo_route (lc_name (oc_listener demo_object)) (lc_router (oc_listener demo_object)) addr () = ((), ''out'')"
  "oc_connector demo_object ''out'' = Some demo_direct"
  "cached_connector (connector_create (\<lambda>_. Inr ())) ''out'' demo_direct Map.empty =
     ([''out'' \<mapsto> TcpConnector], Inr (TcpConnector :: (unit, unit) connector))"
  "ts_tx demo_client = []"
  by (code_simp, simp add: demo_client_def tcp_run_stream_new_def, code_simp, simp, code_simp, simp, code_simp, code_simp,
      simp_all add: demo_route_def demo_object_def cached_connector_def connector_create_def demo_direct_def
        demo_client_def tcp_run_stream_new_def)

lemma demo_dispatch:
  "\<exists>s' t. object_dispatch demo_ops demo_route demo_object demo_client (Map.empty, ())
     = (([''out'' \<mapsto> TcpConnector], ()), s',
        Relayed \<lparr>ra_addr = ''10.0.0.1'', ra_port = 80, ra_udp = False\<rparr> None t)"
  using socks_object_ok [where route = demo_route and cfg = demo_object and q = "()" and q' = "()" and name = "''out''"
        and conf = demo_direct and cache = Map.empty and cache' = "[''out'' \<mapsto> TcpConnector]"
        and c = TcpConnector and grpc_new = "\<lambda>_. Inr ()"
        and parse_url = demo_url and dial = "\<lambda>_. Inr [Segment [9]]" and tunnel = "\<lambda>_ _. Inr ()" and ls = "[]",
      OF demo_object_facts(1-11)]
  by (auto simp: demo_ops_def connector_connect_def tcp_connect_def)

section \<open>Properties\<close>

text \<open>C34: A connection is only relayed after its handshake, through a connector made from the
  configuration entry of exactly the name the router chose for its address (whether the connector
  is new or cached by an earlier connection), to the endpoint the client asked for, and after
  the client was told of the success; the caches that any order of connections leaves behind
  keep this so, and no connection replaces a cached connector.\<close>

theorem relayed_as_routed:
  assumes "cache_reach makes cfg cache" and "\<forall>conf c. oo_create ops conf = Inr c \<longrightarrow> makes conf c"
    and "object_dispatch ops route cfg s (cache, q) = ((cache', q'), s', Relayed addr data t)"
  shows "\<exists>s1 conf c. oo_handshake ops s = (s1, Inr (addr, data)) \<and> \<not> ra_udp addr
    \<and> oc_connector cfg (snd (route (lc_name (oc_listener cfg)) (lc_router (oc_listener cfg)) addr q)) = Some conf
    \<and> makes conf c \<and> oo_connect ops c (endpoint addr) = Inr t
    \<and> oo_post_handshake ops False 0 s1 = (s', Inr ())
    \<and> cache_reach makes cfg cache' \<and> cache \<subseteq>\<^sub>m cache'"
proof -
  from object_dispatch_relayed [OF assms(3)] obtain s1 q1 name conf cache1 c
    where d: "oo_handshake ops s = (s1, Inr (addr, data))" "\<not> ra_udp addr"
      "route (lc_name (oc_listener cfg)) (lc_router (oc_listener cfg)) addr q = (q1, name)"
      "oc_connector cfg name = Some conf"
      "cached_connector (oo_create ops) name conf cache = (cache1, Inr c)" "(cache', q') = (cache1, q1)"
      "oo_connect ops c (endpoint addr) = Inr t" "oo_post_handshake ops False 0 s1 = (s', Inr ())"
    by blast
  have m: "oo_create ops conf = Inr c \<Longrightarrow> makes conf c" for c using assms(2) by blast
  from cached_connector_ok(2) [OF cache_reach_ok [OF assms(1)] d(4) m d(5)] have "makes conf c" by blast
  moreover have "cache_reach makes cfg cache'"
    using cache_lookup [OF assms(1) d(4) m d(5)] d(6) by simp
  moreover have "cache \<subseteq>\<^sub>m cache'" using cached_connector_mono [OF d(5)] d(6) by simp
  ultimately show ?thesis using d by (auto simp: d(3))
qed

lemma relayed_as_routed_witness:
  "\<exists>s' t s1 c. object_dispatch demo_ops demo_route demo_object demo_client (Map.empty, ())
     = (([''out'' \<mapsto> TcpConnector], ()), s',
        Relayed \<lparr>ra_addr = ''10.0.0.1'', ra_port = 80, ra_udp = False\<rparr> None t)
   \<and> oo_handshake demo_ops demo_client = (s1, Inr (\<lparr>ra_addr = ''10.0.0.1'', ra_port = 80, ra_udp = False\<rparr>, None))
   \<and> oo_connect demo_ops c ''10.0.0.1:80'' = Inr t"
proof -
  obtain s' t where d: "object_dispatch demo_ops demo_route demo_object demo_client (Map.empty, ())
     = (([''out'' \<mapsto> TcpConnector], ()), s',
        Relayed \<lparr>ra_addr = ''10.0.0.1'', ra_port = 80, ra_udp = False\<rparr> None t)"
    using demo_dispatch by blast
  have "cache_reach (\<lambda>_ _. True) demo_object Map.empty" by (rule cache_start)
  moreover have "\<forall>conf c. oo_create demo_ops conf = Inr c \<longrightarrow> True" by simp
  moreover have "endpoint \<lparr>ra_addr = ''10.0.0.1'', ra_port = 80, ra_udp = False\<rparr> = ''10.0.0.1:80''" by code_simp
  ultimately show ?thesis using relayed_as_routed [OF _ _ d] d by fastforce
qed

text \<open>A SOCKS5 client from its first byte to the relay.  Its hello and CONNECT request are answered
  with 5, 0 and then one confirmation, of success exactly if the connector the router named
  reached \<open>host:port\<close> of the request; on success the relay gets the connected stream and every
  byte the client sent after its request, on failure nothing is relayed.\<close>

theorem socks_object_serves:
  assumes "tcp_clean s" and "ts_err s = None" and "NO_AUTH \<in> set methods" and "length methods < 256"
    and "request_wf CMD_CONNECT a_typ a" and "a \<noteq> []"
    and "tcp_pending s = socks_client_bytes methods CMD_CONNECT a_typ a port @ rest"
    and "requested CMD_CONNECT a_typ a port = Inr addr"
    and "route (lc_name (oc_listener cfg)) (lc_router (oc_listener cfg)) addr q = (q', name)"
    and "oc_connector cfg name = Some conf"
    and "cached_connector (connector_create grpc_new) name conf cache = (cache', Inr c)"
  shows "\<exists>s'. object_dispatch (tcp_object_ops parse_url grpc_new dial tunnel (SocksAcceptor ls)) route cfg s (cache, q)
      = ((cache', q'), s',
         case connector_connect dial tunnel c (endpoint addr) of
           Inl e \<Rightarrow> ConnectError e (Inr ()) | Inr t \<Rightarrow> Relayed addr None t)
    \<and> ts_tx s' = ts_tx s @ [5, 0] @ confirm_to_bytes (confirm_new
        (case connector_connect dial tunnel c (endpoint addr) of Inl _ \<Rightarrow> True | Inr _ \<Rightarrow> False) 0)
    \<and> tcp_pending s' = rest"
  by (rule socks_object_ok) (fact assms)+

lemma socks_object_serves_witness:
  "\<exists>s' t. object_dispatch demo_ops demo_route demo_object demo_client (Map.empty, ())
     = (([''out'' \<mapsto> TcpConnector], ()), s',
        Relayed \<lparr>ra_addr = ''10.0.0.1'', ra_port = 80, ra_udp = False\<rparr> None t)
   \<and> ts_tx s' = [5, 0] @ confirm_to_bytes (confirm_new False 0) \<and> tcp_pending s' = [7]"
  using socks_object_serves [where route = demo_route and cfg = demo_object and q = "()" and q' = "()" and name = "''out''"
        and conf = demo_direct and cache = Map.empty and cache' = "[''out'' \<mapsto> TcpConnector]"
        and c = TcpConnector and grpc_new = "\<lambda>_. Inr ()"
        and parse_url = demo_url and dial = "\<lambda>_. Inr [Segment [9]]" and tunnel = "\<lambda>_ _. Inr ()" and ls = "[]",
      OF demo_object_facts(1-11)]
  by (auto simp: demo_ops_def connector_connect_def tcp_connect_def demo_object_facts(12))

end
