(* ===== verification/Udp_Socket.thy ===== *)
theory Udp_Socket
  imports Run_Def
begin

text \<open>
  \<open>src/stream/udp.rs\<close>: the two halves of a UDP socket with the resolution state they share.  The
  writer resolves a domain once and records it in both directions; the reader gives a reply the
  name its sender was resolved from.

  The socket is what it was sent and what it still receives (datagrams with their sender, or
  errors).  The system's resolver is an argument of every write, since it may answer differently
  each time, and so are the family of the socket's own address and the result of sending.
\<close>

record udp_socket =
  uk_domain_to_ip :: "string \<rightharpoonup> socket_addr"
  uk_ip_to_domain :: "socket_addr \<rightharpoonup> string"
  uk_sent :: "(bytes \<times> socket_addr) list"
  uk_recv :: "(fault + (bytes \<times> socket_addr)) list"

definition udp_run_stream_new :: "(fault + (bytes \<times> socket_addr)) list \<Rightarrow> udp_socket" where
  "udp_run_stream_new rx =
     \<lparr>uk_domain_to_ip = Map.empty, uk_ip_to_domain = Map.empty, uk_sent = [], uk_recv = rx\<rparr>"

type_synonym lookup_host = "string \<Rightarrow> u16 \<Rightarrow> socket_addr list io"

text \<open>The first address of the socket's own family, or else the first one.\<close>

definition pick_addr :: "bool \<Rightarrow> socket_addr list \<Rightarrow> socket_addr io" where
  "pick_addr prefers_ipv4 resolved =
     (case find (\<lambda>a. is_ipv4 (sa_ip a) = prefers_ipv4) resolved of
        Some a \<Rightarrow> Inr a
      | None \<Rightarrow> (case resolved of
                  a # _ \<Rightarrow> Inr a
                | [] \<Rightarrow> Inl (IoError Other ''no resolved UDP destination address'')))"

definition dst_lookup :: "lookup_host \<Rightarrow> bool io \<Rightarrow> string \<Rightarrow> u16 \<Rightarrow> socket_addr io" where
  "dst_lookup lookup local_v4 dst_addr dst_port =
     (case parse_ip dst_addr of
        Some ip \<Rightarrow> Inr \<lparr>sa_ip = ip, sa_port = dst_port\<rparr>
      | None \<Rightarrow>
          io_bind local_v4 (\<lambda>prefers_ipv4.
          io_bind (lookup dst_addr dst_port) (pick_addr prefers_ipv4)))"

definition resolve_dst_addr ::
    "lookup_host \<Rightarrow> bool io \<Rightarrow> string \<Rightarrow> u16 \<Rightarrow> (udp_socket, socket_addr) op" where
  "resolve_dst_addr lookup local_v4 dst_addr dst_port s =
     (let cache_key = host_port dst_addr dst_port in
      case uk_domain_to_ip s cache_key of
        Some addr \<Rightarrow> (s, Inr addr)
      | None \<Rightarrow>
          (case dst_lookup lookup local_v4 dst_addr dst_port of
             Inl e \<Rightarrow> (s, Inl e)
           | Inr addr \<Rightarrow>
               (let s = s\<lparr>uk_domain_to_ip := (uk_domain_to_ip s)(cache_key \<mapsto> addr)\<rparr> in
                (if parse_ip dst_addr = None
                 then s\<lparr>uk_ip_to_domain := (uk_ip_to_domain s)(addr \<mapsto> dst_addr)\<rparr> else s,
                 Inr addr))))"

definition udp_run_write ::
    "lookup_host \<Rightarrow> bool io \<Rightarrow> (bytes \<Rightarrow> socket_addr \<Rightarrow> unit io) \<Rightarrow> udp_packet \<Rightarrow> (udp_socket, unit) op" where
  "udp_run_write lookup local_v4 send_to packet =
     st_bind (resolve_dst_addr lookup local_v4 (um_dst_addr (up_meta packet)) (um_dst_port (up_meta packet)))
       (\<lambda>resolved_addr s.
          case send_to (up_data packet) resolved_addr of
            Inl e \<Rightarrow> (s, Inl e)
          | Inr _ \<Rightarrow> (s\<lparr>uk_sent := uk_sent s @ [(up_data packet, resolved_addr)]\<rparr>, Inr ()))"

definition udp_buf_len :: nat where "udp_buf_len = 65536"

definition udp_run_read :: "string \<Rightarrow> (udp_socket, udp_packet) op" where
  "udp_run_read src_addr s =
     (case parse_socket_addr src_addr of
        None \<Rightarrow> (s, Inl (Panic ''called unwrap on an Err value''))
      | Some src \<Rightarrow>
          (case uk_recv s of
             [] \<Rightarrow> (s, Inl (IoError Other ''socket closed''))
           | Inl e # r \<Rightarrow> (s\<lparr>uk_recv := r\<rparr>, Inl e)
           | Inr (datagram, dst) # r \<Rightarrow>
               (let dst_addr_str = (case uk_ip_to_domain s dst of
                                      Some domain \<Rightarrow> domain
                                    | None \<Rightarrow> show_ip (sa_ip dst))
                in (s\<lparr>uk_recv := r\<rparr>,
                    Inr \<lparr>up_meta = \<lparr>um_dst_addr = dst_addr_str, um_dst_port = sa_port dst,
                                     um_src_addr = show_ip (sa_ip src), um_src_port = sa_port src\<rparr>,
                         up_data = take udp_buf_len datagram\<rparr>))))"

section \<open>The resolution state\<close>

text \<open>The states a socket reaches: any writes, with any resolver, and any reads.\<close>

inductive udp_reach :: "udp_socket \<Rightarrow> bool" where
  udp_new: "udp_reach (udp_run_stream_new rx)"
| udp_write: "udp_reach s \<Longrightarrow> udp_reach (fst (udp_run_write lookup local_v4 send_to p s))"
| udp_read: "udp_reach s \<Longrightarrow> udp_reach (fst (udp_run_read src s))"

text \<open>The names that were asked for, are no IP address, and were resolved to an address.\<close>

definition named :: "udp_socket \<Rightarrow> socket_addr \<Rightarrow> string \<Rightarrow> bool" where
  "named s a d \<longleftrightarrow> parse_ip d = None \<and> (\<exists>port. uk_domain_to_ip s (host_port d port) = Some a)"

definition names_inv :: "udp_socket \<Rightarrow> bool" where
  "names_inv s \<longleftrightarrow>
     (\<forall>a d. uk_ip_to_domain s a = Some d \<longrightarrow> named s a d)
   \<and> (\<forall>a d. named s a d \<longrightarrow> uk_ip_to_domain s a \<noteq> None)"

lemma rsplit_host_port: "rsplit_once CHR '':'' (host_port h p) = Some (h, show_dec (unat p))"
  using rsplit_once_append [of "CHR '':''" "show_dec (unat p)" h] by (simp add: host_port_def)

lemma host_port_inj: "host_port h p = host_port h' p' \<longleftrightarrow> h = h' \<and> p = p'"
  using rsplit_host_port [of h p] rsplit_host_port [of h' p']
    parse_u16_show_dec [of p] parse_u16_show_dec [of p']
  by (metis option.inject prod.inject)

lemma resolve_state:
  assumes "resolve_dst_addr lookup local_v4 d port s = (s', r)"
  shows "s' = s \<or> (\<exists>a. uk_domain_to_ip s (host_port d port) = None \<and> r = Inr a \<and>
    s' = s\<lparr>uk_domain_to_ip := (uk_domain_to_ip s)(host_port d port \<mapsto> a),
           uk_ip_to_domain := (if parse_ip d = None then (uk_ip_to_domain s)(a \<mapsto> d) else uk_ip_to_domain s)\<rparr>)"
proof (cases "uk_domain_to_ip s (host_port d port)")
  case None
  show ?thesis
  proof (cases "dst_lookup lookup local_v4 d port")
    case (Inl e)
    with None assms show ?thesis by (simp add: resolve_dst_addr_def)
  next
    case (Inr a)
    with None assms show ?thesis by (intro disjI2 exI [of _ a]) (auto simp: resolve_dst_addr_def Let_def)
  qed
next
  case (Some a)
  with assms show ?thesis by (simp add: resolve_dst_addr_def)
qed

lemma resolve_names_inv:
  assumes "names_inv s" and "resolve_dst_addr lookup local_v4 d port s = (s', r)"
  shows "names_inv s'"
proof -
  from resolve_state [OF assms(2)] show ?thesis
  proof (elim disjE exE conjE)
    assume "s' = s"
    with assms(1) show ?thesis by simp
  next
    fix a
    assume new: "uk_domain_to_ip s (host_port d port) = None" and s': "s' =
      s\<lparr>uk_domain_to_ip := (uk_domain_to_ip s)(host_port d port \<mapsto> a),
        uk_ip_to_domain := (if parse_ip d = None then (uk_ip_to_domain s)(a \<mapsto> d) else uk_ip_to_domain s)\<rparr>"
    have n: "named s' b e \<longleftrightarrow> named s b e \<or> (b = a \<and> e = d \<and> parse_ip d = None)" for b e
    proof
      assume "named s' b e"
      then show "named s b e \<or> (b = a \<and> e = d \<and> parse_ip d = None)"
        by (auto simp: named_def s' host_port_inj split: if_splits)
    next
      assume "named s b e \<or> (b = a \<and> e = d \<and> parse_ip d = None)"
      then consider q where "parse_ip e = None" "uk_domain_to_ip s (host_port e q) = Some b"
        | "b = a" "e = d" "parse_ip d = None" by (auto simp: named_def)
      then show "named s' b e"
      proof cases
        case (1 q)
        with new have "host_port e q \<noteq> host_port d port" by auto
        with 1 show ?thesis unfolding named_def s' by (auto intro!: exI [of _ q])
      next
        case 2
        then show ?thesis unfolding named_def s' by (auto intro!: exI [of _ port])
      qed
    qed
    have "uk_ip_to_domain s' = (if parse_ip d = None then (uk_ip_to_domain s)(a \<mapsto> d) else uk_ip_to_domain s)"
      by (simp add: s')
    then show ?thesis
      using assms(1) by (auto simp: names_inv_def n)
  qed
qed

lemma names_inv_frame:
  "uk_domain_to_ip s' = uk_domain_to_ip s \<Longrightarrow> uk_ip_to_domain s' = uk_ip_to_domain s \<Longrightarrow>
     names_inv s' = names_inv s"
  by (simp add: names_inv_def named_def)

lemma udp_run_write_state:
  "uk_domain_to_ip (fst (udp_run_write lookup local_v4 send_to p s)) =
     uk_domain_to_ip (fst (resolve_dst_addr lookup local_v4 (um_dst_addr (up_meta p)) (um_dst_port (up_meta p)) s))"
  "uk_ip_to_domain (fst (udp_run_write lookup local_v4 send_to p s)) =
     uk_ip_to_domain (fst (resolve_dst_addr lookup local_v4 (um_dst_addr (up_meta p)) (um_dst_port (up_meta p)) s))"
  by (cases "resolve_dst_addr lookup local_v4 (um_dst_addr (up_meta p)) (um_dst_port (up_meta p)) s";
      simp add: udp_run_write_def st_bind_def split: sum.split)+

lemma udp_run_read_state:
  "uk_domain_to_ip (fst (udp_run_read src s)) = uk_domain_to_ip s"
  "uk_ip_to_domain (fst (udp_run_read src s)) = uk_ip_to_domain s"
  by (auto simp: udp_run_read_def Let_def split: option.splits list.splits sum.splits)

lemma udp_reach_names: "udp_reach s \<Longrightarrow> names_inv s"
proof (induction rule: udp_reach.induct)
  case (udp_new rx)
  then show ?case by (simp add: names_inv_def named_def udp_run_stream_new_def)
next
  case (udp_write s lookup local_v4 send_to p)
  have "names_inv (fst (resolve_dst_addr lookup local_v4 (um_dst_addr (up_meta p)) (um_dst_port (up_meta p)) s))"
    using resolve_names_inv [OF udp_write.IH] by (metis prod.collapse)
  with names_inv_frame udp_run_write_state show ?case by metis
next
  case (udp_read s src)
  then show ?case using names_inv_frame udp_run_read_state by metis
qed

section \<open>Properties\<close>

text \<open>C26: Replies keep their names: whatever was written and resolved before, a packet that is read
  carries a domain exactly when some domain was resolved to its sender's address, and then one of
  those domains; otherwise the sender's IP.  Its port is the sender's, its data the datagram, cut
  at 65536 bytes.\<close>

theorem udp_replies_named:
  assumes "udp_reach s" and "uk_recv s = Inr (datagram, a) # rx"
    and "parse_socket_addr src_addr = Some src"
  shows "\<exists>p s'. udp_run_read src_addr s = (s', Inr p) \<and> uk_recv s' = rx
    \<and> (if \<exists>d. named s a d then named s a (um_dst_addr (up_meta p))
        else um_dst_addr (up_meta p) = show_ip (sa_ip a))
    \<and> um_dst_port (up_meta p) = sa_port a \<and> up_data p = take 65536 datagram"
  using udp_reach_names [OF assms(1)] assms(2,3)
  by (cases "uk_ip_to_domain s a")
    (auto simp: udp_run_read_def names_inv_def udp_buf_len_def Let_def)

text \<open>Writing to a domain whose first resolution gives one address.\<close>

lemma write_new_domain:
  assumes "parse_ip (um_dst_addr (up_meta p)) = None"
    and "uk_domain_to_ip s (host_port (um_dst_addr (up_meta p)) (um_dst_port (up_meta p))) = None"
    and "lookup (um_dst_addr (up_meta p)) (um_dst_port (up_meta p)) = Inr [a]"
    and "t = fst (udp_run_write lookup (Inr v4) send_to p s)"
  shows "uk_domain_to_ip t = (uk_domain_to_ip s)(host_port (um_dst_addr (up_meta p)) (um_dst_port (up_meta p)) \<mapsto> a)"
    and "uk_ip_to_domain t = (uk_ip_to_domain s)(a \<mapsto> um_dst_addr (up_meta p))"
  using assms(1-3) unfolding assms(4) udp_run_write_state
  by (simp_all add: resolve_dst_addr_def dst_lookup_def pick_addr_def)

lemma write_known_domain:
  assumes "uk_domain_to_ip s (host_port (um_dst_addr (up_meta p)) (um_dst_port (up_meta p))) \<noteq> None"
  shows "uk_ip_to_domain (fst (udp_run_write lookup local_v4 send_to p s)) = uk_ip_to_domain s"
  using assms unfolding udp_run_write_state by (auto simp: resolve_dst_addr_def)

definition demo_host :: socket_addr where
  "demo_host = \<lparr>sa_ip = V4 9 9 9 9, sa_port = 53\<rparr>"

definition ask :: "string \<Rightarrow> udp_packet" where
  "ask d = \<lparr>up_meta = \<lparr>um_dst_addr = d, um_dst_port = 53, um_src_addr = ''10.0.0.1'',
     um_src_port = 40\<rparr>, up_data = [7]\<rparr>"

definition demo_write :: "string \<Rightarrow> (udp_socket, unit) op" where
  "demo_write d = udp_run_write (\<lambda>_ _. Inr [demo_host]) (Inr True) (\<lambda>_ _. Inr ()) (ask d)"

definition demo_socket :: udp_socket where
  "demo_socket = udp_run_stream_new [Inr ([1], demo_host)]"

lemma demo_names: "parse_ip ''x.org'' = None" "parse_ip ''y.org'' = None"
  by (rule parse_ip_first; code_simp)+

lemma demo_src: "parse_socket_addr ''10.0.0.1:40'' = Some \<lparr>sa_ip = V4 10 0 0 1, sa_port = 40\<rparr>"
proof -
  have "''10.0.0.1:40'' = show_v4 10 0 0 1 @ CHR '':'' # show_dec (unat (40 :: u16))" by code_simp
  then show ?thesis by (simp only: parse_show_socket_v4)
qed

lemma udp_replies_named_witness:
  "\<exists>p s'. udp_run_read ''10.0.0.1:40'' (fst (demo_write ''x.org'' demo_socket)) = (s', Inr p)
     \<and> named (fst (demo_write ''x.org'' demo_socket)) demo_host (um_dst_addr (up_meta p))"
proof -
  let ?s = "fst (demo_write ''x.org'' demo_socket)"
  have r: "udp_reach ?s" unfolding demo_write_def demo_socket_def
    by (intro udp_reach.udp_write udp_reach.udp_new)
  have rx: "uk_recv ?s = Inr ([1], demo_host) # []"
    by (simp add: demo_write_def udp_run_write_def st_bind_def resolve_dst_addr_def dst_lookup_def
        demo_names ask_def demo_socket_def udp_run_stream_new_def pick_addr_def)
  have "uk_domain_to_ip ?s (host_port ''x.org'' 53) = Some demo_host"
    by (simp add: demo_write_def udp_run_write_def st_bind_def resolve_dst_addr_def dst_lookup_def
        demo_names ask_def demo_socket_def udp_run_stream_new_def pick_addr_def)
  then have n: "\<exists>d. named ?s demo_host d" using demo_names(1) unfolding named_def by blast
  from udp_replies_named [OF r rx demo_src] show ?thesis unfolding if_P [OF n] by blast
qed

text \<open>Two domains at one address share the name of their replies: once a second domain was resolved
  to the address of the first, every reply of that address carries the second one's name, even
  after a later packet to the first.\<close>

theorem udp_shared_address:
  assumes "um_dst_addr (up_meta p) = d" and "um_dst_addr (up_meta q) = e" and "d \<noteq> e"
    and "parse_ip d = None" and "parse_ip e = None"
    and "uk_domain_to_ip s = Map.empty"
    and "lookup d (um_dst_port (up_meta p)) = Inr [a]" and "lookup e (um_dst_port (up_meta q)) = Inr [a]"
    and "s1 = fst (udp_run_write lookup (Inr v4) send_to p s)"
    and "s2 = fst (udp_run_write lookup (Inr v4) send_to q s1)"
  shows "uk_ip_to_domain s1 a = Some d
    \<and> uk_ip_to_domain (fst (udp_run_write lookup (Inr v4) send_to p s2)) a = Some e"
proof -
  have s1: "uk_domain_to_ip s1 = [host_port d (um_dst_port (up_meta p)) \<mapsto> a]"
    "uk_ip_to_domain s1 = (uk_ip_to_domain s)(a \<mapsto> d)"
    using write_new_domain [of p s lookup a s1, OF _ _ _ assms(9)] assms(1,4,6,7) by auto
  have "uk_domain_to_ip s1 (host_port e (um_dst_port (up_meta q))) = None"
    using assms(3) by (simp add: s1 host_port_inj)
  with write_new_domain [of q s1 lookup a s2, OF _ _ _ assms(10)] assms(2,5,8)
  have s2: "uk_domain_to_ip s2 = (uk_domain_to_ip s1)(host_port e (um_dst_port (up_meta q)) \<mapsto> a)"
    "uk_ip_to_domain s2 = (uk_ip_to_domain s1)(a \<mapsto> e)" by auto
  have "uk_domain_to_ip s2 (host_port d (um_dst_port (up_meta p))) \<noteq> None"
    by (simp add: s2 s1)
  then have "uk_ip_to_domain (fst (udp_run_write lookup (Inr v4) send_to p s2)) = uk_ip_to_domain s2"
    using write_known_domain assms(1) by blast
  then show ?thesis by (simp add: s1 s2)
qed

lemma udp_shared_address_witness:
  "uk_ip_to_domain (fst (demo_write ''x.org'' (fst (demo_write ''y.org'' (fst (demo_write ''x.org'' demo_socket))))))
     demo_host = Some ''y.org''"
proof -
  have a: "um_dst_addr (up_meta (ask d)) = d" for d by (simp add: ask_def)
  have e: "uk_domain_to_ip demo_socket = Map.empty" by (simp add: demo_socket_def udp_run_stream_new_def)
  have ne: "''x.org'' \<noteq> ''y.org''" by simp
  from udp_shared_address [OF a a ne demo_names e, of "\<lambda>_ _. Inr [demo_host]", OF refl refl refl refl]
  show ?thesis unfolding demo_write_def by blast
qed

end
