(* ===== verification/Packet_Relay.thy ===== *)
theory Packet_Relay
  imports Dispatch Udp_Socket
begin

text \<open>
  \<open>src/object/raw_udp.rs\<close> and \<open>src/object/udp.rs\<close>: the relays of UDP packets.  Each first takes one
  packet, routes by its destination, opens a tunnel and sends that packet on; then tasks run until
  one of them ends and cancels the others.  The two loops of the raw relay (\<open>b\<close> from the client to
  the tunnel, \<open>c\<close> back) and the loops \<open>b\<close> and \<open>c\<close> of the SOCKS5 association are one shape: receive a
  packet, skip it if it is empty and the loop drops empty packets, write it, report its length.
  A third task of the association watches the TCP stream.

  \<open>select!\<close> is \<open>biased\<close> in all of them: a task that finds the token cancelled stops.  A write may
  need what the environment draws, such as nonces; every step takes it as an argument.
\<close>

section \<open>Opening a tunnel\<close>

text \<open>The direct connector binds a socket, the gRPC connector opens a call; \<open>pb_tcp_udp_tunnel\<close>,
  \<open>block_udp_tunnel\<close> and \<open>rev_udp_tunnel\<close> are with their connectors.\<close>

definition tcp_udp_tunnel ::
    "(fault + (bytes \<times> socket_addr)) list io \<Rightarrow> string \<Rightarrow> (udp_socket \<times> string) option io" where
  "tcp_udp_tunnel bound src_addr =
     io_bind bound (\<lambda>rx. Inr (Some (udp_run_stream_new rx, src_addr)))"

definition grpc_udp_tunnel ::
    "(string + udp_res grpc_event list) \<Rightarrow> 'v connector_cfg
       \<Rightarrow> (udp_res grpc_event list \<times> udp_req sender \<times> string) option io" where
  "grpc_udp_tunnel call cfg =
     (case call of
        Inl e \<Rightarrow> Inl (IoError Other ''grpc stream error'')
      | Inr resp \<Rightarrow> io_bind (unwrap (cc_pw cfg)) (\<lambda>pw. Inr (Some (resp, open_sender, pw))))"

section \<open>One direction\<close>

record ('r, 'w) packet_copier =
  pc_rd :: 'r
  pc_wr :: 'w
  pc_obs :: "nat list"
  pc_end :: "task_end option"

definition packet_copier_new :: "'r \<Rightarrow> 'w \<Rightarrow> ('r, 'w) packet_copier" where
  "packet_copier_new r w = \<lparr>pc_rd = r, pc_wr = w, pc_obs = [], pc_end = None\<rparr>"

definition packet_step ::
    "bool \<Rightarrow> ('r, udp_packet) op \<Rightarrow> ('x, 'w) packet_writer \<Rightarrow> 'x \<Rightarrow> ('r, 'w) packet_copier
       \<Rightarrow> ('r, 'w) packet_copier" where
  "packet_step drops rd wr x c =
     (case rd (pc_rd c) of
        (r, Inl e) \<Rightarrow> c\<lparr>pc_rd := r, pc_end := Some (end_of_fault e)\<rparr>
      | (r, Inr packet) \<Rightarrow>
          if drops \<and> up_data packet = [] then c\<lparr>pc_rd := r\<rparr>
          else
            (case wr x packet (pc_wr c) of
               (w, Inl e) \<Rightarrow> c\<lparr>pc_rd := r, pc_wr := w, pc_end := Some (end_of_fault e)\<rparr>
             | (w, Inr _) \<Rightarrow>
                 c\<lparr>pc_rd := r, pc_wr := w, pc_obs := pc_obs c @ [length (up_data packet)]\<rparr>))"

text \<open>The loops of the association at the socket the SOCKS5 client sends to: a datagram is received into a
  buffer of 65536 bytes and parsed; a reply is sent as the payloads of \<open>reply_bytes\<close>, to the
  address it names.  \<open>send_to\<close> is the system's.\<close>

definition assoc_recv :: "((fault + (bytes \<times> socket_addr)) list, udp_packet) op" where
  "assoc_recv rx =
     (case rx of
        [] \<Rightarrow> ([], Inl (IoError Other ''socket closed''))
      | Inl e # r \<Rightarrow> (r, Inl e)
      | Inr (datagram, src_addr) # r \<Rightarrow> (r, udp_parse (take udp_buf_len datagram) src_addr))"

fun send_payloads ::
    "(bytes \<Rightarrow> string \<Rightarrow> unit io) \<Rightarrow> bytes list \<Rightarrow> string \<Rightarrow> ((bytes \<times> string) list, unit) op" where
  "send_payloads send_to [] addr sent = (sent, Inr ())"
| "send_payloads send_to (p # ps) addr sent =
     (case send_to p addr of
        Inl e \<Rightarrow> (sent, Inl e)
      | Inr _ \<Rightarrow> send_payloads send_to ps addr (sent @ [(p, addr)]))"

definition assoc_reply ::
    "(bytes \<Rightarrow> string \<Rightarrow> unit io, (bytes \<times> string) list) packet_writer" where
  "assoc_reply send_to packet sent =
     (case reply_bytes packet of (payloads, src_addr_str, dst_addr) \<Rightarrow>
        send_payloads send_to payloads src_addr_str sent)"

section \<open>The raw relay\<close>

record ('r, 'uw, 'ur, 'w) raw_relay =
  rr_in :: "('r, 'uw) packet_copier"
  rr_out :: "('ur, 'w) packet_copier"
  rr_cancel :: bool

inductive raw_step ::
    "('r, udp_packet) op \<Rightarrow> ('x, 'uw) packet_writer \<Rightarrow> ('ur, udp_packet) op \<Rightarrow> ('y, 'w) packet_writer
       \<Rightarrow> ('r, 'uw, 'ur, 'w) raw_relay \<Rightarrow> ('r, 'uw, 'ur, 'w) raw_relay \<Rightarrow> bool"
  for rd uwr urd wr where
  raw_in: "raw_step rd uwr urd wr s
      (s\<lparr>rr_in := c, rr_cancel := cancelled_by (rr_cancel s) (pc_end c)\<rparr>)"
    if "pc_end (rr_in s) = None" "\<not> rr_cancel s" "c = packet_step True rd uwr x (rr_in s)"
| raw_out: "raw_step rd uwr urd wr s
      (s\<lparr>rr_out := c, rr_cancel := cancelled_by (rr_cancel s) (pc_end c)\<rparr>)"
    if "pc_end (rr_out s) = None" "\<not> rr_cancel s" "c = packet_step False urd wr y (rr_out s)"
| raw_in_cancel: "raw_step rd uwr urd wr s (s\<lparr>rr_in := (rr_in s)\<lparr>pc_end := Some Cancelled\<rparr>\<rparr>)"
    if "pc_end (rr_in s) = None" "rr_cancel s"
| raw_out_cancel: "raw_step rd uwr urd wr s (s\<lparr>rr_out := (rr_out s)\<lparr>pc_end := Some Cancelled\<rparr>\<rparr>)"
    if "pc_end (rr_out s) = None" "rr_cancel s"

inductive raw_reach ::
    "('r, udp_packet) op \<Rightarrow> ('x, 'uw) packet_writer \<Rightarrow> ('ur, udp_packet) op \<Rightarrow> ('y, 'w) packet_writer
       \<Rightarrow> ('r, 'uw, 'ur, 'w) raw_relay \<Rightarrow> ('r, 'uw, 'ur, 'w) raw_relay \<Rightarrow> bool"
  for rd uwr urd wr s0 where
  raw_refl: "raw_reach rd uwr urd wr s0 s0"
| raw_trans: "raw_reach rd uwr urd wr s0 s \<Longrightarrow> raw_step rd uwr urd wr s s' \<Longrightarrow>
     raw_reach rd uwr urd wr s0 s'"

text \<open>The first packet: routed by its destination, as UDP, and written to the tunnel whatever it
  holds.  The connector is cached like that of a TCP connection.\<close>

definition raw_udp_start ::
    "('v connector_cfg \<Rightarrow> 'c io) \<Rightarrow> ('c \<Rightarrow> string \<Rightarrow> ('ur \<times> 'uw) option io) \<Rightarrow> 'q route_op \<Rightarrow> 'v object_config
       \<Rightarrow> ('r, udp_packet) op \<Rightarrow> ('x, 'uw) packet_writer \<Rightarrow> 'x \<Rightarrow> 'r \<Rightarrow> 'w \<Rightarrow> 'c connector_cache \<times> 'q
       \<Rightarrow> ('c connector_cache \<times> 'q) \<times> ('r, 'uw, 'ur, 'w) raw_relay io" where
  "raw_udp_start create udp_tunnel route cfg rd uwr x r w st =
     (case st of (cache, q) \<Rightarrow>
        (case rd r of
           (r, Inl e) \<Rightarrow> (st, Inl e)
         | (r, Inr first_packet) \<Rightarrow>
             let m = up_meta first_packet;
                 (q, client_name) = route (lc_name (oc_listener cfg)) (lc_router (oc_listener cfg))
                    \<lparr>ra_addr = um_dst_addr m, ra_port = um_dst_port m, ra_udp = True\<rparr> q
             in (case oc_connector cfg client_name of
                   None \<Rightarrow> ((cache, q), Inl (IoError NotFound
                     (''Connector config '' @ [CHR 0x27] @ client_name @ [CHR 0x27] @ '' not found for UDP'')))
                 | Some conn_conf \<Rightarrow>
                     (case cached_connector create client_name conn_conf cache of
                        (cache, Inl e) \<Rightarrow> ((cache, q), Inl e)
                      | (cache, Inr connector_obj) \<Rightarrow>
                          ((cache, q),
                           io_bind (udp_tunnel connector_obj (host_port (um_src_addr m) (um_src_port m))) (\<lambda>tunnel.
                           case tunnel of
                             None \<Rightarrow> Inl (IoError Other ''UDP tunnel creation failed or not supported by connector'')
                           | Some (udp_reader, udp_writer) \<Rightarrow>
                               (case uwr x first_packet udp_writer of
                                  (_, Inl e) \<Rightarrow> Inl e
                                | (udp_writer, Inr _) \<Rightarrow>
                                    Inr \<lparr>rr_in = packet_copier_new r udp_writer,
                                         rr_out = packet_copier_new udp_reader w,
                                         rr_cancel = False\<rparr>)))))))"

section \<open>The association\<close>

record ('s, 'uw, 'ur) assoc =
  ac_stream :: 's
  ac_watch :: "task_end option"
  ac_in :: "((fault + (bytes \<times> socket_addr)) list, 'uw) packet_copier"
  ac_out :: "('ur, (bytes \<times> string) list) packet_copier"
  ac_cancel :: bool

text \<open>Task \<open>a\<close> reads the TCP stream byte by byte, only to see it end.\<close>

definition watch_step :: "'s reader \<Rightarrow> 's \<Rightarrow> 's \<times> task_end option" where
  "watch_step rd s =
     (case read_exact rd s 1 of
        (s, Inl e) \<Rightarrow> (s, Some (end_of_fault e))
      | (s, Inr (_, n)) \<Rightarrow> (s, if n = 0 then Some Eof else None))"

text \<open>From the request to the start of the loops.  \<open>NotStarted\<close>: nothing runs.  \<open>Stopped\<close>: the
  handler returned while task \<open>a\<close> runs on, with the token cancelled or not.  Task \<open>a\<close> runs from the
  confirmation on; its steps before the loops start are steps of the association too, which no
  other step depends on.\<close>

datatype 'a assoc_start = NotStarted "unit io" | Stopped "unit io" bool | Running 'a

definition assoc_first ::
    "('v connector_cfg \<Rightarrow> 'c io) \<Rightarrow> ('c \<Rightarrow> string \<Rightarrow> ('ur \<times> 'uw) option io) \<Rightarrow> 'q route_op \<Rightarrow> 'v object_config
       \<Rightarrow> ('x, 'uw) packet_writer \<Rightarrow> 'x \<Rightarrow> 's \<Rightarrow> (fault + (bytes \<times> socket_addr)) list \<Rightarrow> 'q
       \<Rightarrow> 'q \<times> ('s, 'uw, 'ur) assoc assoc_start" where
  "assoc_first create udp_tunnel route cfg uwr x s rx q =
     (case rx of
        [] \<Rightarrow> (q, Stopped (Inl (IoError Other ''socket closed'')) True)
      | Inl e # _ \<Rightarrow> (q, Stopped (Inl e) True)
      | Inr (datagram, src_addr) # rx \<Rightarrow>
          (case udp_parse (take udp_buf_len datagram) src_addr of
             Inl e \<Rightarrow> (q, Stopped (Inl e) False)
           | Inr udp_packet \<Rightarrow>
               if up_data udp_packet = [] then (q, Stopped (Inr ()) True)
               else
                 let m = up_meta udp_packet;
                     (q, client_name) = route (lc_name (oc_listener cfg)) (lc_router (oc_listener cfg))
                        \<lparr>ra_addr = um_dst_addr m, ra_port = um_dst_port m, ra_udp = False\<rparr> q
                 in (q,
                     case io_bind (unwrap (oc_connector cfg client_name)) (\<lambda>conn_conf.
                          io_bind (create conn_conf) (\<lambda>ctor.
                          io_bind (udp_tunnel ctor (host_port (um_src_addr m) (um_src_port m))) unwrap)) of
                       Inl e \<Rightarrow> Stopped (Inl e) False
                     | Inr (udp_tunnel_reader, udp_tunnel_writer) \<Rightarrow>
                         (case uwr x udp_packet udp_tunnel_writer of
                            (_, Inl e) \<Rightarrow> Stopped (Inl e) True
                          | (udp_tunnel_writer, Inr _) \<Rightarrow>
                              Running \<lparr>ac_stream = s, ac_watch = None,
                                ac_in = packet_copier_new rx udp_tunnel_writer,
                                ac_out = packet_copier_new udp_tunnel_reader [],
                                ac_cancel = False\<rparr>))))"

definition assoc_start ::
    "('v connector_cfg \<Rightarrow> 'c io) \<Rightarrow> ('c \<Rightarrow> string \<Rightarrow> ('ur \<times> 'uw) option io) \<Rightarrow> 'q route_op \<Rightarrow> 'v object_config
       \<Rightarrow> (bool \<Rightarrow> u16 \<Rightarrow> ('s, unit) op) \<Rightarrow> (u16 \<times> (fault + (bytes \<times> socket_addr)) list) io
       \<Rightarrow> ('x, 'uw) packet_writer \<Rightarrow> 'x \<Rightarrow> 's \<Rightarrow> 'q \<Rightarrow> 'q \<times> ('s, 'uw, 'ur) assoc assoc_start" where
  "assoc_start create udp_tunnel route cfg post_handshake bound uwr x s q =
     (case bound of
        Inl e \<Rightarrow>
          (q, NotStarted (case post_handshake True 0 s of (_, Inl e') \<Rightarrow> Inl e' | (_, Inr _) \<Rightarrow> Inl e))
      | Inr (udp_port, rx) \<Rightarrow>
          (case post_handshake False udp_port s of
             (_, Inl e) \<Rightarrow> (q, NotStarted (Inl e))
           | (s, Inr _) \<Rightarrow> assoc_first create udp_tunnel route cfg uwr x s rx q))"

inductive assoc_step ::
    "'s reader \<Rightarrow> ('x, 'uw) packet_writer \<Rightarrow> ('ur, udp_packet) op
       \<Rightarrow> ('s, 'uw, 'ur) assoc \<Rightarrow> ('s, 'uw, 'ur) assoc \<Rightarrow> bool"
  for srd uwr urd where
  assoc_watch: "assoc_step srd uwr urd s
      (s\<lparr>ac_stream := t, ac_watch := e, ac_cancel := cancelled_by (ac_cancel s) e\<rparr>)"
    if "ac_watch s = None" "\<not> ac_cancel s" "watch_step srd (ac_stream s) = (t, e)"
| assoc_in: "assoc_step srd uwr urd s
      (s\<lparr>ac_in := c, ac_cancel := cancelled_by (ac_cancel s) (pc_end c)\<rparr>)"
    if "pc_end (ac_in s) = None" "\<not> ac_cancel s" "c = packet_step True assoc_recv uwr x (ac_in s)"
| assoc_out: "assoc_step srd uwr urd s
      (s\<lparr>ac_out := c, ac_cancel := cancelled_by (ac_cancel s) (pc_end c)\<rparr>)"
    if "pc_end (ac_out s) = None" "\<not> ac_cancel s" "c = packet_step False urd assoc_reply send_to (ac_out s)"
| assoc_watch_cancel: "assoc_step srd uwr urd s (s\<lparr>ac_watch := Some Cancelled\<rparr>)"
    if "ac_watch s = None" "ac_cancel s"
| assoc_in_cancel: "assoc_step srd uwr urd s (s\<lparr>ac_in := (ac_in s)\<lparr>pc_end := Some Cancelled\<rparr>\<rparr>)"
    if "pc_end (ac_in s) = None" "ac_cancel s"
| assoc_out_cancel: "assoc_step srd uwr urd s (s\<lparr>ac_out := (ac_out s)\<lparr>pc_end := Some Cancelled\<rparr>\<rparr>)"
    if "pc_end (ac_out s) = None" "ac_cancel s"

inductive assoc_reach ::
    "'s reader \<Rightarrow> ('x, 'uw) packet_writer \<Rightarrow> ('ur, udp_packet) op
       \<Rightarrow> ('s, 'uw, 'ur) assoc \<Rightarrow> ('s, 'uw, 'ur) assoc \<Rightarrow> bool"
  for srd uwr urd s0 where
  assoc_refl: "assoc_reach srd uwr urd s0 s0"
| assoc_trans: "assoc_reach srd uwr urd s0 s \<Longrightarrow> assoc_step srd uwr urd s s' \<Longrightarrow>
     assoc_reach srd uwr urd s0 s'"

section \<open>What one direction guarantees\<close>

definition kept :: "bool \<Rightarrow> udp_packet list \<Rightarrow> udp_packet list" where
  "kept drops ps = (if drops then filter (\<lambda>p. up_data p \<noteq> []) ps else ps)"

text \<open>
  From \<open>r0\<close> the packets \<open>ps\<close> were read, and to \<open>w0\<close> those of them that are kept were written, one by
  one and in order, and their lengths reported.  A task that still runs or was cancelled is there
  exactly; one that failed did so at the next read or at the write of the next packet.
\<close>

definition failed_next ::
    "bool \<Rightarrow> ('r, udp_packet) op \<Rightarrow> ('x, 'w) packet_writer \<Rightarrow> 'r \<Rightarrow> 'w \<Rightarrow> ('r, 'w) packet_copier \<Rightarrow> fault \<Rightarrow> bool" where
  "failed_next drops rd wr r w c e \<longleftrightarrow>
     rd r = (pc_rd c, Inl e) \<and> pc_wr c = w
   \<or> (\<exists>p x. rd r = (pc_rd c, Inr p) \<and> kept drops [p] = [p] \<and> wr x p w = (pc_wr c, Inl e))"

definition copied ::
    "bool \<Rightarrow> ('r, udp_packet) op \<Rightarrow> ('x, 'w) packet_writer \<Rightarrow> 'r \<Rightarrow> 'w \<Rightarrow> ('r, 'w) packet_copier \<Rightarrow> bool" where
  "copied drops rd wr r0 w0 c \<longleftrightarrow>
     (\<exists>ps xs r w. read_packets rd (length ps) r0 = (r, Inr ps)
        \<and> length xs = length (kept drops ps) \<and> write_packets wr (zip xs (kept drops ps)) w0 = (w, Inr ())
        \<and> pc_obs c = map (\<lambda>p. length (up_data p)) (kept drops ps)
        \<and> (pc_end c = None \<or> pc_end c = Some Cancelled \<longrightarrow> pc_rd c = r \<and> pc_wr c = w)
        \<and> (pc_end c \<noteq> None \<and> pc_end c \<noteq> Some Cancelled \<longrightarrow>
             (\<exists>e. pc_end c = Some (end_of_fault e) \<and> failed_next drops rd wr r w c e)))"

lemma read_packets_snoc:
  "read_packets rd n r0 = (r, Inr ps) \<Longrightarrow> rd r = (r', Inr p) \<Longrightarrow>
    read_packets rd (Suc n) r0 = (r', Inr (ps @ [p]))"
proof (induction n arbitrary: r0 ps)
  case 0
  then show ?case by (simp add: st_bind_def)
next
  case (Suc n)
  from Suc.prems(1) obtain s q qs where q: "rd r0 = (s, Inr q)" "read_packets rd n s = (r, Inr qs)" "ps = q # qs"
    by (auto simp: st_bind_eq_Inr)
  from Suc.IH [OF q(2) Suc.prems(2)] have "read_packets rd (Suc n) s = (r', Inr (qs @ [p]))" .
  then show ?case using q(1,3) by (subst read_packets.simps) (simp add: st_bind_def)
qed

lemma write_packets_snoc:
  "write_packets wr ps w0 = (w, Inr ()) \<Longrightarrow> wr x p w = (w', Inr ()) \<Longrightarrow>
    write_packets wr (ps @ [(x, p)]) w0 = (w', Inr ())"
  by (induction wr ps arbitrary: w0 rule: write_packets.induct) (auto simp: st_bind_def split: prod.splits sum.splits)

lemma copied_new: "copied drops rd wr r w (packet_copier_new r w)"
  unfolding copied_def packet_copier_new_def
  by (intro exI [of _ "[]"] exI [of _ r] exI [of _ w]) (simp add: kept_def)

lemma copied_cancel: "copied drops rd wr r0 w0 c \<Longrightarrow> pc_end c = None \<Longrightarrow>
    copied drops rd wr r0 w0 (c\<lparr>pc_end := Some Cancelled\<rparr>)"
  by (auto simp: copied_def)

lemma kept_snoc: "kept drops (ps @ [p]) = kept drops ps @ kept drops [p]"
  by (simp add: kept_def)

lemma copied_step:
  assumes "copied drops rd wr r0 w0 c" and "pc_end c = None"
  shows "copied drops rd wr r0 w0 (packet_step drops rd wr x c)"
proof -
  from assms obtain ps xs where ps: "read_packets rd (length ps) r0 = (pc_rd c, Inr ps)"
    "length xs = length (kept drops ps)" "write_packets wr (zip xs (kept drops ps)) w0 = (pc_wr c, Inr ())"
    "pc_obs c = map (\<lambda>p. length (up_data p)) (kept drops ps)"
    by (auto simp: copied_def)
  obtain r res where r: "rd (pc_rd c) = (r, res)" by fastforce
  show ?thesis
  proof (cases res)
    case (Inl e)
    with r have "packet_step drops rd wr x c = c\<lparr>pc_rd := r, pc_end := Some (end_of_fault e)\<rparr>"
      by (simp add: packet_step_def)
    with ps r Inl show ?thesis unfolding copied_def
      by (intro exI [of _ ps] exI [of _ xs] exI [of _ "pc_rd c"] exI [of _ "pc_wr c"])
        (auto simp: failed_next_def)
  next
    case (Inr p)
    note read = read_packets_snoc [OF ps(1) r [unfolded Inr]]
    show ?thesis
    proof (cases "drops \<and> up_data p = []")
      case True
      then have "packet_step drops rd wr x c = c\<lparr>pc_rd := r\<rparr>" "kept drops (ps @ [p]) = kept drops ps"
        using r Inr by (simp_all add: packet_step_def kept_def)
      with ps read assms(2) show ?thesis unfolding copied_def
        by (intro exI [of _ "ps @ [p]"] exI [of _ xs] exI [of _ r] exI [of _ "pc_wr c"]) simp
    next
      case False
      then have k: "kept drops [p] = [p]" by (auto simp: kept_def)
      obtain w ok where w: "wr x p (pc_wr c) = (w, ok)" by fastforce
      show ?thesis
      proof (cases ok)
        case (Inl e)
        with r Inr w False have "packet_step drops rd wr x c = c\<lparr>pc_rd := r, pc_wr := w, pc_end := Some (end_of_fault e)\<rparr>"
          by (auto simp: packet_step_def)
        with ps r Inr w Inl k show ?thesis unfolding copied_def
          by (intro exI [of _ ps] exI [of _ xs] exI [of _ "pc_rd c"] exI [of _ "pc_wr c"])
            (auto simp: failed_next_def)
      next
        case (Inr u)
        with r \<open>res = Inr p\<close> w False have "packet_step drops rd wr x c =
            c\<lparr>pc_rd := r, pc_wr := w, pc_obs := pc_obs c @ [length (up_data p)]\<rparr>"
          by (auto simp: packet_step_def)
        moreover have "write_packets wr (zip xs (kept drops ps) @ [(x, p)]) w0 = (w, Inr ())"
          using write_packets_snoc [OF ps(3)] w Inr by simp
        then have "write_packets wr (zip (xs @ [x]) (kept drops (ps @ [p]))) w0 = (w, Inr ())"
          using ps(2) k by (simp add: kept_snoc)
        ultimately show ?thesis using ps read assms(2) k unfolding copied_def
          by (intro exI [of _ "ps @ [p]"] exI [of _ "xs @ [x]"] exI [of _ r] exI [of _ w])
            (simp add: kept_snoc)
      qed
    qed
  qed
qed

section \<open>All tasks of a relay\<close>

lemma packet_step_end:
  "pc_end (packet_step drops rd wr x c) \<in> {pc_end c, Some Failed, Some Panicked}"
  by (auto simp: packet_step_def end_of_fault_def split: prod.splits sum.splits fault.splits)

text \<open>The token is cancelled exactly when a task failed, and only then tasks are interrupted.\<close>

definition raw_inv ::
    "('r, udp_packet) op \<Rightarrow> ('x, 'uw) packet_writer \<Rightarrow> ('ur, udp_packet) op \<Rightarrow> ('y, 'w) packet_writer
       \<Rightarrow> 'r \<Rightarrow> 'uw \<Rightarrow> 'ur \<Rightarrow> 'w \<Rightarrow> ('r, 'uw, 'ur, 'w) raw_relay \<Rightarrow> bool" where
  "raw_inv rd uwr urd wr r uw ur w s \<longleftrightarrow>
     copied True rd uwr r uw (rr_in s) \<and> copied False urd wr ur w (rr_out s)
   \<and> (rr_cancel s \<longleftrightarrow> pc_end (rr_in s) = Some Failed \<or> pc_end (rr_out s) = Some Failed)"

lemma raw_step_inv:
  assumes "raw_step rd uwr urd wr s s'" and "raw_inv rd uwr urd wr r uw ur w s"
  shows "raw_inv rd uwr urd wr r uw ur w s'"
  using assms(1)
proof cases
  case (raw_in c x)
  then show ?thesis
    using assms(2) copied_step [of True rd uwr r uw "rr_in s" x] packet_step_end [of True rd uwr x "rr_in s"]
    by (auto simp: raw_inv_def cancelled_by_def cancels_def)
next
  case (raw_out c y)
  then show ?thesis
    using assms(2) copied_step [of False urd wr ur w "rr_out s" y] packet_step_end [of False urd wr y "rr_out s"]
    by (auto simp: raw_inv_def cancelled_by_def cancels_def)
next
  case raw_in_cancel
  then show ?thesis using assms(2) copied_cancel [of True rd uwr r uw "rr_in s"] by (auto simp: raw_inv_def)
next
  case raw_out_cancel
  then show ?thesis using assms(2) copied_cancel [of False urd wr ur w "rr_out s"] by (auto simp: raw_inv_def)
qed

lemma raw_reach_inv:
  "raw_reach rd uwr urd wr s0 s \<Longrightarrow> raw_inv rd uwr urd wr r uw ur w s0 \<Longrightarrow> raw_inv rd uwr urd wr r uw ur w s"
  by (induction rule: raw_reach.induct) (auto intro: raw_step_inv)

lemma written_first:
  "(case m of (w', Inl e) \<Rightarrow> Inl e | (w', Inr (_ :: unit)) \<Rightarrow> Inr (f w')) = Inr s \<longleftrightarrow>
     (\<exists>w'. m = (w', Inr ()) \<and> s = f w')"
  by (auto split: prod.splits sum.splits)

lemma raw_udp_start_ok:
  assumes "raw_udp_start create udp_tunnel route cfg rd uwr x r w st = (st', Inr s0)"
  shows "\<exists>first r1 c uw uw1 ur. rd r = (r1, Inr first)
    \<and> udp_tunnel c (host_port (um_src_addr (up_meta first)) (um_src_port (up_meta first))) = Inr (Some (ur, uw))
    \<and> uwr x first uw = (uw1, Inr ())
    \<and> s0 = \<lparr>rr_in = packet_copier_new r1 uw1, rr_out = packet_copier_new ur w, rr_cancel = False\<rparr>"
  using assms
  by (auto simp: raw_udp_start_def Let_def io_bind_eq_Inr written_first
      split: prod.splits sum.splits option.splits) (auto simp: written_first)

definition assoc_inv ::
    "('x, 'uw) packet_writer \<Rightarrow> ('ur, udp_packet) op \<Rightarrow> (fault + (bytes \<times> socket_addr)) list \<Rightarrow> 'uw \<Rightarrow> 'ur
       \<Rightarrow> ('s, 'uw, 'ur) assoc \<Rightarrow> bool" where
  "assoc_inv uwr urd rx uw ur s \<longleftrightarrow>
     copied True assoc_recv uwr rx uw (ac_in s) \<and> copied False urd assoc_reply ur [] (ac_out s)
   \<and> (ac_cancel s \<longleftrightarrow> ac_watch s \<in> {Some Eof, Some Failed}
        \<or> pc_end (ac_in s) = Some Failed \<or> pc_end (ac_out s) = Some Failed)"

lemma watch_step_end: "watch_step rd s = (t, e) \<Longrightarrow> e \<in> {None, Some Eof, Some Failed, Some Panicked}"
  by (auto simp: watch_step_def end_of_fault_def split: prod.splits sum.splits fault.splits if_splits)

lemma assoc_step_inv:
  assumes "assoc_step srd uwr urd s s'" and "assoc_inv uwr urd rx uw ur s"
  shows "assoc_inv uwr urd rx uw ur s'"
  using assms(1)
proof cases
  case (assoc_watch t e)
  with watch_step_end [OF assoc_watch(4)] assms(2) show ?thesis
    by (auto simp: assoc_inv_def cancelled_by_def cancels_def)
next
  case (assoc_in c x)
  then show ?thesis
    using assms(2) copied_step [of True assoc_recv uwr rx uw "ac_in s" x]
      packet_step_end [of True assoc_recv uwr x "ac_in s"]
    by (auto simp: assoc_inv_def cancelled_by_def cancels_def)
next
  case (assoc_out c send_to)
  then show ?thesis
    using assms(2) copied_step [of False urd assoc_reply ur "[]" "ac_out s" send_to]
      packet_step_end [of False urd assoc_reply send_to "ac_out s"]
    by (auto simp: assoc_inv_def cancelled_by_def cancels_def)
next
  case assoc_watch_cancel
  then show ?thesis using assms(2) by (auto simp: assoc_inv_def)
next
  case assoc_in_cancel
  then show ?thesis using assms(2) copied_cancel [of True assoc_recv uwr rx uw "ac_in s"]
    by (auto simp: assoc_inv_def)
next
  case assoc_out_cancel
  then show ?thesis using assms(2) copied_cancel [of False urd assoc_reply ur "[]" "ac_out s"]
    by (auto simp: assoc_inv_def)
qed

lemma assoc_reach_inv:
  "assoc_reach srd uwr urd s0 s \<Longrightarrow> assoc_inv uwr urd rx uw ur s0 \<Longrightarrow> assoc_inv uwr urd rx uw ur s"
  by (induction rule: assoc_reach.induct) (auto intro: assoc_step_inv)

text \<open>The tasks that run.  A cancelled association has no other steps than those that end them.\<close>

definition assoc_open :: "('s, 'uw, 'ur) assoc \<Rightarrow> nat" where
  "assoc_open s = (if ac_watch s = None then 1 else 0) + (if pc_end (ac_in s) = None then 1 else 0)
     + (if pc_end (ac_out s) = None then 1 else 0)"

lemma assoc_cancelled_step:
  assumes "assoc_step srd uwr urd s s'" and "ac_cancel s"
  shows "ac_cancel s' \<and> Suc (assoc_open s') = assoc_open s"
  using assms(1) by cases (use assms(2) in \<open>simp_all add: assoc_open_def\<close>)

lemma assoc_cancelled_steps:
  assumes "(assoc_step srd uwr urd ^^ n) s s'" and "ac_cancel s"
  shows "ac_cancel s' \<and> n + assoc_open s' = assoc_open s"
  using assms
proof (induction n arbitrary: s')
  case 0
  then show ?case by simp
next
  case (Suc n)
  then obtain t where "(assoc_step srd uwr urd ^^ n) s t" "assoc_step srd uwr urd t s'" by auto
  with Suc assoc_cancelled_step [of srd uwr urd t s'] show ?case by fastforce
qed

lemma assoc_cancelled_next:
  assumes "ac_cancel s" and "0 < assoc_open s"
  shows "\<exists>s'. assoc_step srd uwr urd s s'"
  using assms assoc_watch_cancel [of s srd uwr urd] assoc_in_cancel [of s srd uwr urd]
    assoc_out_cancel [of s srd uwr urd]
  by (auto simp: assoc_open_def split: if_splits)

lemma unwrap_eq_Inr: "unwrap x = Inr a \<longleftrightarrow> x = Some a"
  by (cases x) simp_all

lemma assoc_start_ok:
  assumes "assoc_start create udp_tunnel route cfg post_handshake bound uwr x s q = (q', Running s0)"
  shows "\<exists>port s1 datagram src rx first c ur uw uw1.
      bound = Inr (port, Inr (datagram, src) # rx) \<and> post_handshake False port s = (s1, Inr ())
    \<and> udp_parse (take udp_buf_len datagram) src = Inr first \<and> up_data first \<noteq> []
    \<and> udp_tunnel c (host_port (um_src_addr (up_meta first)) (um_src_port (up_meta first))) = Inr (Some (ur, uw))
    \<and> uwr x first uw = (uw1, Inr ())
    \<and> s0 = \<lparr>ac_stream = s1, ac_watch = None, ac_in = packet_copier_new rx uw1,
           ac_out = packet_copier_new ur [], ac_cancel = False\<rparr>"
  using assms
  by (auto simp: assoc_start_def assoc_first_def Let_def io_bind_eq_Inr unwrap_eq_Inr
      split: prod.splits sum.splits list.splits if_splits)

text \<open>A well-formed datagram without payload is an error to the parser, not the empty packet the loop
  means to skip, so it ends the association.\<close>

lemma empty_datagram_ends_association:
  assumes "udp_addr_wf a_typ a" and "pc_rd c = Inr (udp_datagram 0 a_typ a port [], src) # rx"
  shows "pc_end (packet_step True assoc_recv uwr x c) = Some Failed"
proof -
  let ?d = "udp_datagram 0 a_typ a port []"
  have "length ?d \<le> udp_buf_len"
    using assms(1) by (auto simp: udp_datagram_def udp_addr_wf_def udp_addr_field_def udp_buf_len_def)
  with assms(2) udp_parse_datagram [OF assms(1), of port "[]" src] show ?thesis
    by (simp add: packet_step_def assoc_recv_def end_of_fault_def)
qed

text \<open>Packets in a list, and a client's packets.\<close>

definition demo_read :: "(udp_packet list, udp_packet) op" where
  "demo_read ps = (case ps of [] \<Rightarrow> ([], Inl (IoError Other ''end'')) | p # r \<Rightarrow> (r, Inr p))"

definition demo_packet_write :: "(unit, udp_packet list) packet_writer" where
  "demo_packet_write _ p ps = (ps @ [p], Inr ())"

definition demo_pkt :: "u8 \<Rightarrow> udp_packet" where
  "demo_pkt b = \<lparr>up_meta = \<lparr>um_dst_addr = ''10.0.0.1'', um_dst_port = 53, um_src_addr = ''127.0.0.1'', um_src_port = 4000\<rparr>,
     up_data = [b]\<rparr>"

definition demo_src :: socket_addr where
  "demo_src = \<lparr>sa_ip = V4 127 0 0 1, sa_port = 4000\<rparr>"

definition demo_datagram :: "u8 \<Rightarrow> bytes" where
  "demo_datagram b = [0, 0, 0, 1, 10, 0, 0, 1, 0, 53, b]"

lemma demo_parse: "udp_parse (take udp_buf_len (demo_datagram b)) demo_src = Inr (demo_pkt b)"
proof -
  have "demo_datagram b = udp_datagram 0 1 [10, 0, 0, 1] 53 [b]"
  proof -
    have "be16 53 = [0, 53]" by code_simp
    then show ?thesis by (simp add: demo_datagram_def udp_datagram_def udp_addr_field_def)
  qed
  moreover have "take udp_buf_len (demo_datagram b) = demo_datagram b"
    by (simp add: demo_datagram_def udp_buf_len_def)
  moreover have "udp_addr_wf 1 [10, 0, 0, 1]" "addr_string 1 [10, 0, 0, 1] = Inr ''10.0.0.1''"
    "show_ip (sa_ip demo_src) = ''127.0.0.1''"
    by code_simp+
  ultimately show ?thesis by (simp add: udp_parse_datagram demo_pkt_def) (simp add: demo_src_def)
qed

section \<open>Properties\<close>

text \<open>C35: The raw UDP relay, from its first packet on and in every interleaving of its two loops: the first packet
  is written to the tunnel that was opened for its source, then every later packet that is not
  empty, each once, unchanged and in the order read; in the other direction every packet.  A
  loop that failed did so at the packet right after these, and the loops are interrupted exactly
  when one of them failed.\<close>

theorem raw_udp_relays:
  assumes "raw_udp_start create udp_tunnel route cfg rd uwr x r w st = (st', Inr s0)"
    and "raw_reach rd uwr urd wr s0 s"
  shows "\<exists>first r1 c uw uw1 ur. rd r = (r1, Inr first)
    \<and> udp_tunnel c (host_port (um_src_addr (up_meta first)) (um_src_port (up_meta first))) = Inr (Some (ur, uw))
    \<and> uwr x first uw = (uw1, Inr ())
    \<and> copied True rd uwr r1 uw1 (rr_in s) \<and> copied False urd wr ur w (rr_out s)
    \<and> (rr_cancel s \<longleftrightarrow> pc_end (rr_in s) = Some Failed \<or> pc_end (rr_out s) = Some Failed)"
proof -
  from raw_udp_start_ok [OF assms(1)] obtain first r1 c uw uw1 ur
    where f: "rd r = (r1, Inr first)"
      "udp_tunnel c (host_port (um_src_addr (up_meta first)) (um_src_port (up_meta first))) = Inr (Some (ur, uw))"
      "uwr x first uw = (uw1, Inr ())"
      "s0 = \<lparr>rr_in = packet_copier_new r1 uw1, rr_out = packet_copier_new ur w, rr_cancel = False\<rparr>"
    by blast
  have "raw_inv rd uwr urd wr r1 uw1 ur w s0"
    by (simp add: raw_inv_def f(4) copied_new) (simp add: packet_copier_new_def)
  from raw_reach_inv [OF assms(2) this] f(1-3) show ?thesis unfolding raw_inv_def by blast
qed

lemma raw_udp_relays_witness:
  "\<exists>s0 s. raw_udp_start (\<lambda>_. Inr ()) (\<lambda>_ _. Inr (Some ([], []))) demo_route demo_object demo_read demo_packet_write ()
        [demo_pkt 1, demo_pkt 2] [] (Map.empty, ()) = (([''out'' \<mapsto> ()], ()), Inr s0)
     \<and> raw_reach demo_read demo_packet_write demo_read demo_packet_write s0 s
     \<and> pc_wr (rr_in s) = [demo_pkt 1, demo_pkt 2]
     \<and> copied True demo_read demo_packet_write [demo_pkt 2] [demo_pkt 1] (rr_in s)"
proof -
  let ?a = "\<lparr>rr_in = packet_copier_new [demo_pkt 2] [demo_pkt 1],
    rr_out = packet_copier_new ([] :: udp_packet list) ([] :: udp_packet list), rr_cancel = False\<rparr>"
  have st: "raw_udp_start (\<lambda>_. Inr ()) (\<lambda>_ _. Inr (Some ([], []))) demo_route demo_object demo_read demo_packet_write ()
      [demo_pkt 1, demo_pkt 2] [] (Map.empty, ()) = (([''out'' \<mapsto> ()], ()), Inr ?a)"
    by (simp add: raw_udp_start_def demo_read_def demo_route_def demo_object_def cached_connector_def demo_packet_write_def)
  let ?c = "packet_step True demo_read demo_packet_write () (rr_in ?a)"
  let ?s = "?a\<lparr>rr_in := ?c, rr_cancel := cancelled_by (rr_cancel ?a) (pc_end ?c)\<rparr>"
  have "raw_step demo_read demo_packet_write demo_read demo_packet_write ?a ?s"
    by (rule raw_in [where x = "()"]) (simp_all add: packet_copier_new_def)
  from raw_trans [OF raw_refl this]
  have r: "raw_reach demo_read demo_packet_write demo_read demo_packet_write ?a ?s" .
  have "pc_wr (rr_in ?s) = [demo_pkt 1, demo_pkt 2]"
    by (simp add: packet_step_def demo_read_def demo_packet_write_def packet_copier_new_def demo_pkt_def)
  moreover have "copied True demo_read demo_packet_write [demo_pkt 2] [demo_pkt 1] (rr_in ?s)"
  proof -
    from raw_udp_relays [OF st r] obtain first r1 uw uw1 c ur
      where "demo_read [demo_pkt 1, demo_pkt 2] = (r1, Inr first)"
        "(\<lambda>_ _. Inr (Some ([], []))) c (host_port (um_src_addr (up_meta first)) (um_src_port (up_meta first))) =
          (Inr (Some (ur, uw)) :: (udp_packet list \<times> udp_packet list) option io)"
        "demo_packet_write () first uw = (uw1, Inr ())"
        "copied True demo_read demo_packet_write r1 uw1 (rr_in ?s)"
      by blast
    then show ?thesis by (auto simp: demo_packet_write_def demo_read_def)
  qed
  ultimately show ?thesis using st r by blast
qed

text \<open>C36: A SOCKS5 UDP association that reached its loops has confirmed the port it listens on and has
  written the first packet, which was not empty, to the tunnel; from then on, in every
  interleaving, the tunnel gets the parsed packets of the client that are not empty and the
  client's socket the replies of the tunnel, each once and in order, and the tasks are
  interrupted exactly when the TCP stream ended or failed or one of the loops failed.\<close>

theorem udp_association_relays:
  assumes "assoc_start create udp_tunnel route cfg post_handshake bound uwr x s q = (q', Running s0)"
    and "assoc_reach srd uwr urd s0 t"
  shows "\<exists>port s1 datagram src rx first c ur uw uw1.
      bound = Inr (port, Inr (datagram, src) # rx) \<and> post_handshake False port s = (s1, Inr ())
    \<and> udp_parse (take udp_buf_len datagram) src = Inr first \<and> up_data first \<noteq> []
    \<and> udp_tunnel c (host_port (um_src_addr (up_meta first)) (um_src_port (up_meta first))) = Inr (Some (ur, uw))
    \<and> uwr x first uw = (uw1, Inr ())
    \<and> copied True assoc_recv uwr rx uw1 (ac_in t) \<and> copied False urd assoc_reply ur [] (ac_out t)
    \<and> (ac_cancel t \<longleftrightarrow> ac_watch t \<in> {Some Eof, Some Failed}
        \<or> pc_end (ac_in t) = Some Failed \<or> pc_end (ac_out t) = Some Failed)"
proof -
  from assoc_start_ok [OF assms(1)] obtain port s1 datagram src rx first c ur uw uw1
    where f: "bound = Inr (port, Inr (datagram, src) # rx)" "post_handshake False port s = (s1, Inr ())"
      "udp_parse (take udp_buf_len datagram) src = Inr first" "up_data first \<noteq> []"
      "udp_tunnel c (host_port (um_src_addr (up_meta first)) (um_src_port (up_meta first))) = Inr (Some (ur, uw))"
      "uwr x first uw = (uw1, Inr ())"
      "s0 = \<lparr>ac_stream = s1, ac_watch = None, ac_in = packet_copier_new rx uw1,
           ac_out = packet_copier_new ur [], ac_cancel = False\<rparr>"
    by blast
  have "assoc_inv uwr urd rx uw1 ur s0"
    by (simp add: assoc_inv_def f(7) copied_new) (simp add: packet_copier_new_def)
  from assoc_reach_inv [OF assms(2) this] f(1-6) show ?thesis unfolding assoc_inv_def by blast
qed

lemma udp_association_relays_witness:
  "\<exists>s0 t. assoc_start (\<lambda>_. Inr ()) (\<lambda>_ _. Inr (Some ([], []))) demo_route demo_object socks_post_handshake
        (Inr (5000, [Inr (demo_datagram 1, demo_src), Inr (demo_datagram 2, demo_src)])) demo_packet_write ()
        (tcp_run_stream_new []) () = ((), Running s0)
     \<and> assoc_reach tcp_read demo_packet_write demo_read s0 t
     \<and> pc_wr (ac_in t) = [demo_pkt 1, demo_pkt 2]
     \<and> copied True assoc_recv demo_packet_write [Inr (demo_datagram 2, demo_src)] [demo_pkt 1] (ac_in t)"
proof -
  let ?tcp = "(tcp_run_stream_new [])\<lparr>ts_tx := confirm_to_bytes (confirm_new False 5000)\<rparr>"
  let ?a = "\<lparr>ac_stream = ?tcp, ac_watch = None,
    ac_in = packet_copier_new [Inr (demo_datagram 2, demo_src)] [demo_pkt 1],
    ac_out = packet_copier_new ([] :: udp_packet list) [], ac_cancel = False\<rparr>"
  have st: "assoc_start (\<lambda>_. Inr ()) (\<lambda>_ _. Inr (Some ([], []))) demo_route demo_object socks_post_handshake
      (Inr (5000, [Inr (demo_datagram 1, demo_src), Inr (demo_datagram 2, demo_src)])) demo_packet_write ()
      (tcp_run_stream_new []) () = ((), Running ?a)"
    by (simp add: assoc_start_def assoc_first_def socks_post_handshake_def tcp_write_def tcp_run_stream_new_def
        demo_parse demo_route_def demo_object_def demo_packet_write_def)
      (simp add: demo_pkt_def)
  let ?c = "packet_step True assoc_recv demo_packet_write () (ac_in ?a)"
  let ?t = "?a\<lparr>ac_in := ?c, ac_cancel := cancelled_by (ac_cancel ?a) (pc_end ?c)\<rparr>"
  have "assoc_step tcp_read demo_packet_write demo_read ?a ?t"
    by (rule assoc_in [where x = "()"]) (simp_all add: packet_copier_new_def)
  from assoc_trans [OF assoc_refl this]
  have r: "assoc_reach tcp_read demo_packet_write demo_read ?a ?t" .
  have "pc_wr (ac_in ?t) = [demo_pkt 1, demo_pkt 2]"
    by (simp add: packet_step_def assoc_recv_def demo_packet_write_def packet_copier_new_def demo_parse)
      (simp add: demo_pkt_def)
  moreover have "copied True assoc_recv demo_packet_write [Inr (demo_datagram 2, demo_src)] [demo_pkt 1] (ac_in ?t)"
  proof -
    from udp_association_relays [OF st r] obtain port datagram src rx first uw uw1 c ur
      where "(Inr (5000, [Inr (demo_datagram 1, demo_src), Inr (demo_datagram 2, demo_src)])
          :: (u16 \<times> (fault + (bytes \<times> socket_addr)) list) io) = Inr (port, Inr (datagram, src) # rx)"
        "udp_parse (take udp_buf_len datagram) src = Inr first"
        "(\<lambda>_ _. Inr (Some ([], []))) c (host_port (um_src_addr (up_meta first)) (um_src_port (up_meta first))) =
          (Inr (Some (ur, uw)) :: (udp_packet list \<times> udp_packet list) option io)"
        "demo_packet_write () first uw = (uw1, Inr ())"
        "copied True assoc_recv demo_packet_write rx uw1 (ac_in ?t)"
      by blast
    then show ?thesis by (auto simp: demo_packet_write_def demo_parse)
  qed
  ultimately show ?thesis using st r by blast
qed



end
