(* ===== verification/Program.thy ===== *)
theory Program
  imports Packet_Relay Relay "HOL-Library.Sublist"
begin

text \<open>
  \<open>src/main.rs\<close> and the loop of \<open>src/object.rs\<close>: what the program starts from its configuration file, and
  the steps of the objects it runs, one for each listener.  Also \<open>src/util/grpc_transport.rs\<close>, how
  the gRPC clients dial.

  The TOML parser, the environment, files and the uuid library are arguments.  The observation
  registry, its HTTP interface and the log are not modelled.
\<close>

section \<open>Dialling without a proxy\<close>

record uri_parts =
  up_scheme :: "string option"
  up_host :: "string option"
  up_port :: "u16 option"

definition default_port :: "uri_parts \<Rightarrow> u16" where
  "default_port uri = (if up_scheme uri = Some ''https'' then 443 else 80)"

definition connect_channel ::
    "(string \<times> u16 \<Rightarrow> 's io) \<Rightarrow> ('s \<Rightarrow> bool \<Rightarrow> 's io) \<Rightarrow> bool \<Rightarrow> uri_parts \<Rightarrow> 's io" where
  "connect_channel connect set_nodelay tcp_nodelay uri =
     (case up_host uri of
        None \<Rightarrow> Inl (IoError InvalidInput ''grpc endpoint missing host'')
      | Some host \<Rightarrow>
          let port = (case up_port uri of Some p \<Rightarrow> p | None \<Rightarrow> default_port uri)
          in io_bind (connect (host, port)) (\<lambda>stream. set_nodelay stream tcp_nodelay))"

section \<open>The start of the program\<close>

definition config_path :: "(string \<rightharpoonup> string) \<Rightarrow> string" where
  "config_path env = (case env ''ROG_CONFIG'' of None \<Rightarrow> ''/etc/rog/config.toml'' | Some p \<Rightarrow> p)"

definition load_config ::
    "(string \<rightharpoonup> string) \<Rightarrow> (string \<Rightarrow> string io) \<Rightarrow> (string \<Rightarrow> string + 'v config) \<Rightarrow> 'v config io" where
  "load_config env read_to_string from_str =
     io_bind (read_to_string (config_path env)) (\<lambda>contents.
       case from_str contents of
         Inl message \<Rightarrow> Inl (IoError Other (''invalid config file: '' @ message))
       | Inr cfg \<Rightarrow> Inr cfg)"

text \<open>The server of the reverse tunnel: the passwords, the shared state and the keep-alive setting.
  An endpoint that is no address ends its own task only.\<close>

record reverse_started =
  rg_endpoint :: string
  rg_pw_map :: "string \<rightharpoonup> string option"
  rg_state :: rev_state
  rg_keep_alive :: bool

definition start_reverse_server ::
    "('v \<Rightarrow> bool option) \<Rightarrow> string \<Rightarrow> (string \<rightharpoonup> string option) \<Rightarrow> (string \<rightharpoonup> 'v) option \<Rightarrow> reverse_started" where
  "start_reverse_server as_bool ep pw_map options =
     \<lparr>rg_endpoint = ep, rg_pw_map = pw_map, rg_state = rev_state_new,
      rg_keep_alive = get_option_bool as_bool options ''keep_alive''\<rparr>"

text \<open>The task of an object: the name it was spawned for, what \<open>ObjectConfig::build\<close> and
  \<open>listener::create\<close> gave, its connector cache, how many connections it spawned tasks for, and the
  error or panic it ended with.\<close>

record ('v, 'k, 'c) object_task =
  ob_name :: string
  ob_config :: "'v object_config option"
  ob_acceptor :: "'k acceptor option"
  ob_cache :: "'c connector_cache"
  ob_spawned :: nat
  ob_end :: "fault option"

definition object_new :: "string \<Rightarrow> ('v, 'k, 'c) object_task" where
  "object_new name =
     \<lparr>ob_name = name, ob_config = None, ob_acceptor = None, ob_cache = Map.empty, ob_spawned = 0, ob_end = None\<rparr>"

record ('v, 'nt, 'n, 'm, 'r, 'k, 'c) started =
  sd_config :: "'v config"
  sd_server_id :: string
  sd_blocks :: "'nt block_manager option"
  sd_router :: "('n, 'm, 'r) default_router"
  sd_resolver :: resolver
  sd_reverse :: "reverse_started option"
  sd_objects :: "('v, 'k, 'c) object_task list"

definition program_start ::
    "'f float_ops \<Rightarrow> memory_files \<Rightarrow> 'nt notify_ops \<Rightarrow> ('n, 'm, 'r) net_lib \<Rightarrow> data_world \<Rightarrow> ('v \<Rightarrow> bool option)
       \<Rightarrow> string \<Rightarrow> 'v config io \<Rightarrow> ('v, 'nt, 'n, 'm, 'r, 'k, 'c) started io" where
  "program_start fl mf nops lib w as_bool uuid loaded =
     io_bind loaded (\<lambda>cfg.
     io_bind (buffer_blocks fl mf (cg_buffer_size cfg)) (\<lambda>block_number.
       Inr \<lparr>sd_config = cfg,
            sd_server_id = (case cg_server_id cfg of Some i \<Rightarrow> i | None \<Rightarrow> uuid),
            sd_blocks = (case block_number of None \<Rightarrow> None | Some n \<Rightarrow> Some (bm_new nops n)),
            sd_router = default_router_new lib w (cg_router cfg)
              (case cg_data cfg of Some ds \<Rightarrow> ds | None \<Rightarrow> []),
            sd_resolver = resolver_new,
            sd_reverse = (case cg_reverse_server cfg of
                None \<Rightarrow> None
              | Some s \<Rightarrow> Some (start_reverse_server as_bool (rv_endpoint s)
                  (rev_pw_map (cg_connector cfg)) (rv_options s))),
            sd_objects = map (\<lambda>l. object_new (lc_name l)) (cg_listener cfg)\<rparr>))"

section \<open>The objects\<close>

text \<open>The task of one accepted connection, up to its relay: a TCP stream is dispatched, a UDP socket (its
  reader and writer) goes to the raw relay; both use the connector cache of the object.\<close>

datatype ('s, 't, 'u) conn_result = TcpConn 's "'t dispatched" | UdpConn "'u io"

text \<open>The branch of an association that a tunnel's listener accepted.\<close>

definition object_udp_conn ::
    "('v connector_cfg \<Rightarrow> 'c io) \<Rightarrow> ('c \<Rightarrow> string \<Rightarrow> ('ur \<times> 'uw) option io) \<Rightarrow> 'q route_op \<Rightarrow> 'v object_config
       \<Rightarrow> ('r, udp_packet) op \<Rightarrow> ('x, 'uw) packet_writer \<Rightarrow> 'x \<Rightarrow> 'r \<times> 'w \<Rightarrow> 'c connector_cache \<times> 'q
       \<Rightarrow> ('c connector_cache \<times> 'q) \<times> ('s, 't, ('r, 'uw, 'ur, 'w) raw_relay) conn_result" where
  "object_udp_conn create udp_tunnel route cfg rd uwr x u st =
     (case u of (r, w) \<Rightarrow>
        (case raw_udp_start create udp_tunnel route cfg rd uwr x r w st of (st, res) \<Rightarrow> (st, UdpConn res)))"

definition object_conn ::
    "('s, 'c, 't, 'v) object_ops \<Rightarrow> ('c \<Rightarrow> string \<Rightarrow> ('ur \<times> 'uw) option io) \<Rightarrow> 'q route_op \<Rightarrow> 'v object_config
       \<Rightarrow> ('r, udp_packet) op \<Rightarrow> ('x, 'uw) packet_writer \<Rightarrow> 'x \<Rightarrow> ('s, 'r \<times> 'w) acc_stream \<Rightarrow> 'c connector_cache \<times> 'q
       \<Rightarrow> ('c connector_cache \<times> 'q) \<times> ('s, 't, ('r, 'uw, 'ur, 'w) raw_relay) conn_result" where
  "object_conn ops udp_tunnel route cfg rd uwr x acc_stream st =
     (case acc_stream of
        TCPStream tcp_stream \<Rightarrow>
          (case object_dispatch ops route cfg tcp_stream st of (st, s, d) \<Rightarrow> (st, TcpConn s d))
      | UDPSocket u \<Rightarrow> object_udp_conn (oo_create ops) udp_tunnel route cfg rd uwr x u st)"

text \<open>The connections of an object one after the other.\<close>

fun object_conns ::
    "('s, 'c, 't, 'v) object_ops \<Rightarrow> ('c \<Rightarrow> string \<Rightarrow> ('ur \<times> 'uw) option io) \<Rightarrow> 'q route_op \<Rightarrow> 'v object_config
       \<Rightarrow> ('r, udp_packet) op \<Rightarrow> ('x, 'uw) packet_writer \<Rightarrow> ('x \<times> ('s, 'r \<times> 'w) acc_stream) list
       \<Rightarrow> 'c connector_cache \<times> 'q
       \<Rightarrow> ('c connector_cache \<times> 'q) \<times> ('s, 't, ('r, 'uw, 'ur, 'w) raw_relay) conn_result list" where
  "object_conns ops udp_tunnel route cfg rd uwr [] st = (st, [])"
| "object_conns ops udp_tunnel route cfg rd uwr ((x, a) # as) st =
     (case object_conn ops udp_tunnel route cfg rd uwr x a st of
        (st, r) \<Rightarrow> (case object_conns ops udp_tunnel route cfg rd uwr as st of (st, rs) \<Rightarrow> (st, r # rs)))"

lemma cached_step:
  assumes "cached_connector create name conf cache = (cache', r)" and "oc_connector cfg name = Some conf"
    and "cache_reach makes cfg cache" and "\<forall>conf c. create conf = Inr c \<longrightarrow> makes conf c"
  shows "cache_reach makes cfg cache' \<and> cache \<subseteq>\<^sub>m cache'"
  using cache_lookup [OF assms(3,2) _ assms(1)] cached_connector_mono [OF assms(1)] assms(4) by blast

lemma object_conn_cache:
  assumes "object_conn ops udp_tunnel route cfg rd uwr x a (cache, q) = ((cache', q'), r)"
    and "cache_reach makes cfg cache" and "\<forall>conf c. oo_create ops conf = Inr c \<longrightarrow> makes conf c"
  shows "cache_reach makes cfg cache' \<and> cache \<subseteq>\<^sub>m cache'"
proof (cases a)
  case (TCPStream s)
  with assms show ?thesis
    by (auto simp: object_conn_def object_dispatch_def Let_def split: prod.splits sum.splits if_splits option.splits
        dest: cached_step)
next
  case (UDPSocket u)
  with assms show ?thesis
    by (cases u) (auto simp: object_conn_def object_udp_conn_def raw_udp_start_def Let_def split: prod.splits sum.splits option.splits
        dest: cached_step)
qed

lemma object_conns_cache:
  assumes "object_conns ops udp_tunnel route cfg rd uwr as (cache, q) = ((cache', q'), rs)"
    and "cache_reach makes cfg cache" and "\<forall>conf c. oo_create ops conf = Inr c \<longrightarrow> makes conf c"
  shows "cache_reach makes cfg cache' \<and> cache \<subseteq>\<^sub>m cache' \<and> length rs = length as"
  using assms(1,2)
proof (induction as arbitrary: cache q rs)
  case Nil
  then show ?case by simp
next
  case (Cons a as)
  obtain x acc where a: "a = (x, acc)" by fastforce
  obtain c1 q1 r where c: "object_conn ops udp_tunnel route cfg rd uwr x acc (cache, q) = ((c1, q1), r)"
    by (metis prod.collapse)
  with Cons.prems(1) a obtain rs' where "object_conns ops udp_tunnel route cfg rd uwr as (c1, q1) = ((cache', q'), rs')"
    "rs = r # rs'" by (auto split: prod.splits)
  moreover note object_conn_cache [OF c Cons.prems(2) assms(3)]
  ultimately show ?case using Cons.IH [of c1 q1 rs'] by (auto intro: map_le_trans)
qed

text \<open>\<open>'q\<close> is what routing changes, the cache of the resolver, which all objects share.\<close>

record ('v, 'k, 'c, 'q) program =
  pg_routing :: 'q
  pg_objects :: "('v, 'k, 'c) object_task list"

definition set_object :: "nat \<Rightarrow> ('v, 'k, 'c) object_task \<Rightarrow> ('v, 'k, 'c, 'q) program \<Rightarrow> ('v, 'k, 'c, 'q) program" where
  "set_object i ob p = p\<lparr>pg_objects := (pg_objects p)[i := ob]\<rparr>"

definition object_build :: "'v config \<Rightarrow> string \<Rightarrow> ('v, 'k, 'c) object_task \<Rightarrow> ('v, 'k, 'c) object_task" where
  "object_build cfg server_id ob =
     (case object_config_build (ob_name ob) cfg server_id of
        Inl e \<Rightarrow> ob\<lparr>ob_end := Some e\<rparr>
      | Inr oc \<Rightarrow> ob\<lparr>ob_config := Some oc\<rparr>)"

definition object_listen ::
    "(string \<Rightarrow> tcp_listener io) \<Rightarrow> (string \<Rightarrow> bool) \<Rightarrow> 'v object_config \<Rightarrow> ('v, 'k, 'c) object_task
       \<Rightarrow> ('v, 'k, 'c) object_task" where
  "object_listen bind_tcp endpoint_ok oc ob =
     (case listener_create bind_tcp endpoint_ok oc of
        Inl e \<Rightarrow> ob\<lparr>ob_end := Some e\<rparr>
      | Inr acc \<Rightarrow> ob\<lparr>ob_acceptor := Some acc\<rparr>)"

definition object_accept :: "fault option \<Rightarrow> ('v, 'k, 'c) object_task \<Rightarrow> ('v, 'k, 'c) object_task" where
  "object_accept err ob =
     (case err of
        Some e \<Rightarrow> ob\<lparr>ob_end := Some e\<rparr>
      | None \<Rightarrow> ob\<lparr>ob_spawned := Suc (ob_spawned ob)\<rparr>)"

text \<open>The tasks of the connections of an object share its connector cache and, with those of all other
  objects, the router; each uses them under a lock, at any time after it was spawned.\<close>

inductive program_step ::
    "'v config \<Rightarrow> string \<Rightarrow> 'q route_op \<Rightarrow> ('v, 'k, ('v, 'g) connector, 'q) program
       \<Rightarrow> ('v, 'k, ('v, 'g) connector, 'q) program \<Rightarrow> bool"
  for cfg server_id route where
  step_build: "program_step cfg server_id route p (set_object i (object_build cfg server_id ob) p)"
    if "i < length (pg_objects p)" "ob = pg_objects p ! i" "ob_end ob = None" "ob_config ob = None"
| step_listen: "program_step cfg server_id route p (set_object i (object_listen bind_tcp endpoint_ok oc ob) p)"
    if "i < length (pg_objects p)" "ob = pg_objects p ! i" "ob_end ob = None" "ob_config ob = Some oc"
       "ob_acceptor ob = None"
| step_accept: "program_step cfg server_id route p (set_object i (object_accept err ob) p)"
    if "i < length (pg_objects p)" "ob = pg_objects p ! i" "ob_end ob = None" "ob_acceptor ob = Some acc"
| step_route: "program_step cfg server_id route p (p\<lparr>pg_routing := q\<rparr>)"
    if "i < length (pg_objects p)" "ob = pg_objects p ! i" "ob_config ob = Some oc" "0 < ob_spawned ob"
       "route (lc_name (oc_listener oc)) (lc_router (oc_listener oc)) addr (pg_routing p) = (q, name)"
| step_lookup: "program_step cfg server_id route p (set_object i (ob\<lparr>ob_cache := cache\<rparr>) p)"
    if "i < length (pg_objects p)" "ob = pg_objects p ! i" "ob_config ob = Some oc" "0 < ob_spawned ob"
       "oc_connector oc name = Some conf"
       "cached_connector (connector_create grpc_new) name conf (ob_cache ob) = (cache, r)"

inductive program_reach ::
    "'v config \<Rightarrow> string \<Rightarrow> 'q route_op \<Rightarrow> 'q \<Rightarrow> ('v, 'k, ('v, 'g) connector, 'q) program \<Rightarrow> bool"
  for cfg server_id route q0 where
  program_init: "program_reach cfg server_id route q0
      \<lparr>pg_routing = q0, pg_objects = map (\<lambda>l. object_new (lc_name l)) (cg_listener cfg)\<rparr>"
| program_next: "program_reach cfg server_id route q0 p \<Longrightarrow> program_step cfg server_id route p p' \<Longrightarrow>
     program_reach cfg server_id route q0 p'"

text \<open>\<open>main\<close> returns \<open>Ok\<close> as soon as one object's task has ended; without a listener it waits
  forever.\<close>

definition main_returns :: "('v, 'k, 'c, 'q) program \<Rightarrow> unit io option" where
  "main_returns p =
     (if pg_objects p = [] then None
      else if \<exists>ob \<in> set (pg_objects p). ob_end ob \<noteq> None then Some (Inr ())
      else None)"

section \<open>What the objects hold\<close>

text \<open>A connector is of the protocol of its configuration and carries it.\<close>

fun connector_fits :: "'v connector_cfg \<Rightarrow> ('v, 'g) connector \<Rightarrow> bool" where
  "connector_fits conf TcpConnector \<longleftrightarrow> cc_proto conf = ''tcp''"
| "connector_fits conf (GrpcConnector _ c) \<longleftrightarrow> cc_proto conf = ''grpc'' \<and> c = conf"
| "connector_fits conf (RevGrpcConnector c) \<longleftrightarrow> cc_proto conf = ''rev_grpc'' \<and> c = conf"
| "connector_fits conf (PbTcpConnector c) \<longleftrightarrow> cc_proto conf = ''pb_tcp'' \<and> c = conf \<and> cc_endpoint conf \<noteq> None"
| "connector_fits conf BlockConnector \<longleftrightarrow> cc_proto conf = ''block''"

text \<open>An acceptor is of the protocol of its listener, with its password or the server's id.\<close>

fun acceptor_fits :: "'v object_config \<Rightarrow> 'k acceptor \<Rightarrow> bool" where
  "acceptor_fits oc (OnTcp (SocksAcceptor _)) \<longleftrightarrow> lc_proto (oc_listener oc) = ''socks5''"
| "acceptor_fits oc (OnTcp (HttpAcceptor _ sid)) \<longleftrightarrow>
     lc_proto (oc_listener oc) = ''http'' \<and> sid = oc_server_id oc"
| "acceptor_fits oc (OnTcp (Htss5Acceptor _ sid)) \<longleftrightarrow>
     lc_proto (oc_listener oc) = ''htss5'' \<and> sid = oc_server_id oc"
| "acceptor_fits oc (GrpcAcceptor auth _) \<longleftrightarrow>
     lc_proto (oc_listener oc) = ''grpc'' \<and> lc_pw (oc_listener oc) = Some auth"
| "acceptor_fits oc (RevGrpcAcceptor auth tag _) \<longleftrightarrow>
     lc_proto (oc_listener oc) = ''rev_grpc'' \<and> lc_pw (oc_listener oc) = Some auth \<and> tag = lc_name (oc_listener oc)"
| "acceptor_fits oc (PbTcpAcceptor auth _) \<longleftrightarrow>
     lc_proto (oc_listener oc) = ''pb_tcp'' \<and> lc_pw (oc_listener oc) = Some auth"

lemma connector_create_fits: "connector_create grpc_new conf = Inr c \<Longrightarrow> connector_fits conf c"
  by (auto simp: connector_create_def pb_tcp_connector_new_def io_bind_eq_Inr split: if_splits option.splits)

lemma listener_create_fits: "listener_create bind_tcp endpoint_ok oc = Inr acc \<Longrightarrow> acceptor_fits oc acc"
  by (auto simp: listener_create_def Let_def io_bind_eq_Inr unwrap_eq_Inr grpc_listen_def rev_listen_def
      pb_tcp_listen_def split: if_splits)

definition config_fits :: "'v config \<Rightarrow> string \<Rightarrow> string \<Rightarrow> 'v object_config \<Rightarrow> bool" where
  "config_fits cfg server_id name oc \<longleftrightarrow>
     find_listener name (cg_listener cfg) = Some (oc_listener oc)
   \<and> oc_connector oc = connector_map (cg_connector cfg) \<and> oc_server_id oc = server_id"

definition object_wf :: "'v config \<Rightarrow> string \<Rightarrow> ('v, 'k, ('v, 'g) connector) object_task \<Rightarrow> bool" where
  "object_wf cfg server_id ob \<longleftrightarrow>
     (case ob_config ob of
        None \<Rightarrow> ob_acceptor ob = None \<and> ob_cache ob = Map.empty \<and> ob_spawned ob = 0 \<and> ob_end ob = None
      | Some oc \<Rightarrow> config_fits cfg server_id (ob_name ob) oc
          \<and> (\<forall>acc. ob_acceptor ob = Some acc \<longrightarrow> acceptor_fits oc acc)
          \<and> (ob_acceptor ob = None \<longrightarrow> ob_spawned ob = 0)
          \<and> cache_ok connector_fits oc (ob_cache ob))"

definition program_wf :: "'v config \<Rightarrow> string \<Rightarrow> ('v, 'k, ('v, 'g) connector, 'q) program \<Rightarrow> bool" where
  "program_wf cfg server_id p \<longleftrightarrow>
     map ob_name (pg_objects p) = map lc_name (cg_listener cfg)
   \<and> (\<forall>ob \<in> set (pg_objects p). object_wf cfg server_id ob)"

lemma set_object_wf:
  assumes "program_wf cfg server_id p" and "i < length (pg_objects p)"
    and "ob_name ob = ob_name (pg_objects p ! i)" and "object_wf cfg server_id ob"
  shows "program_wf cfg server_id (set_object i ob p)"
proof -
  have "map ob_name ((pg_objects p)[i := ob]) = map ob_name (pg_objects p)"
    using assms(2,3) by (metis list_update_id map_update nth_map)
  then show ?thesis using assms set_update_subset_insert [of "pg_objects p" i ob]
    by (auto simp: program_wf_def set_object_def)
qed

lemma object_build_wf:
  assumes "object_wf cfg server_id ob" and "ob_config ob = None" and "ob_name ob \<in> lc_name ` set (cg_listener cfg)"
  shows "object_wf cfg server_id (object_build cfg server_id ob)" "ob_name (object_build cfg server_id ob) = ob_name ob"
proof -
  from assms(3) find_listener_None [of "ob_name ob" "cg_listener cfg"]
  obtain l where "find_listener (ob_name ob) (cg_listener cfg) = Some l" by blast
  with assms(1,2) show "object_wf cfg server_id (object_build cfg server_id ob)"
    "ob_name (object_build cfg server_id ob) = ob_name ob"
    by (simp_all add: object_wf_def object_build_def object_config_build_def config_fits_def cache_ok_def)
qed

lemma program_step_wf:
  assumes "program_step cfg server_id route p p'" and "program_wf cfg server_id p"
  shows "program_wf cfg server_id p'"
  using assms(1)
proof cases
  case (step_build i ob)
  have ob: "object_wf cfg server_id ob" using assms(2) step_build by (simp add: program_wf_def)
  have "ob_name ob \<in> set (map ob_name (pg_objects p))" using step_build by simp
  then have "ob_name ob \<in> lc_name ` set (cg_listener cfg)" using assms(2) by (metis program_wf_def list.set_map)
  note b = object_build_wf [OF ob step_build(5) this]
  show ?thesis unfolding step_build(1) by (rule set_object_wf [OF assms(2) step_build(2)]) (use b step_build in simp_all)
next
  case (step_listen i ob oc bind_tcp endpoint_ok)
  then have ob: "object_wf cfg server_id ob" using assms(2) by (simp add: program_wf_def)
  have "object_wf cfg server_id (object_listen bind_tcp endpoint_ok oc ob)"
    using ob step_listen listener_create_fits [of bind_tcp endpoint_ok oc]
    by (auto simp: object_wf_def object_listen_def split: sum.split)
  moreover have "ob_name (object_listen bind_tcp endpoint_ok oc ob) = ob_name ob"
    by (simp add: object_listen_def split: sum.split)
  ultimately show ?thesis unfolding step_listen(1)
    by (intro set_object_wf [OF assms(2) step_listen(2)]) (simp_all add: step_listen(3))
next
  case (step_accept i ob acc err)
  then have ob: "object_wf cfg server_id ob" using assms(2) by (simp add: program_wf_def)
  have "object_wf cfg server_id (object_accept err ob)"
    using ob step_accept by (auto simp: object_wf_def object_accept_def split: option.splits)
  moreover have "ob_name (object_accept err ob) = ob_name ob" by (simp add: object_accept_def split: option.split)
  ultimately show ?thesis unfolding step_accept(1)
    by (intro set_object_wf [OF assms(2) step_accept(2)]) (simp_all add: step_accept(3))
next
  case (step_route i ob oc addr q name)
  then show ?thesis using assms(2) by (simp add: program_wf_def)
next
  case (step_lookup i ob oc name conf grpc_new cache r)
  then have ob: "object_wf cfg server_id ob" using assms(2) by (simp add: program_wf_def)
  then have "cache_ok connector_fits oc (ob_cache ob)" using step_lookup(4) by (simp add: object_wf_def)
  from cached_connector_ok(1) [OF this step_lookup(6) connector_create_fits step_lookup(7)]
  have "object_wf cfg server_id (ob\<lparr>ob_cache := cache\<rparr>)" using ob step_lookup(4) by (simp add: object_wf_def)
  then show ?thesis unfolding step_lookup(1)
    by (intro set_object_wf [OF assms(2) step_lookup(2)]) (simp_all add: step_lookup(3))
qed

lemma program_reach_wf: "program_reach cfg server_id route q0 p \<Longrightarrow> program_wf cfg server_id p"
proof (induction rule: program_reach.induct)
  case program_init
  show ?case by (auto simp: program_wf_def object_new_def object_wf_def)
next
  case (program_next p p')
  then show ?case by (blast intro: program_step_wf)
qed


section \<open>The end of a relay\<close>

lemma tcp_half_read_eof: "tcp_half_read s TCP_IO_BUFFER_SIZE = (s', Inr []) \<Longrightarrow> tcp_pending s' = []"
proof -
  have nil: "tcp_recv rx n = (rx', Inr []) \<Longrightarrow> 0 < n \<Longrightarrow> rx' = []" for rx n rx'
    by (induction rx n rule: tcp_recv.induct) (auto split: if_splits)
  assume "tcp_half_read s TCP_IO_BUFFER_SIZE = (s', Inr [])"
  then have "tcp_recv (ts_rx s) TCP_IO_BUFFER_SIZE = (ts_rx s', Inr [])"
    by (auto simp: tcp_half_read_def split: prod.splits)
  from nil [OF this buffer_size_pos] show "tcp_pending s' = []" by (simp add: tcp_pending_def)
qed

lemma copy_step_eof:
  assumes "cp_end c = None" and "cp_end (copy_step tcp_half_read wr observed c) = Some Eof"
  shows "tcp_pending (cp_rd (copy_step tcp_half_read wr observed c)) = []"
  using assms tcp_half_read_eof [of "cp_rd c"]
  by (auto simp: copy_step_def split: prod.splits sum.splits if_splits)

lemma relay_reach_eof:
  assumes "relay_reach tcp_half_read cwr tcp_half_read swr observed r0 r"
    and "cp_end (rl_s2c r0) = None" "cp_end (rl_c2s r0) = None"
  shows "(cp_end (rl_s2c r) = Some Eof \<longrightarrow> tcp_pending (cp_rd (rl_s2c r)) = [])
    \<and> (cp_end (rl_c2s r) = Some Eof \<longrightarrow> tcp_pending (cp_rd (rl_c2s r)) = [])"
  using assms
proof (induction rule: relay_reach.induct)
  case relay_refl
  then show ?case by simp
next
  case (relay_trans s s')
  from relay_trans.hyps(2) show ?case
    by cases (use relay_trans.IH [OF relay_trans.prems] copy_step_eof in auto)
qed

lemma copier_inv_prefix:
  assumes "copier_inv tcp_pending tw_tx observed P W c" and "cp_end c = Some Eof \<longrightarrow> tcp_pending (cp_rd c) = []"
  shows "\<exists>a. prefix a P \<and> tw_tx (cp_wr c) = W @ a \<and> (cp_end c = Some Eof \<longrightarrow> a = P)"
proof -
  from assms(1) obtain a b where ab: "P = a @ b" "tw_tx (cp_wr c) = W @ a"
    "cp_end c \<in> {None, Some Eof, Some Cancelled} \<longrightarrow> b = tcp_pending (cp_rd c)"
    by (auto simp: copier_inv_def)
  then show ?thesis using assms(2) by auto
qed

text \<open>Two TCP connections under the relay.\<close>

lemma tcp_relay_copies:
  assumes "relay_start tcp_half_write None (fst (tcp_split s)) (snd (tcp_split t)) (fst (tcp_split t)) (snd (tcp_split s))
      = Inr r0"
    and "relay_reach tcp_half_read tcp_half_write tcp_half_read tcp_half_write observed r0 r"
  shows "(\<exists>a. prefix a (tcp_pending s) \<and> tw_tx (cp_wr (rl_s2c r)) = ts_tx t @ a
      \<and> (cp_end (rl_s2c r) = Some Eof \<longrightarrow> a = tcp_pending s))
    \<and> (\<exists>b. prefix b (tcp_pending t) \<and> tw_tx (cp_wr (rl_c2s r)) = ts_tx s @ b
      \<and> (cp_end (rl_c2s r) = Some Eof \<longrightarrow> b = tcp_pending t))"
proof -
  have p: "tcp_pending (fst (tcp_split s)) = tcp_pending s" "tw_tx (snd (tcp_split s)) = ts_tx s" for s
    by (simp_all add: tcp_split_def tcp_pending_def)
  have "relay_inv tcp_pending tw_tx tcp_pending tw_tx observed (tcp_pending s) (ts_tx t) (tcp_pending t) (ts_tx s) r"
    using relay_reach_inv [OF tcp_path.relay_path_axioms tcp_path.relay_path_axioms assms(2)
        relay_start_inv [OF tcp_path.relay_path_axioms tcp_path.relay_path_axioms assms(1)]]
    by (simp add: p)
  moreover have "cp_end (rl_s2c r0) = None" "cp_end (rl_c2s r0) = None"
    using assms(1) by (auto simp: relay_start_def copier_new_def)
  note relay_reach_eof [OF assms(2) this]
  ultimately show ?thesis by (auto simp: relay_inv_def intro!: copier_inv_prefix)
qed

text \<open>The pool is the one of the configured number of blocks.\<close>

lemma program_start_blocks:
  assumes "program_start fl mf nops lib w as_bool uuid (Inr cfg) = Inr st" and "sd_blocks st = Some bm"
  shows "buffer_blocks fl mf (cg_buffer_size cfg) = Inr (Some (bm_limit bm))" and "bm = bm_new nops (bm_limit bm)"
proof -
  from assms(1) obtain b where b: "buffer_blocks fl mf (cg_buffer_size cfg) = Inr b"
    "sd_blocks st = (case b of None \<Rightarrow> None | Some n \<Rightarrow> Some (bm_new nops n))"
    by (auto simp: program_start_def io_bind_eq_Inr)
  with assms(2) show "buffer_blocks fl mf (cg_buffer_size cfg) = Inr (Some (bm_limit bm))"
    "bm = bm_new nops (bm_limit bm)"
    by (auto simp: bm_new_def split: option.splits)
qed

text \<open>Once an object has ended it stays so.\<close>

lemma main_returns_stays:
  assumes "main_returns p = Some (Inr ())" and "program_step cfg server_id route p p'"
  shows "main_returns p' = Some (Inr ())"
proof -
  have keep: "main_returns (set_object i ob p) = Some (Inr ())"
    if i: "i < length (pg_objects p)" and e: "ob_end (pg_objects p ! i) \<noteq> None \<longrightarrow> ob_end ob \<noteq> None" for i ob
  proof -
    from assms(1) obtain j where j: "j < length (pg_objects p)" "ob_end (pg_objects p ! j) \<noteq> None"
      by (auto simp: main_returns_def in_set_conv_nth split: if_splits)
    then have "ob_end ((pg_objects p)[i := ob] ! j) \<noteq> None" using i e by (cases "j = i") simp_all
    moreover have "(pg_objects p)[i := ob] ! j \<in> set ((pg_objects p)[i := ob])" using j(1) by simp
    ultimately show ?thesis using i by (auto simp: main_returns_def set_object_def)
  qed
  from assms(2) show ?thesis
  proof cases
    case step_route
    then show ?thesis using assms(1) by (simp add: main_returns_def split: if_splits)
  qed (use keep in simp_all)
qed

text \<open>A configuration with one SOCKS5 listener and the direct connector, and a pool of 5 KB.\<close>

definition demo_config :: "unit config" where
  "demo_config = \<lparr>cg_reverse_server = None, cg_listener = [oc_listener demo_object], cg_router = [], cg_data = None,
     cg_connector = [demo_direct], cg_server_id = Some ''srv'', cg_buffer_size = Some (show_dec 5 @ ''k'')\<rparr>"

definition demo_program :: "'k acceptor option \<Rightarrow> (unit, 'k, (unit, unit) connector, unit) program" where
  "demo_program acc = \<lparr>pg_routing = (), pg_objects = [\<lparr>ob_name = ''in'', ob_config = Some demo_object,
     ob_acceptor = acc, ob_cache = Map.empty, ob_spawned = 0, ob_end = None\<rparr>]\<rparr>"

lemma demo_start:
  "\<exists>st. program_start (fl :: nat float_ops) mf permit_ops demo_net demo_world (\<lambda>_. None) ''uuid'' (Inr demo_config) = Inr st
     \<and> sd_server_id st = ''srv'' \<and> sd_blocks st = Some (bm_new permit_ops 3)"
proof -
  have "(''k'', 1024) \<in> set size_units" by (simp add: size_units_def)
  then have "parse_size fl mf (show_dec 5 @ ''k'') = Inr 5120" using parse_size_plain [of "''k''" 1024 5 fl mf] by simp
  moreover have "div_ceil 5120 2048 = 3" by code_simp
  ultimately show ?thesis by (simp add: program_start_def demo_config_def buffer_blocks_def)
qed

lemma demo_reach:
  "program_reach demo_config ''srv'' demo_route () (demo_program None)"
  "program_reach demo_config ''srv'' demo_route () (demo_program (Some (OnTcp (SocksAcceptor []))))"
proof -
  let ?p = "\<lparr>pg_routing = (), pg_objects = map (\<lambda>l. object_new (lc_name l)) (cg_listener demo_config)\<rparr>"
  have "program_step demo_config ''srv'' demo_route ?p
      (set_object 0 (object_build demo_config ''srv'' (pg_objects ?p ! 0)) ?p)"
    by (rule step_build) (simp_all add: demo_config_def object_new_def)
  moreover have "set_object 0 (object_build demo_config ''srv'' (pg_objects ?p ! 0)) ?p = demo_program None"
    by (simp add: set_object_def object_build_def object_config_build_def demo_config_def object_new_def demo_program_def
        demo_object_def connector_map_def demo_direct_def)
  ultimately show r: "program_reach demo_config ''srv'' demo_route () (demo_program None)"
    using program_next [OF program_init] by metis
  have "program_step demo_config ''srv'' demo_route (demo_program None)
      (set_object 0 (object_listen (\<lambda>_. Inr []) (\<lambda>_. True) demo_object (pg_objects (demo_program None) ! 0)) (demo_program None))"
    by (rule step_listen) (simp_all add: demo_program_def)
  moreover have "set_object 0 (object_listen (\<lambda>_. Inr []) (\<lambda>_. True) demo_object (pg_objects (demo_program None) ! 0))
      (demo_program None) = demo_program (Some (OnTcp (SocksAcceptor [])))"
    by (simp add: set_object_def object_listen_def listener_create_def demo_program_def demo_object_def)
  ultimately show "program_reach demo_config ''srv'' demo_route () (demo_program (Some (OnTcp (SocksAcceptor []))))"
    using program_next [OF r] by metis
qed

text \<open>A listener of the protocol \<open>tcp\<close>.\<close>

definition demo_tcp_listener :: "unit listener_cfg" where
  "demo_tcp_listener = (oc_listener demo_object)\<lparr>lc_proto := ''tcp''\<rparr>"

definition demo_tcp_config :: "unit config" where
  "demo_tcp_config = demo_config\<lparr>cg_listener := [demo_tcp_listener]\<rparr>"

definition demo_tcp_object :: "unit object_config" where
  "demo_tcp_object = demo_object\<lparr>oc_listener := demo_tcp_listener\<rparr>"

definition demo_tcp_program :: "(unit, unit, (unit, unit) connector, unit) program" where
  "demo_tcp_program = \<lparr>pg_routing = (), pg_objects = [\<lparr>ob_name = ''in'', ob_config = Some demo_tcp_object,
     ob_acceptor = None, ob_cache = Map.empty, ob_spawned = 0, ob_end = None\<rparr>]\<rparr>"

lemma demo_tcp_reach: "program_reach demo_tcp_config ''srv'' demo_route () demo_tcp_program"
proof -
  let ?p = "\<lparr>pg_routing = (), pg_objects = map (\<lambda>l. object_new (lc_name l)) (cg_listener demo_tcp_config)\<rparr>"
  have "program_step demo_tcp_config ''srv'' demo_route ?p
      (set_object 0 (object_build demo_tcp_config ''srv'' (pg_objects ?p ! 0)) ?p)"
    by (rule step_build) (simp_all add: demo_tcp_config_def object_new_def)
  moreover have "set_object 0 (object_build demo_tcp_config ''srv'' (pg_objects ?p ! 0)) ?p = demo_tcp_program"
    by (simp add: set_object_def object_build_def object_config_build_def demo_tcp_config_def object_new_def
        demo_tcp_program_def demo_tcp_object_def demo_tcp_listener_def demo_config_def
        demo_object_def connector_map_def demo_direct_def)
  ultimately show ?thesis using program_next [OF program_init] by metis
qed

section \<open>Properties\<close>

text \<open>C38: In every state the program reaches, with its objects and the tasks of their connections in any
  order, every object is well formed: its configuration was found (\<open>ObjectConfig::build\<close> does not
  panic) and is of the listener it was spawned for, its acceptor is of the protocol of that
  listener with that listener's password or the server's id, and every cached connector is of the
  protocol of the configured connector of that name and carries its configuration.\<close>

theorem program_well_formed:
  assumes "program_start fl mf nops lib w as_bool uuid (Inr cfg) = Inr st"
    and "program_reach cfg (sd_server_id st) route q0 p"
  shows "map ob_name (pg_objects p) = map ob_name (sd_objects st)
    \<and> (\<forall>ob \<in> set (pg_objects p). case ob_config ob of
          None \<Rightarrow> ob_end ob = None \<and> ob_spawned ob = 0
        | Some oc \<Rightarrow> find_listener (ob_name ob) (cg_listener cfg) = Some (oc_listener oc)
            \<and> oc_server_id oc = sd_server_id st
            \<and> (\<forall>acc. ob_acceptor ob = Some acc \<longrightarrow> acceptor_fits oc acc)
            \<and> (\<forall>name c. ob_cache ob name = Some c \<longrightarrow>
                 (\<exists>conf. connector_map (cg_connector cfg) name = Some conf \<and> connector_fits conf c)))"
proof -
  have n: "map ob_name (sd_objects st) = map lc_name (cg_listener cfg)"
    using assms(1) by (auto simp: program_start_def io_bind_eq_Inr object_new_def)
  show ?thesis using program_reach_wf [OF assms(2)]
    by (auto simp: n program_wf_def object_wf_def config_fits_def cache_ok_def split: option.splits)
qed

lemma program_well_formed_witness:
  "\<forall>(fl :: nat float_ops) mf. \<exists>st :: (unit, bool, ip_addr \<times> nat, ip_addr \<times> nat, string, unit, (unit, unit) connector) started.
     program_start fl mf permit_ops demo_net demo_world (\<lambda>_. None) ''uuid'' (Inr demo_config) = Inr st
   \<and> map ob_name (pg_objects (demo_program (Some (OnTcp (SocksAcceptor []) :: unit acceptor)))) = map ob_name (sd_objects st)
   \<and> find_listener ''in'' (cg_listener demo_config) = Some (oc_listener demo_object)
   \<and> acceptor_fits demo_object (OnTcp (SocksAcceptor []) :: unit acceptor)"
proof (intro allI)
  fix fl :: "nat float_ops" and mf
  obtain st :: "(unit, bool, ip_addr \<times> nat, ip_addr \<times> nat, string, unit, (unit, unit) connector) started"
    where st:
    "program_start fl mf permit_ops demo_net demo_world (\<lambda>_. None) ''uuid'' (Inr demo_config) = Inr st"
    "sd_server_id st = ''srv''" using demo_start by blast
  from demo_reach(2) st(2) have r:
    "program_reach demo_config (sd_server_id st) demo_route () (demo_program (Some (OnTcp (SocksAcceptor []) :: unit acceptor)))" by simp
  from program_well_formed [OF st(1) r] st(1)
  show "\<exists>st :: (unit, bool, ip_addr \<times> nat, ip_addr \<times> nat, string, unit, (unit, unit) connector) started. program_start fl mf permit_ops demo_net demo_world (\<lambda>_. None) ''uuid'' (Inr demo_config) = Inr st
     \<and> map ob_name (pg_objects (demo_program (Some (OnTcp (SocksAcceptor []) :: unit acceptor)))) = map ob_name (sd_objects st)
     \<and> find_listener ''in'' (cg_listener demo_config) = Some (oc_listener demo_object)
     \<and> acceptor_fits demo_object (OnTcp (SocksAcceptor []) :: unit acceptor)"
    by (intro exI [of _ st]) (simp add: demo_program_def)
qed





text \<open>C40: A listener of a protocol other than \<open>socks5\<close>, \<open>http\<close>, \<open>htss5\<close>, \<open>grpc\<close>, \<open>rev_grpc\<close> and \<open>pb_tcp\<close>, or of one
  of the last three without a password, accepts nothing, and its first step after its
  configuration ends the whole program, all other listeners with it and with \<open>Ok\<close>; a program that
  is to end stays so whatever its other tasks do.\<close>

theorem bad_listener_ends_program:
  assumes "program_reach cfg server_id route q0 p" and "i < length (pg_objects p)" and "ob = pg_objects p ! i"
    and "ob_config ob = Some oc"
    and "lc_proto (oc_listener oc) \<notin> {''socks5'', ''http'', ''htss5'', ''grpc'', ''rev_grpc'', ''pb_tcp''}
      \<or> lc_proto (oc_listener oc) \<in> {''grpc'', ''rev_grpc'', ''pb_tcp''} \<and> lc_pw (oc_listener oc) = None"
  shows "ob_spawned ob = 0
    \<and> main_returns (set_object i (object_listen bind_tcp endpoint_ok oc ob) p) = Some (Inr ())
    \<and> (\<forall>p'. main_returns p = Some (Inr ()) \<longrightarrow> program_step cfg server_id route p p' \<longrightarrow> main_returns p' = Some (Inr ()))"
proof -
  have ob: "object_wf cfg server_id ob" using program_reach_wf [OF assms(1)] assms(2,3) by (simp add: program_wf_def)
  have no: "\<not> acceptor_fits oc acc" for acc using assms(5) by (cases "(oc, acc)" rule: acceptor_fits.cases) auto
  then have "ob_acceptor ob = None" using ob assms(4) by (cases "ob_acceptor ob") (auto simp: object_wf_def)
  then have "ob_spawned ob = 0" using ob assms(4) by (auto simp: object_wf_def)
  moreover have "ob_end (object_listen bind_tcp endpoint_ok oc ob) \<noteq> None"
    using no listener_create_fits [of bind_tcp endpoint_ok oc] by (auto simp: object_listen_def split: sum.split)
  then have "main_returns (set_object i (object_listen bind_tcp endpoint_ok oc ob) p) = Some (Inr ())"
    using assms(2) set_update_memI [OF assms(2)] by (auto simp: main_returns_def set_object_def)
  ultimately show ?thesis using main_returns_stays by blast
qed

lemma bad_listener_ends_program_witness:
  "\<exists>p :: (unit, unit, (unit, unit) connector, unit) program. program_reach demo_tcp_config ''srv'' demo_route () p
     \<and> main_returns (set_object 0 (object_listen (\<lambda>_. Inr []) (\<lambda>_. True) demo_tcp_object (pg_objects p ! 0)) p)
       = Some (Inr ())"
proof -
  let ?p = "demo_tcp_program"
  have o: "ob_config (pg_objects ?p ! 0) = Some demo_tcp_object" "0 < length (pg_objects ?p)"
    by (simp_all add: demo_tcp_program_def)
  have "lc_proto (oc_listener demo_tcp_object) \<notin> {''socks5'', ''http'', ''htss5'', ''grpc'', ''rev_grpc'', ''pb_tcp''}
      \<or> lc_proto (oc_listener demo_tcp_object) \<in> {''grpc'', ''rev_grpc'', ''pb_tcp''} \<and> lc_pw (oc_listener demo_tcp_object) = None"
    by (simp add: demo_tcp_object_def demo_tcp_listener_def)
  from bad_listener_ends_program [OF demo_tcp_reach o(2) refl o(1) this, of "\<lambda>_. Inr []" "\<lambda>_. True"] demo_tcp_reach
  show ?thesis by (intro exI [of _ ?p]) simp
qed

end
