(* ===== verification/Proxy_Chain.thy ===== *)
theory Proxy_Chain
  imports Tunnel Relay "HOL-Library.Sublist"
begin

text \<open>
  Two proxies in a row.  The first relays a client's TCP connection into a gRPC tunnel that
  \<open>grpc_connect\<close> opened (\<open>src/connector/grpc.rs\<close>), the second takes the tunnel with \<open>grpc_handshake\<close>
  (\<open>src/listener/grpc.rs\<close>) and relays it to a TCP connection of its own; both run
  \<open>handle_tcp_connection\<close> (\<open>src/object/tcp.rs\<close>) over the streams of \<open>src/stream/grpc_client.rs\<close> and
  \<open>src/stream/grpc_server.rs\<close>.  Nothing new is modelled here: the theory composes the others.
\<close>

section \<open>The directions of the two relays\<close>

lemma grpc_client_stream:
  "byte_stream grpc_client_half_read (cached_pending (grpc_payloads (\<lambda>d. Inr (sr_payload d))))"
  unfolding grpc_client_half_read_def by (rule grpc_client_src.cached.byte_stream_axioms)

lemma grpc_server_stream:
  "byte_stream grpc_server_half_read (cached_pending (grpc_payloads (\<lambda>d. unwrap (sq_payload d))))"
  unfolding grpc_server_half_read_def by (rule grpc_server_src.cached.byte_stream_axioms)

interpretation into_tunnel: relay_path tcp_half_read tcp_pending grpc_client_half_write "sent_bytes sq_payload"
  by (rule relay_path.intro [OF tcp_half.byte_stream_axioms grpc_client_sink.byte_sink_axioms])

interpretation out_of_tunnel: relay_path grpc_server_half_read
    "cached_pending (grpc_payloads (\<lambda>d. unwrap (sq_payload d)))" tcp_half_write tw_tx
  by (rule relay_path.intro [OF grpc_server_stream tcp_sink.byte_sink_axioms])

interpretation into_response: relay_path tcp_half_read tcp_pending grpc_server_half_write
    "sent_bytes (\<lambda>m. Some (sr_payload m))"
  by (rule relay_path.intro [OF tcp_half.byte_stream_axioms grpc_server_sink.byte_sink_axioms])

interpretation out_of_response: relay_path grpc_client_half_read
    "cached_pending (grpc_payloads (\<lambda>d. Inr (sr_payload d)))" tcp_half_write tw_tx
  by (rule relay_path.intro [OF grpc_client_stream tcp_sink.byte_sink_axioms])

lemmas near_paths = into_tunnel.relay_path_axioms out_of_response.relay_path_axioms
lemmas far_paths = out_of_tunnel.relay_path_axioms into_response.relay_path_axioms

section \<open>Prefixes\<close>

lemma copier_inv_sent:
  assumes "copier_inv pending written observed P W c"
  shows "\<exists>a. prefix a P \<and> written (cp_wr c) = W @ a"
  using assms unfolding copier_inv_def by auto

text \<open>What a channel delivers: messages, and then at most a status.\<close>

definition ends_messages :: "'m grpc_event list \<Rightarrow> bool" where
  "ends_messages es \<longleftrightarrow> es = [] \<or> (\<exists>e r. es = GStatus e # r)"

lemma grpc_payloads_prefix:
  assumes "\<And>m. f m = unwrap (g m)" and "ends_messages es"
  shows "prefix (grpc_payloads f (map GMsg ms @ es)) (concat (map (\<lambda>m. case g m of None \<Rightarrow> [] | Some p \<Rightarrow> p) ms))"
proof (induction ms)
  case Nil
  then show ?case using assms(2) by (auto simp: ends_messages_def)
next
  case (Cons m ms)
  then show ?case by (cases "g m") (simp_all add: assms(1))
qed

text \<open>\<open>old\<close> are the messages of the channel before the relay; what the other end still reads of the rest
  are bytes the relay wrote.\<close>

lemma channel_prefix:
  assumes "\<And>m. f m = unwrap (g m)" and "ends_messages es" and "prefix (old @ ms) (sd_sent w)"
    and "sent_bytes g \<lparr>sd_sent = old, sd_closed = None\<rparr> = []"
  shows "prefix (grpc_payloads f (map GMsg ms @ es)) (sent_bytes g w)"
proof -
  from assms(3) obtain zs where z: "sd_sent w = old @ ms @ zs" by (auto elim: prefixE)
  have "concat (map (\<lambda>m. case g m of None \<Rightarrow> [] | Some p \<Rightarrow> p) old) = []" using assms(4) by (simp add: sent_bytes_def)
  then have "sent_bytes g w = concat (map (\<lambda>m. case g m of None \<Rightarrow> [] | Some p \<Rightarrow> p) ms)
      @ concat (map (\<lambda>m. case g m of None \<Rightarrow> [] | Some p \<Rightarrow> p) zs)"
    unfolding sent_bytes_def z map_append concat_append by simp
  with grpc_payloads_prefix [of f g, OF assms(1,2), of ms] show ?thesis by simp
qed

lemma prefix_of_prefix: "prefix a b \<Longrightarrow> prefix b c \<Longrightarrow> prefix a c"
  by (rule prefix_order.trans)

section \<open>The chain\<close>

lemma grpc_setup:
  assumes "parse_address addr = Inr (host, port)" and "cc_pw cfg = Some pw"
    and "grpc_connect (Inr resp) open_sender cfg addr = Inr cs"
  shows "sent_bytes sq_payload (st_writer cs) = [] \<and> msg_split cs = (cached_new resp, st_writer cs)
    \<and> grpc_handshake pw (msg_stream_new (map GMsg (sd_sent (st_writer cs)) @ evs) open_sender) =
        (msg_set_info (\<lambda>x. x\<lparr>si_protocol_name := ''grpc''\<rparr>) (msg_stream_new evs open_sender),
         Inr (\<lparr>ra_addr = host, ra_port = port, ra_udp = False\<rparr>, None))"
  using assms
  by (auto simp: grpc_connect_def grpc_handshake_def grpc_server_handshake_def open_sender_def send_def
      msg_set_info_def msg_stream_new_def cached_new_def stream_req_default_def Let_def msg_split_def sent_bytes_def
      split: sum.splits)

text \<open>The near proxy: what it sent into the tunnel, and what it gave to the client.\<close>

lemma near_relay:
  assumes "relay_start grpc_client_half_write cache (fst (tcp_split s)) w (cached_new resp) (snd (tcp_split s)) = Inr a0"
    and "relay_reach tcp_half_read grpc_client_half_write grpc_client_half_read tcp_half_write observed a0 a"
    and "sent_bytes sq_payload w = []"
  shows "prefix (sent_bytes sq_payload (cp_wr (rl_s2c a))) ((case cache of None \<Rightarrow> [] | Some c \<Rightarrow> c) @ tcp_pending s)
    \<and> (\<exists>y. prefix y (grpc_payloads (\<lambda>d. Inr (sr_payload d)) resp) \<and> tw_tx (cp_wr (rl_c2s a)) = ts_tx s @ y)"
proof -
  have p: "tcp_pending (fst (tcp_split s)) = tcp_pending s" "tw_tx (snd (tcp_split s)) = ts_tx s"
    by (simp_all add: tcp_split_def tcp_pending_def)
  from relay_reach_inv [OF near_paths assms(2) relay_start_inv [OF near_paths assms(1)]]
  have i: "copier_inv tcp_pending (sent_bytes sq_payload) observed (tcp_pending s)
      (case cache of None \<Rightarrow> [] | Some c \<Rightarrow> c) (rl_s2c a)"
    "copier_inv (cached_pending (grpc_payloads (\<lambda>d. Inr (sr_payload d)))) tw_tx observed
      (grpc_payloads (\<lambda>d. Inr (sr_payload d)) resp) (ts_tx s) (rl_c2s a)"
    by (simp_all add: relay_inv_def p assms(3) cached_pending_def cached_new_def)
  from copier_inv_sent [OF i(1)] copier_inv_sent [OF i(2)] show ?thesis by auto
qed

text \<open>The far proxy: what it gave to the target, and what it sent back.\<close>

lemma far_relay:
  assumes "relay_start tcp_half_write None (cached_new evs) (snd (tcp_split t)) (fst (tcp_split t)) open_sender = Inr b0"
    and "relay_reach grpc_server_half_read tcp_half_write tcp_half_read grpc_server_half_write observed b0 b"
  shows "prefix (sent_bytes (\<lambda>m. Some (sr_payload m)) (cp_wr (rl_c2s b))) (tcp_pending t)
    \<and> (\<exists>y. prefix y (grpc_payloads (\<lambda>d. unwrap (sq_payload d)) evs) \<and> tw_tx (cp_wr (rl_s2c b)) = ts_tx t @ y)"
proof -
  have p: "tcp_pending (fst (tcp_split t)) = tcp_pending t" "tw_tx (snd (tcp_split t)) = ts_tx t"
    by (simp_all add: tcp_split_def tcp_pending_def)
  from relay_reach_inv [OF far_paths assms(2) relay_start_inv [OF far_paths assms(1)]]
  have i: "copier_inv tcp_pending (sent_bytes (\<lambda>m. Some (sr_payload m))) observed (tcp_pending t) [] (rl_c2s b)"
    "copier_inv (cached_pending (grpc_payloads (\<lambda>d. unwrap (sq_payload d)))) tw_tx observed
      (grpc_payloads (\<lambda>d. unwrap (sq_payload d)) evs) (ts_tx t) (rl_s2c b)"
    by (simp_all add: relay_inv_def p cached_pending_def cached_new_def open_sender_def sent_bytes_def)
  from copier_inv_sent [OF i(1)] copier_inv_sent [OF i(2)] show ?thesis by auto
qed

section \<open>A chain that carries two bytes\<close>

definition demo_msg :: stream_req where
  "demo_msg = stream_req_default\<lparr>sq_payload := Some [1, 2]\<rparr>"

definition demo_call :: grpc_client_stream where
  "demo_call = (case grpc_connect (Inr (map GMsg [] @ [])) open_sender demo_connector ''a.b:80'' of Inr cs \<Rightarrow> cs)"

definition demo_taken :: grpc_server_stream where
  "demo_taken = msg_set_info (\<lambda>x. x\<lparr>si_protocol_name := ''grpc''\<rparr>)
     (msg_stream_new (map GMsg [demo_msg] @ []) open_sender)"

definition demo_near_tcp :: tcp_stream where "demo_near_tcp = tcp_run_stream_new [Segment [1, 2]]"
definition demo_far_tcp :: tcp_stream where "demo_far_tcp = tcp_run_stream_new []"

text \<open>A relay, and after one round of the direction from its listener.\<close>

definition relay_at ::
    "'sr \<Rightarrow> 'cw \<Rightarrow> 'cr \<Rightarrow> 'sw \<Rightarrow> ('sr, 'cw, 'cr, 'sw) relay" where
  "relay_at sr cw cr sw = \<lparr>rl_s2c = copier_new sr cw, rl_c2s = copier_new cr sw, rl_cancel = False\<rparr>"

definition one_round ::
    "'sr reader \<Rightarrow> 'cw writer \<Rightarrow> ('sr, 'cw, 'cr, 'sw) relay \<Rightarrow> ('sr, 'cw, 'cr, 'sw) relay" where
  "one_round rd wr s = (let c = copy_step rd wr False (rl_s2c s) in
     s\<lparr>rl_s2c := c, rl_cancel := cancelled_by (rl_cancel s) (cp_end c)\<rparr>)"

lemma one_round_reach:
  "relay_reach rd wr crd swr False (relay_at sr cw cr sw) (one_round rd wr (relay_at sr cw cr sw))"
  unfolding one_round_def Let_def
  by (rule relay_trans [OF relay_refl]) (rule relay_s2c, simp_all add: relay_at_def copier_new_def)

definition "demo_near0 = relay_at (fst (tcp_split demo_near_tcp)) (snd (msg_split demo_call)) (fst (msg_split demo_call))
  (snd (tcp_split demo_near_tcp))"
definition "demo_near = one_round tcp_half_read grpc_client_half_write demo_near0"
definition "demo_far0 = relay_at (fst (grpc_server_split demo_taken)) (snd (tcp_split demo_far_tcp)) (fst (tcp_split demo_far_tcp))
  (snd (grpc_server_split demo_taken))"
definition "demo_far = one_round grpc_server_half_read tcp_half_write demo_far0"

lemma demo_call_ok:
  "cc_pw demo_connector = Some ''pw''"
  "grpc_connect (Inr (map GMsg [] @ [])) open_sender demo_connector ''a.b:80'' = Inr demo_call"
  "st_writer demo_call = \<lparr>sd_sent = [\<lparr>sq_auth = ''pw'', sq_payload = None, sq_dst_addr = Some ''a.b'',
     sq_dst_port = Some 80\<rparr>], sd_closed = None\<rparr>"
  "st_reader demo_call = cached_new []"
proof -
  show pw: "cc_pw demo_connector = Some ''pw''" by (simp add: demo_connector_def)
  show "grpc_connect (Inr (map GMsg [] @ [])) open_sender demo_connector ''a.b:80'' = Inr demo_call"
    "st_writer demo_call = \<lparr>sd_sent = [\<lparr>sq_auth = ''pw'', sq_payload = None, sq_dst_addr = Some ''a.b'',
       sq_dst_port = Some 80\<rparr>], sd_closed = None\<rparr>" "st_reader demo_call = cached_new []"
    by (simp_all add: demo_call_def grpc_connect_def demo_address pw send_def open_sender_def msg_set_info_def
        msg_stream_new_def stream_req_default_def u32_of_port_def)
qed

lemma demo_taken_ok:
  "grpc_handshake ''pw'' (msg_stream_new (map GMsg (sd_sent (st_writer demo_call)) @ map GMsg [demo_msg] @ []) open_sender)
    = (demo_taken, Inr (\<lparr>ra_addr = ''a.b'', ra_port = 80, ra_udp = False\<rparr>, None))"
  using conjunct2 [OF conjunct2 [OF grpc_setup [OF demo_address demo_call_ok(1,2), of "map GMsg [demo_msg] @ []"]]]
  by (simp add: demo_taken_def)

lemma demo_near_run:
  "relay_start grpc_client_half_write None (fst (tcp_split demo_near_tcp)) (snd (msg_split demo_call))
     (fst (msg_split demo_call)) (snd (tcp_split demo_near_tcp)) = Inr demo_near0"
  "relay_reach tcp_half_read grpc_client_half_write grpc_client_half_read tcp_half_write False demo_near0 demo_near"
  "sd_sent (cp_wr (rl_s2c demo_near)) = sd_sent (st_writer demo_call) @ [demo_msg]"
  by (simp add: relay_start_def demo_near0_def relay_at_def,
      simp add: demo_near_def demo_near0_def one_round_reach,
      simp add: demo_near_def demo_near0_def relay_at_def one_round_def copier_new_def copy_step_def tcp_half_read_def
        demo_near_tcp_def tcp_run_stream_new_def tcp_split_def msg_split_def demo_call_ok grpc_client_half_write_def
        send_interrupted_def send_def TCP_IO_BUFFER_SIZE_def demo_msg_def)

lemma demo_far_run:
  "relay_start tcp_half_write None (fst (grpc_server_split demo_taken)) (snd (tcp_split demo_far_tcp)) (fst (tcp_split demo_far_tcp))
     (snd (grpc_server_split demo_taken)) = Inr demo_far0"
  "relay_reach grpc_server_half_read tcp_half_write tcp_half_read grpc_server_half_write False demo_far0 demo_far"
  "tw_tx (cp_wr (rl_s2c demo_far)) = [1, 2]"
  by (simp add: relay_start_def demo_far0_def relay_at_def,
      simp add: demo_far_def demo_far0_def one_round_reach,
      simp add: demo_far_def demo_far0_def relay_at_def one_round_def copier_new_def copy_step_def msg_split_def
        demo_taken_def msg_set_info_def msg_stream_new_def grpc_server_half_read_def cached_read_def cached_new_def
        grpc_server_next_def grpc_next_def tcp_half_write_def tcp_split_def demo_far_tcp_def tcp_run_stream_new_def
        TCP_IO_BUFFER_SIZE_def demo_msg_def Let_def)

section \<open>Properties\<close>

text \<open>C12: Two proxies with a gRPC tunnel between them are transparent.  The far proxy is asked for the
  host and port the near one was, and in every interleaving of both relays, however far the two
  channels of the call got, the target receives a prefix of what the client sent (the bytes the
  near listener read ahead first) and the client a prefix of what the target sent: nothing is
  lost inside, reordered, duplicated or made up.\<close>

theorem grpc_chain_transparent:
  assumes "parse_address addr = Inr (host, port)" and "cc_pw cfg = Some pw"
    and "grpc_connect (Inr (map GMsg back @ back_end)) open_sender cfg addr = Inr cs"
    and "grpc_handshake pw (msg_stream_new (map GMsg (sd_sent (st_writer cs)) @ map GMsg there @ there_end) open_sender)
      = (sB, Inr (addr', x))"
    and "relay_start grpc_client_half_write cache (fst (tcp_split s)) (snd (msg_split cs)) (fst (msg_split cs))
      (snd (tcp_split s)) = Inr a0"
    and "relay_reach tcp_half_read grpc_client_half_write grpc_client_half_read tcp_half_write obsA a0 a"
    and "relay_start tcp_half_write x (fst (grpc_server_split sB)) (snd (tcp_split t)) (fst (tcp_split t)) (snd (grpc_server_split sB))
      = Inr b0"
    and "relay_reach grpc_server_half_read tcp_half_write tcp_half_read grpc_server_half_write obsB b0 b"
    and "prefix (sd_sent (st_writer cs) @ there) (sd_sent (cp_wr (rl_s2c a)))" and "ends_messages there_end"
    and "prefix back (sd_sent (cp_wr (rl_c2s b)))" and "ends_messages back_end"
  shows "ra_addr addr' = host \<and> ra_port addr' = port
    \<and> (\<exists>d. prefix d ((case cache of None \<Rightarrow> [] | Some c \<Rightarrow> c) @ tcp_pending s) \<and> tw_tx (cp_wr (rl_s2c b)) = ts_tx t @ d)
    \<and> (\<exists>u. prefix u (tcp_pending t) \<and> tw_tx (cp_wr (rl_c2s a)) = ts_tx s @ u)"
proof -
  note g = grpc_setup [OF assms(1-3)]
  have sB: "sB = msg_set_info (\<lambda>x. x\<lparr>si_protocol_name := ''grpc''\<rparr>) (msg_stream_new (map GMsg there @ there_end) open_sender)"
    "x = None" and a': "ra_addr addr' = host" "ra_port addr' = port"
    using assms(4) conjunct2 [OF conjunct2 [OF g]] by auto
  have split: "grpc_server_split sB = (cached_new (map GMsg there @ there_end), open_sender)"
    by (simp add: sB(1) msg_split_def msg_set_info_def msg_stream_new_def cached_new_def)
  have near: "prefix (sent_bytes sq_payload (cp_wr (rl_s2c a))) ((case cache of None \<Rightarrow> [] | Some c \<Rightarrow> c) @ tcp_pending s)
    \<and> (\<exists>y. prefix y (grpc_payloads (\<lambda>d. Inr (sr_payload d)) (map GMsg back @ back_end))
         \<and> tw_tx (cp_wr (rl_c2s a)) = ts_tx s @ y)"
    by (rule near_relay [OF _ assms(6), of _ _ "st_writer cs"]) (use assms(5) g in simp_all)
  have far: "prefix (sent_bytes (\<lambda>m. Some (sr_payload m)) (cp_wr (rl_c2s b))) (tcp_pending t)
    \<and> (\<exists>y. prefix y (grpc_payloads (\<lambda>d. unwrap (sq_payload d)) (map GMsg there @ there_end))
         \<and> tw_tx (cp_wr (rl_s2c b)) = ts_tx t @ y)"
    by (rule far_relay [OF _ assms(8)]) (use assms(7) sB(2) split in simp)
  have request: "prefix (grpc_payloads (\<lambda>d. unwrap (sq_payload d)) (map GMsg there @ there_end))
      (sent_bytes sq_payload (cp_wr (rl_s2c a)))"
    by (rule channel_prefix [OF refl assms(10,9)]) (use g in \<open>simp add: sent_bytes_def\<close>)
  have response: "prefix (grpc_payloads (\<lambda>d. Inr (sr_payload d)) (map GMsg back @ back_end))
      (sent_bytes (\<lambda>m. Some (sr_payload m)) (cp_wr (rl_c2s b)))"
    by (rule channel_prefix [where old = "[]"]) (simp_all add: assms(11,12) sent_bytes_def)
  show ?thesis using a' near far request response by (blast intro: prefix_of_prefix)
qed

lemma grpc_chain_transparent_witness:
  "relay_reach tcp_half_read grpc_client_half_write grpc_client_half_read tcp_half_write False demo_near0 demo_near
   \<and> tw_tx (cp_wr (rl_s2c demo_far)) = [1, 2]
   \<and> (\<exists>d. prefix d [1, 2] \<and> tw_tx (cp_wr (rl_s2c demo_far)) = d)"
proof -
  have pre: "prefix (sd_sent (st_writer demo_call) @ [demo_msg]) (sd_sent (cp_wr (rl_s2c demo_near)))"
    "prefix ([] :: stream_res list) (sd_sent (cp_wr (rl_c2s demo_far)))"
    by (simp_all add: demo_near_run(3))
  have ends: "ends_messages ([] :: stream_req grpc_event list)" "ends_messages ([] :: stream_res grpc_event list)"
    by (simp_all add: ends_messages_def)
  from grpc_chain_transparent [OF demo_address demo_call_ok(1,2) demo_taken_ok demo_near_run(1,2)
      demo_far_run(1,2) pre(1) ends(1) pre(2) ends(2)]
  have "\<exists>d. prefix d [1, 2] \<and> tw_tx (cp_wr (rl_s2c demo_far)) = d"
    by (simp add: demo_near_tcp_def demo_far_tcp_def tcp_run_stream_new_def tcp_pending_def)
  with demo_near_run(2) demo_far_run(3) show ?thesis by blast
qed

end
