(* ===== verification/Framed_Chain.thy ===== *)
theory Framed_Chain
  imports Proxy_Chain
begin

text \<open>
  Two proxies in a row with a framed TCP tunnel between them: the near one opened it with
  \<open>pb_tcp_connect\<close> (\<open>src/connector/pb_tcp.rs\<close>), the far one took it with \<open>pb_conn_dispatch\<close> and
  \<open>pb_tcp_handshake\<close> (\<open>src/listener/pb_tcp.rs\<close>), and both relay (\<open>src/object/tcp.rs\<close>) between it and a TCP
  connection of their own, over the streams of \<open>src/stream/pb_tcp_client.rs\<close> and
  \<open>src/stream/pb_tcp_server.rs\<close>.  Apart from the draws of the writes nothing new is modelled here.
\<close>

section \<open>Draws\<close>

text \<open>Every write draws a nonce and a random number of its own; \<open>draw\<close> are the draws of all writes of a
  half, and the number counts those made.\<close>

type_synonym draws = "nat \<Rightarrow> bytes \<times> u64"

definition drawn :: "(bytes \<Rightarrow> u64 \<Rightarrow> 'w \<Rightarrow> bytes \<Rightarrow> 'w \<times> unit io) \<Rightarrow> draws \<Rightarrow> (nat \<times> 'w) writer" where
  "drawn wr draw s buf =
     (case s of (i, w) \<Rightarrow>
        (case wr (fst (draw i)) (snd (draw i)) w buf of (w', r) \<Rightarrow> ((Suc i, w'), r)))"

section \<open>Sinks that are only good for some chunks\<close>

text \<open>
  A framed connection carries a chunk if its message fits a frame, so its write is no \<open>byte_sink\<close>.  In the
  locale \<open>carries w d\<close> says that \<open>w\<close> has carried the bytes \<open>d\<close>, and \<open>fits\<close> which chunks it can carry, those
  of a relay among them.
\<close>

locale chunk_path = byte_stream rd pending for rd :: "'s reader" and pending +
  fixes wr :: "'w writer" and carries :: "'w \<Rightarrow> bytes \<Rightarrow> bool" and fits :: "bytes \<Rightarrow> bool"
  assumes fits_chunk: "length bs \<le> TCP_IO_BUFFER_SIZE \<Longrightarrow> fits bs"
    and carries_ok: "carries w d \<Longrightarrow> fits bs \<Longrightarrow> wr w bs = (w', Inr ()) \<Longrightarrow> carries w' (d @ bs)"
    and carries_err: "carries w d \<Longrightarrow> fits bs \<Longrightarrow> wr w bs = (w', Inl e) \<Longrightarrow> \<exists>k. carries w' (d @ take k bs)"

definition copier_carries ::
    "('r \<Rightarrow> bytes) \<Rightarrow> ('w \<Rightarrow> bytes \<Rightarrow> bool) \<Rightarrow> bytes \<Rightarrow> bytes \<Rightarrow> ('r, 'w) copier \<Rightarrow> bool" where
  "copier_carries pending carries P d c \<longleftrightarrow>
     (\<exists>out rest. P = out @ rest \<and> carries (cp_wr c) (d @ out) \<and> (cp_end c = None \<longrightarrow> rest = pending (cp_rd c)))"

lemma copier_carriesI:
  assumes "P = out @ rest" and "carries (cp_wr c) (d @ out)" and "cp_end c = None \<Longrightarrow> rest = pending (cp_rd c)"
  shows "copier_carries pending carries P d c"
  unfolding copier_carries_def by (intro exI [of _ out] exI [of _ rest] conjI impI assms)

context chunk_path
begin

lemma copier_new_carries: "carries w d \<Longrightarrow> copier_carries pending carries (pending r) d (copier_new r w)"
  by (auto simp: copier_carries_def copier_new_def)

lemma copier_cancel_carries:
  "copier_carries pending carries P d c \<Longrightarrow> copier_carries pending carries P d (c\<lparr>cp_end := Some x\<rparr>)"
  by (auto simp: copier_carries_def)

lemma copy_step_carries:
  assumes inv: "copier_carries pending carries P d c" and run: "cp_end c = None"
  shows "copier_carries pending carries P d (copy_step rd wr observed c)"
proof -
  from inv run obtain out where P: "P = out @ pending (cp_rd c)" and W: "carries (cp_wr c) (d @ out)"
    by (auto simp: copier_carries_def)
  obtain r res where rd: "rd (cp_rd c) TCP_IO_BUFFER_SIZE = (r, res)" by fastforce
  show ?thesis
  proof (cases res)
    case (Inl e)
    with rd P W show ?thesis by (auto simp: copier_carries_def copy_step_def)
  next
    case (Inr bs)
    with rd_prefix rd have p: "length bs \<le> TCP_IO_BUFFER_SIZE" "pending (cp_rd c) = bs @ pending r" by blast+
    obtain w ok where wr: "wr (cp_wr c) bs = (w, ok)" by fastforce
    show ?thesis
    proof (cases ok)
      case (Inl e)
      with carries_err [OF W fits_chunk [OF p(1)]] wr obtain k where "carries w (d @ out @ take k bs)" by auto
      with P W p rd wr Inr Inl show ?thesis
        by (cases "bs = []"; intro copier_carriesI [of _ "out @ take k bs" "drop k bs @ pending r"])
          (simp_all add: copy_step_def run)
    next
      case ok: (Inr u)
      with carries_ok [OF W fits_chunk [OF p(1)]] wr have "carries w (d @ out @ bs)" by simp
      with P W p rd wr Inr ok show ?thesis
        by (cases "bs = []"; intro copier_carriesI [of _ "out @ bs" "pending r"]) (simp_all add: copy_step_def)
    qed
  qed
qed

end

text \<open>A byte sink carries every chunk.\<close>

sublocale relay_path \<subseteq> any: chunk_path rd pending wr "\<lambda>w d. written w = d" "\<lambda>_. True"
proof
  fix w d bs w' e
  show "written w = d \<Longrightarrow> wr w bs = (w', Inr ()) \<Longrightarrow> written w' = d @ bs" using wr_ok by auto
  show "written w = d \<Longrightarrow> wr w bs = (w', Inl e) \<Longrightarrow> \<exists>k. written w' = d @ take k bs" using wr_err by auto
qed simp

lemma relay_carries:
  assumes s: "chunk_path srd sp cwr cc cf" and c: "chunk_path crd cp swr sc sf"
    and "relay_reach srd cwr crd swr observed s0 s"
    and "copier_carries sp cc SP cd (rl_s2c s0)" and "copier_carries cp sc CP sd (rl_c2s s0)"
  shows "copier_carries sp cc SP cd (rl_s2c s) \<and> copier_carries cp sc CP sd (rl_c2s s)"
  using assms(3-5)
proof (induction rule: relay_reach.induct)
  case relay_refl
  then show ?case by simp
next
  case (relay_trans s s')
  then have inv: "copier_carries sp cc SP cd (rl_s2c s)" "copier_carries cp sc CP sd (rl_c2s s)" by simp_all
  from relay_trans(2) show ?case
    by cases (use inv chunk_path.copy_step_carries [OF s] chunk_path.copy_step_carries [OF c]
      chunk_path.copier_cancel_carries [OF s] chunk_path.copier_cancel_carries [OF c] in auto)
qed

lemma relay_start_carries:
  assumes "chunk_path srd sp cwr cc cf" and "chunk_path crd cp swr sc sf"
    and "relay_start cwr cache sr cw cr sw = Inr s0" and "cc cw []" and "sc sw sd"
    and "\<And>b. cache = Some b \<Longrightarrow> cf b"
  shows "copier_carries sp cc (sp sr) (case cache of None \<Rightarrow> [] | Some b \<Rightarrow> b) (rl_s2c s0)
    \<and> copier_carries cp sc (cp cr) sd (rl_c2s s0)"
proof -
  from assms(3,4,6) obtain cw' where "cc cw' (case cache of None \<Rightarrow> [] | Some b \<Rightarrow> b)"
    and "s0 = \<lparr>rl_s2c = copier_new sr cw', rl_c2s = copier_new cr sw, rl_cancel = False\<rparr>"
    using chunk_path.carries_ok [OF assms(1), of cw "[]"]
    by (fastforce simp: relay_start_def split: option.splits prod.splits sum.splits)
  then show ?thesis
    using chunk_path.copier_new_carries [OF assms(1)] chunk_path.copier_new_carries [OF assms(2) assms(5)] by simp
qed

section \<open>Frames cut short\<close>

text \<open>What a connection delivers is a beginning of what was written to it: its frames are the first ones.\<close>

lemma split_frame_append:
  assumes "split_frame x = Some (d, r)"
  shows "split_frame (x @ z) = Some (d, r @ z)"
  using assms by (auto simp: split_frame_def Let_def split: if_splits)

lemma framed_payloads_append: "prefix (framed_payloads dec f x) (framed_payloads dec f (x @ z))"
proof (induction dec f x rule: framed_payloads.induct)
  case (1 dec f b)
  show ?case
  proof (cases "split_frame b")
    case None
    then show ?thesis by (simp add: framed_payloads.simps [of dec f b])
  next
    case (Some x)
    obtain d r where x: "x = (d, r)" by fastforce
    have "prefix (framed_payloads dec f r) (framed_payloads dec f (r @ z))" if "dec d = Inr m" "f m = Inr p" for m p
      using 1 Some x that by blast
    with Some x split_frame_append [of b d r z] show ?thesis
      by (auto simp: framed_payloads.simps [of dec f b] framed_payloads.simps [of dec f "b @ z"] split: sum.split)
  qed
qed

lemma framed_payloads_prefix: "prefix x y \<Longrightarrow> prefix (framed_payloads dec f x) (framed_payloads dec f y)"
  by (auto elim!: prefixE simp: framed_payloads_append)

lemma framed_payloads_Nil [simp]: "framed_payloads dec f [] = []"
  by (simp add: framed_payloads.simps [of dec f "[]"] split_frame_def)

text \<open>The first frame of a connection that was cut is the one that was written first.\<close>

lemma first_frame:
  assumes "prefix (frame_bytes r' d' @ rest') (frame_bytes r d @ rest)" and "length d' \<le> max_frame" and "length d \<le> max_frame"
  shows "d' = d \<and> prefix rest' rest"
proof -
  from assms(1) obtain z where "frame_bytes r d @ rest = (frame_bytes r' d' @ rest') @ z" by (auto elim: prefixE)
  with split_frame_append [OF split_frame_frame [OF assms(2), of r' rest'], of z] split_frame_frame [OF assms(3), of r rest]
  show ?thesis by auto
qed

section \<open>What a framed connection carries\<close>

definition pb_carries ::
    "(bytes \<Rightarrow> string + 'm) \<Rightarrow> ('m \<Rightarrow> bytes io) \<Rightarrow> bytes \<Rightarrow> nat \<times> tcp_write_half \<Rightarrow> bytes \<Rightarrow> bool" where
  "pb_carries dec f pre s d \<longleftrightarrow> tw_err (snd s) = None
     \<and> (\<exists>b. tw_tx (snd s) = pre @ b \<and> (\<forall>rest. framed_payloads dec f (b @ rest) = d @ framed_payloads dec f rest))"

lemma pb_carries_new: "tw_err w = None \<Longrightarrow> pb_carries dec f (tw_tx w) (i, w) []"
  by (simp add: pb_carries_def)

lemma pb_carries_read:
  assumes "pb_carries dec f pre s d" and "prefix (pre @ x) (tw_tx (snd s))"
  shows "prefix (framed_payloads dec f x) d"
proof -
  from assms obtain b where "prefix x b" "\<forall>rest. framed_payloads dec f (b @ rest) = d @ framed_payloads dec f rest"
    by (auto simp: pb_carries_def)
  with framed_payloads_prefix [of x b dec f] spec [OF this(2), of "[]"] show ?thesis by simp
qed

text \<open>A chunk that fits, whatever is drawn for it.\<close>

definition pb_fits :: "('m \<Rightarrow> bytes) \<Rightarrow> (bytes \<Rightarrow> 'm) \<Rightarrow> 'k pb_env \<Rightarrow> bytes \<Rightarrow> bool" where
  "pb_fits enc mk env c \<longleftrightarrow> (\<forall>nonce r. length nonce = nonce_len \<longrightarrow> chunk_ok enc mk env (nonce, r, c))"

definition good_draws :: "draws \<Rightarrow> bool" where
  "good_draws draw \<longleftrightarrow> (\<forall>i. length (fst (draw i)) = nonce_len)"

lemma drawn_write:
  assumes codec: "codec_ok enc dec" and cr: "crypto_ok (pe_crypto env)"
    and wr: "\<And>nonce r w c. wr nonce r w c = (case pb_seal env nonce c of Inl e \<Rightarrow> (w, Inl e)
        | Inr p \<Rightarrow> write_frame tcp_half_write enc r (mk p) w)"
    and f: "\<And>p. f (mk p) = pb_payload env p"
    and draw: "good_draws draw" and s: "pb_carries dec f pre s d" and c: "pb_fits enc mk env c"
  shows "\<exists>s'. drawn wr draw s c = (s', Inr ()) \<and> pb_carries dec f pre s' (d @ c)"
proof -
  obtain i w where iw: "s = (i, w)" by fastforce
  obtain nonce r where nr: "draw i = (nonce, r)" by fastforce
  from s iw obtain b0 where b0: "tw_err w = None" "tw_tx w = pre @ b0"
    "\<And>rest. framed_payloads dec f (b0 @ rest) = d @ framed_payloads dec f rest" by (auto simp: pb_carries_def)
  have "length nonce = nonce_len" using draw nr unfolding good_draws_def by (metis fst_conv)
  with c have "\<forall>x \<in> set [(nonce, r, c)]. chunk_ok enc mk env x" by (simp add: pb_fits_def)
  from pb_write_many_payloads [of enc dec env wr mk f w "[(nonce, r, c)]", OF codec cr wr f b0(1) this]
  obtain w' b where b: "wr nonce r w c = (w', Inr ())" "tw_tx w' = tw_tx w @ b" "tw_err w' = None"
    "\<And>rest. framed_payloads dec f (b @ rest) = c @ framed_payloads dec f rest"
    by (auto simp: st_bind_eq_Inr)
  have "\<forall>rest. framed_payloads dec f ((b0 @ b) @ rest) = (d @ c) @ framed_payloads dec f rest"
    using b(4) b0(3) by simp
  then have "pb_carries dec f pre (Suc i, w') (d @ c)"
    unfolding pb_carries_def using b(2,3) b0(2) by (intro conjI exI [of _ "b0 @ b"]) simp_all
  with b(1) show ?thesis by (simp add: drawn_def iw nr)
qed

text \<open>A relay into a framed connection, and out of one.\<close>

lemma into_frames:
  assumes "codec_ok enc dec" and "crypto_ok (pe_crypto env)"
    and "\<And>nonce r w c. wr nonce r w c = (case pb_seal env nonce c of Inl e \<Rightarrow> (w, Inl e)
        | Inr p \<Rightarrow> write_frame tcp_half_write enc r (mk p) w)"
    and "\<And>p. f (mk p) = pb_payload env p" and "good_draws draw"
    and "\<And>c. length c \<le> TCP_IO_BUFFER_SIZE \<Longrightarrow> pb_fits enc mk env c"
  shows "chunk_path tcp_half_read tcp_pending (drawn wr draw) (pb_carries dec f pre) (pb_fits enc mk env)"
proof
  fix w d bs w'
  assume "pb_carries dec f pre w d" and "pb_fits enc mk env bs"
  from drawn_write [of enc dec env wr mk f draw, OF assms(1-5) this] obtain v
    where v: "drawn wr draw w bs = (v, Inr ())" "pb_carries dec f pre v (d @ bs)" by blast
  show "drawn wr draw w bs = (w', Inr ()) \<Longrightarrow> pb_carries dec f pre w' (d @ bs)" using v by simp
  show "drawn wr draw w bs = (w', Inl e) \<Longrightarrow> \<exists>k. pb_carries dec f pre w' (d @ take k bs)" for e using v by simp
qed (rule assms(6))

interpretation out_of_pb_server: relay_path "pb_server_half_read dec env"
    "cached_pending (\<lambda>h. framed_payloads dec (pb_server_payload env) (tcp_pending h))" tcp_half_write tw_tx for dec env
  unfolding pb_server_half_read_def
  by (rule relay_path.intro [OF pb_server_src.cached.byte_stream_axioms tcp_sink.byte_sink_axioms])

interpretation out_of_pb_client: relay_path "pb_client_half_read dec env"
    "cached_pending (\<lambda>h. framed_payloads dec (pb_client_payload env) (tcp_pending h))" tcp_half_write tw_tx for dec env
  unfolding pb_client_half_read_def
  by (rule relay_path.intro [OF pb_client_src.cached.byte_stream_axioms tcp_sink.byte_sink_axioms])

section \<open>The setup\<close>

text \<open>Whatever beginning of the connector's bytes the far listener gets: once its handshake succeeds, it
  has the address that was asked for, and what it still reads follows the first message.\<close>

lemma pb_far_setup:
  assumes "codec_ok enc dec" and "crypto_ok cr" and "length n1 = nonce_len" and "length n2 = nonce_len"
    and "cc_pw cfg = Some pw" and "length pw < 2 ^ 32" and "length host < 2 ^ 32"
    and "utf8_ok (bytes_of_str pw)" and "utf8_ok (bytes_of_str host)" and "parse_address addr = Inr (host, port)"
    and connect: "pb_tcp_connect dial enc cr n1 n2 r cfg addr = Inr cs" and "length (tw_tx (st_writer cs)) \<le> max_frame"
    and dispatch: "pb_conn_dispatch cr pw rd wr = Some (TCPStream s1)"
    and handshake: "pb_tcp_handshake dec cr pw s1 = (s2, Inr (addr', x))"
    and near: "prefix (tcp_pending rd) (tw_tx (st_writer cs) @ b)"
  shows "x = None \<and> addr' = \<lparr>ra_addr = host, ra_port = port, ra_udp = False\<rparr> \<and> ps_env s2 = ps_env cs
    \<and> (\<exists>rd2. msg_split s2 = (cached_new rd2, wr) \<and> prefix (tcp_pending rd2) b)"
proof -
  from pb_tcp_connect_ok [OF assms(10) connect] assms(5) obtain req
    where req: "pb_auth_req cr n1 n2 pw host port = Inr req"
      and tx: "tw_tx (st_writer cs) = CONN_TYPE_STREAM # frame_bytes r (enc req)"
      and env: "ps_env cs = \<lparr>pe_crypto = cr, pe_pw = pw, pe_encrypt = (port \<noteq> 443)\<rparr>"
    by auto
  from pb_auth_req_ok [OF assms(2,3,4,6-9), of port] req obtain a
    where a: "decrypt_field cr (sq_auth req) pw = Inr pw" "sq_dst_addr req = Some a"
      "decrypt_field cr a pw = Inr host" "sq_dst_port req = Some (u32_of_port port)" by auto
  from dispatch obtain rd1 t where t: "read_conn_type tcp_half_read rd = (rd1, Inr t)" "s1 = pb_server_stream_new cr rd1 wr"
    by (auto simp: pb_conn_dispatch_def split: prod.splits sum.splits if_splits)
  have st1: "ca_reader (st_reader s1) = rd1" "st_writer s1 = wr"
    by (simp_all add: t(2) pb_server_stream_new_def msg_stream_new_def msg_stream.defs pb_stream.defs cached_new_def)
  with handshake obtain rd2 req' where m: "read_msg tcp_half_read dec rd1 = (rd2, Inr req')"
    by (auto simp: pb_tcp_handshake_def pb_server_handshake_def msg_set_info_def Let_def split: prod.splits sum.splits)
  then obtain d' where d': "read_frame tcp_half_read rd1 = (rd2, Inr d')" "dec d' = Inr req'"
    by (auto simp: read_msg_eq_Inr)
  from tcp_half.read_frame_prefix [OF d'(1)] obtain r'
    where f: "tcp_pending rd1 = frame_bytes r' d' @ tcp_pending rd2" "length d' \<le> max_frame" by blast
  have "length (enc req) \<le> max_frame" using assms(12) by (simp add: tx frame_bytes_def)
  with near f conn_type_read_prefix [OF t(1)] first_frame [of r' d' "tcp_pending rd2" r "enc req" b]
  have same: "d' = enc req" and rest: "prefix (tcp_pending rd2) b" by (simp_all add: tx)
  with d'(2) assms(1) have req': "req' = req" by (simp add: codec_ok_def)
  have port: "u32_of_port port \<noteq> 443 \<longleftrightarrow> port \<noteq> 443"
    using port_of_u32_of_port [of port] port_of_u32_of_port [of 443] by (auto simp: u32_of_port_def)
  from handshake m a have "x = None" "addr' = \<lparr>ra_addr = host, ra_port = port, ra_udp = False\<rparr>"
    "ps_env s2 = ps_env cs" "ca_reader (st_reader s2) = rd2" "st_writer s2 = wr"
    by (auto simp: pb_tcp_handshake_def pb_server_handshake_def msg_set_info_def Let_def st1 req' env port)
  with rest show ?thesis by (auto simp: msg_split_def)
qed

lemma pb_client_carrying:
  assumes "codec_ok enc dec" and "crypto_ok (pe_crypto env)" and "good_draws draw"
    and "\<And>c. length c \<le> TCP_IO_BUFFER_SIZE \<Longrightarrow> pb_fits enc (\<lambda>p. stream_req_default\<lparr>sq_payload := Some p\<rparr>) env c"
  shows "chunk_path tcp_half_read tcp_pending (drawn (pb_client_half_write enc env) draw)
    (pb_carries dec (pb_server_payload env) pre) (pb_fits enc (\<lambda>p. stream_req_default\<lparr>sq_payload := Some p\<rparr>) env)"
  by (rule into_frames [OF assms(1,2) pb_client_half_write_def _ assms(3,4)]) (simp_all add: pb_server_payload_def)

lemma pb_server_carrying:
  assumes "codec_ok enc dec" and "crypto_ok (pe_crypto env)" and "good_draws draw"
    and "\<And>c. length c \<le> TCP_IO_BUFFER_SIZE \<Longrightarrow> pb_fits enc (\<lambda>p. \<lparr>sr_payload = p\<rparr>) env c"
  shows "chunk_path tcp_half_read tcp_pending (drawn (pb_server_half_write enc env) draw)
    (pb_carries dec (pb_client_payload env) pre) (pb_fits enc (\<lambda>p. \<lparr>sr_payload = p\<rparr>) env)"
  by (rule into_frames [OF assms(1,2) pb_server_half_write_def _ assms(3,4)]) (simp_all add: pb_client_payload_def)

section \<open>The relays\<close>

lemma copier_carries_out:
  assumes "copier_carries pending carries P d c"
  shows "\<exists>out. prefix out P \<and> carries (cp_wr c) (d @ out)"
proof -
  from assms obtain out rest where "P = out @ rest" "carries (cp_wr c) (d @ out)" by (auto simp: copier_carries_def)
  then show ?thesis by (intro exI [of _ out]) simp
qed

lemma tcp_split_simps:
  "tcp_pending (fst (tcp_split s)) = tcp_pending s" "tw_tx (snd (tcp_split s)) = ts_tx s"
  by (simp_all add: tcp_split_def tcp_pending_def)

lemma pb_near_relay:
  assumes path: "chunk_path tcp_half_read tcp_pending cwr (pb_carries dec f (tw_tx w)) fits" and "tw_err w = None"
    and "\<And>b. cache = Some b \<Longrightarrow> fits b"
    and "relay_start cwr cache (fst (tcp_split s)) (i, w) (cached_new h) (snd (tcp_split s)) = Inr a0"
    and "relay_reach tcp_half_read cwr (pb_client_half_read dec' env) tcp_half_write observed a0 a"
  shows "(\<exists>d. prefix d ((case cache of None \<Rightarrow> [] | Some c \<Rightarrow> c) @ tcp_pending s)
        \<and> pb_carries dec f (tw_tx w) (cp_wr (rl_s2c a)) d)
    \<and> (\<exists>u. prefix u (framed_payloads dec' (pb_client_payload env) (tcp_pending h))
        \<and> tw_tx (cp_wr (rl_c2s a)) = ts_tx s @ u)"
proof -
  note resp = out_of_pb_client.any.chunk_path_axioms [of dec' env]
  have start: "copier_carries tcp_pending (pb_carries dec f (tw_tx w)) (tcp_pending s)
        (case cache of None \<Rightarrow> [] | Some c \<Rightarrow> c) (rl_s2c a0)
    \<and> copier_carries (cached_pending (\<lambda>h. framed_payloads dec' (pb_client_payload env) (tcp_pending h)))
        (\<lambda>w d. tw_tx w = d) (framed_payloads dec' (pb_client_payload env) (tcp_pending h)) (ts_tx s) (rl_c2s a0)"
    using relay_start_carries [OF path resp assms(4) pb_carries_new [OF assms(2)], of "ts_tx s"] assms(3)
    by (auto simp: cached_pending_def cached_new_def tcp_split_simps)
  note r = relay_carries [OF path resp assms(5) conjunct1 [OF start] conjunct2 [OF start]]
  from copier_carries_out [OF conjunct1 [OF r]] obtain d where "prefix d (tcp_pending s)"
    "pb_carries dec f (tw_tx w) (cp_wr (rl_s2c a)) ((case cache of None \<Rightarrow> [] | Some c \<Rightarrow> c) @ d)" by blast
  with copier_carries_out [OF conjunct2 [OF r]] show ?thesis
    by (auto intro: exI [of _ "(case cache of None \<Rightarrow> [] | Some c \<Rightarrow> c) @ d"])
qed

lemma pb_far_relay:
  assumes path: "chunk_path tcp_half_read tcp_pending swr (pb_carries dec f (tw_tx w)) fits" and "tw_err w = None"
    and "relay_start tcp_half_write None (cached_new h) (snd (tcp_split t)) (fst (tcp_split t)) (i, w) = Inr b0"
    and "relay_reach (pb_server_half_read dec' env) tcp_half_write tcp_half_read swr observed b0 b"
  shows "(\<exists>u. prefix u (tcp_pending t) \<and> pb_carries dec f (tw_tx w) (cp_wr (rl_c2s b)) u)
    \<and> (\<exists>d. prefix d (framed_payloads dec' (pb_server_payload env) (tcp_pending h))
        \<and> tw_tx (cp_wr (rl_s2c b)) = ts_tx t @ d)"
proof -
  note there = out_of_pb_server.any.chunk_path_axioms [of dec' env]
  from assms(3) have b0: "b0 = \<lparr>rl_s2c = copier_new (cached_new h) (snd (tcp_split t)),
      rl_c2s = copier_new (fst (tcp_split t)) (i, w), rl_cancel = False\<rparr>" by (simp add: relay_start_def)
  have start: "copier_carries (cached_pending (\<lambda>h. framed_payloads dec' (pb_server_payload env) (tcp_pending h)))
        (\<lambda>w d. tw_tx w = d) (framed_payloads dec' (pb_server_payload env) (tcp_pending h)) (ts_tx t) (rl_s2c b0)
    \<and> copier_carries tcp_pending (pb_carries dec f (tw_tx w)) (tcp_pending t) [] (rl_c2s b0)"
    using chunk_path.copier_new_carries [OF there, of "snd (tcp_split t)" "ts_tx t" "cached_new h"]
      chunk_path.copier_new_carries [OF path pb_carries_new [OF assms(2)], of "fst (tcp_split t)"]
    by (simp add: b0 cached_pending_def cached_new_def tcp_split_simps)
  note r = relay_carries [OF there path assms(4) conjunct1 [OF start] conjunct2 [OF start]]
  from copier_carries_out [OF conjunct1 [OF r]] copier_carries_out [OF conjunct2 [OF r]] show ?thesis by auto
qed

section \<open>A chain that carries two bytes\<close>

definition demo_draw :: draws where
  "demo_draw i = (replicate 12 7, of_nat i)"

definition demo_pb_env :: "u8 pb_env" where
  "demo_pb_env = \<lparr>pe_crypto = toy_crypto, pe_pw = ''pw'', pe_encrypt = True\<rparr>"

lemma demo_good_draws: "good_draws demo_draw"
  by (simp add: good_draws_def demo_draw_def nonce_len_def)

lemma demo_pb_fits:
  assumes "length c \<le> TCP_IO_BUFFER_SIZE"
  shows "pb_fits enc_stream_req (\<lambda>p. stream_req_default\<lparr>sq_payload := Some p\<rparr>) demo_pb_env c"
    "pb_fits enc_stream_res (\<lambda>p. \<lparr>sr_payload = p\<rparr>) demo_pb_env c"
  using assms
  by (auto simp: pb_fits_def chunk_ok_def demo_pb_env_def pb_seal_def encrypt_bytes_def toy_crypto_def nonce_len_def
      enc_stream_req_def enc_stream_res_def stream_req_default_def max_frame_def put_str_def TCP_IO_BUFFER_SIZE_def Let_def)

text \<open>The payload of the two bytes, and the message that carries it.\<close>

definition demo_pb_payload :: bytes where
  "demo_pb_payload = (case pb_seal demo_pb_env (replicate 12 7) [1, 2] of Inr p \<Rightarrow> p)"

definition demo_pb_msg :: stream_req where
  "demo_pb_msg = stream_req_default\<lparr>sq_payload := Some demo_pb_payload\<rparr>"

lemma demo_pb_sealed:
  "pb_seal demo_pb_env (replicate 12 7) [1, 2] = Inr demo_pb_payload" "pb_payload demo_pb_env demo_pb_payload = Inr [1, 2]"
  "length (enc_stream_req demo_pb_msg) \<le> max_frame"
proof -
  have "\<exists>p. pb_seal demo_pb_env (replicate 12 7) [1, 2] = Inr p \<and> pb_payload demo_pb_env p = Inr [1, 2]"
    by (rule pb_seal_ok) (simp_all add: demo_pb_env_def nonce_len_def)
  then show 1: "pb_seal demo_pb_env (replicate 12 7) [1, 2] = Inr demo_pb_payload"
    "pb_payload demo_pb_env demo_pb_payload = Inr [1, 2]" by (auto simp: demo_pb_payload_def)
  have "length (replicate 12 (7 :: u8)) = nonce_len" by (simp add: nonce_len_def)
  with demo_pb_fits(1) [of "[1, 2]"] have "chunk_ok enc_stream_req (\<lambda>p. stream_req_default\<lparr>sq_payload := Some p\<rparr>)
      demo_pb_env (replicate 12 7, 0, [1, 2])"
    unfolding pb_fits_def by (simp add: TCP_IO_BUFFER_SIZE_def)
  with 1(1) show "length (enc_stream_req demo_pb_msg) \<le> max_frame" by (simp add: chunk_ok_def demo_pb_msg_def)
qed

text \<open>One round of the near proxy writes the message, one round of the far proxy reads it.\<close>

lemma demo_pb_near:
  assumes "tw_err w = None"
  shows "cp_wr (rl_s2c (one_round tcp_half_read (drawn (pb_client_half_write enc_stream_req demo_pb_env) demo_draw)
      (relay_at (fst (tcp_split demo_near_tcp)) (0, w) cr sw)))
    = (1, w\<lparr>tw_tx := tw_tx w @ frame_bytes 0 (enc_stream_req demo_pb_msg)\<rparr>)"
  using assms
  by (simp add: one_round_def relay_at_def copier_new_def copy_step_def tcp_half_read_def demo_near_tcp_def
      tcp_run_stream_new_def tcp_split_def TCP_IO_BUFFER_SIZE_def drawn_def demo_draw_def pb_client_half_write_def
      demo_pb_sealed(1) tcp_write_frame Let_def demo_pb_msg_def)

lemma demo_pb_far:
  assumes "tcp_clean rd" and "tcp_pending rd = frame_bytes 0 (enc_stream_req demo_pb_msg)"
  shows "tw_tx (cp_wr (rl_s2c (one_round (pb_server_half_read dec_stream_req demo_pb_env) tcp_half_write
      (relay_at (cached_new rd) (snd (tcp_split demo_far_tcp)) cr sw)))) = [1, 2]"
proof -
  have "tcp_pending rd = frame_bytes 0 (enc_stream_req demo_pb_msg) @ []" using assms(2) by simp
  from tcp_half.read_msg_ok [OF codec_stream_req assms(1) this demo_pb_sealed(3)] obtain rd'
    where "read_msg tcp_half_read dec_stream_req rd = (rd', Inr demo_pb_msg)" by blast
  then have "pb_server_next dec_stream_req demo_pb_env rd = (rd', Inr [1, 2])"
    by (simp add: pb_server_next_def st_bind_def demo_pb_msg_def demo_pb_sealed(2))
  then show ?thesis
    by (simp add: one_round_def relay_at_def copier_new_def copy_step_def pb_server_half_read_def cached_read_def
        cached_new_def TCP_IO_BUFFER_SIZE_def tcp_half_write_def tcp_split_def demo_far_tcp_def
        tcp_run_stream_new_def Let_def)
qed

section \<open>Properties\<close>

text \<open>C13: Two proxies with a framed TCP tunnel between them are transparent, encrypted (to any port but
  443) or not.  Once the far handshake has succeeded the far proxy is asked for the host and port
  the near one was, both use the same key and agree on whether they encrypt, and in every
  interleaving of both relays, however the network cuts and delays the two directions of the
  connection and whatever the nonces and random numbers, the target receives a prefix of what
  the client sent (the bytes the near listener read ahead first) and the client a prefix of what the
  target sent.\<close>

theorem pb_chain_transparent:
  assumes "codec_ok enc dec" and "codec_ok enc' dec'" and "crypto_ok cr"
    and "length n1 = nonce_len" and "length n2 = nonce_len" and "good_draws drawA" and "good_draws drawB"
    and "cc_pw cfg = Some pw" and "length pw < 2 ^ 32" and "length host < 2 ^ 32"
    and "utf8_ok (bytes_of_str pw)" and "utf8_ok (bytes_of_str host)" and "parse_address addr = Inr (host, port)"
    and "pb_tcp_connect dial enc cr n1 n2 r cfg addr = Inr cs" and "length (tw_tx (st_writer cs)) \<le> max_frame"
    and "\<And>c. length c \<le> TCP_IO_BUFFER_SIZE \<or> cache = Some c \<Longrightarrow>
      pb_fits enc (\<lambda>p. stream_req_default\<lparr>sq_payload := Some p\<rparr>) (ps_env cs) c"
    and "\<And>c. length c \<le> TCP_IO_BUFFER_SIZE \<Longrightarrow> pb_fits enc' (\<lambda>p. \<lparr>sr_payload = p\<rparr>) (ps_env cs) c"
    and "relay_start (drawn (pb_client_half_write enc (snd (snd (pb_client_split cs)))) drawA) cache (fst (tcp_split s))
      (0, fst (snd (pb_client_split cs))) (fst (fst (pb_client_split cs))) (snd (tcp_split s)) = Inr a0"
    and "relay_reach tcp_half_read (drawn (pb_client_half_write enc (snd (snd (pb_client_split cs)))) drawA)
      (pb_client_half_read dec' (snd (fst (pb_client_split cs)))) tcp_half_write obsA a0 a"
    and "pb_conn_dispatch cr pw rd wr = Some (TCPStream s1)" and "wr = \<lparr>tw_tx = [], tw_err = None\<rparr>"
    and "pb_tcp_handshake dec cr pw s1 = (s2, Inr (addr', x))"
    and "relay_start tcp_half_write x (fst (fst (pb_server_split s2))) (snd (tcp_split t)) (fst (tcp_split t))
      (0, fst (snd (pb_server_split s2))) = Inr b0"
    and "relay_reach (pb_server_half_read dec (snd (fst (pb_server_split s2)))) tcp_half_write tcp_half_read
      (drawn (pb_server_half_write enc' (snd (snd (pb_server_split s2)))) drawB) obsB b0 b"
    and "prefix (tcp_pending rd) (tw_tx (snd (cp_wr (rl_s2c a))))"
    and "prefix (tcp_pending (ca_reader (st_reader cs))) (tw_tx (snd (cp_wr (rl_c2s b))))"
  shows "addr' = \<lparr>ra_addr = host, ra_port = port, ra_udp = False\<rparr>
    \<and> ps_env s2 = \<lparr>pe_crypto = cr, pe_pw = pw, pe_encrypt = (port \<noteq> 443)\<rparr> \<and> ps_env cs = ps_env s2
    \<and> (\<exists>d. prefix d ((case cache of None \<Rightarrow> [] | Some c \<Rightarrow> c) @ tcp_pending s) \<and> tw_tx (cp_wr (rl_s2c b)) = ts_tx t @ d)
    \<and> (\<exists>u. prefix u (tcp_pending t) \<and> tw_tx (cp_wr (rl_c2s a)) = ts_tx s @ u)"
proof -
  let ?env = "ps_env cs" and ?w = "st_writer cs" and ?h = "ca_reader (st_reader cs)"
  from pb_tcp_connect_ok [OF assms(13,14)] assms(8)
  have env: "?env = \<lparr>pe_crypto = cr, pe_pw = pw, pe_encrypt = (port \<noteq> 443)\<rparr>" "tw_err ?w = None" by auto
  then have cr: "crypto_ok (pe_crypto ?env)" using assms(3) by simp
  note run = assms(18,19,23,24) [unfolded pb_client_split_def pb_server_split_def fst_conv snd_conv]
  note into = pb_client_carrying [OF assms(1) cr assms(6,16), simplified]
  note near = pb_near_relay [OF into env(2) _ run(1,2), simplified]
  obtain d where d: "prefix d ((case cache of None \<Rightarrow> [] | Some c \<Rightarrow> c) @ tcp_pending s)"
    "pb_carries dec (pb_server_payload ?env) (tw_tx ?w) (cp_wr (rl_s2c a)) d"
    and resp: "\<exists>u. prefix u (framed_payloads dec' (pb_client_payload ?env) (tcp_pending ?h))
        \<and> tw_tx (cp_wr (rl_c2s a)) = ts_tx s @ u"
    using near assms(16) by auto
  from d(2) obtain z where z: "tw_tx (snd (cp_wr (rl_s2c a))) = tw_tx ?w @ z" by (auto simp: pb_carries_def)
  from pb_far_setup [OF assms(1,3,4,5,8-15,20,22), of z] assms(25) z obtain rd2
    where far: "x = None" "addr' = \<lparr>ra_addr = host, ra_port = port, ra_udp = False\<rparr>" "ps_env s2 = ?env"
      "msg_split s2 = (cached_new rd2, wr)" "prefix (tcp_pending rd2) z" by auto
  from far(4) have rd2: "cached_new (ca_reader (st_reader s2)) = cached_new rd2" "st_writer s2 = wr"
    by (simp_all add: msg_split_def)
  have there: "prefix (framed_payloads dec (pb_server_payload ?env) (tcp_pending rd2)) d"
    by (rule pb_carries_read [OF d(2)]) (simp add: z far(5))
  have wr: "tw_err wr = None" "tw_tx wr = []" by (simp_all add: assms(21))
  note out = pb_server_carrying [OF assms(2) cr assms(7,17), of "tw_tx wr", simplified]
  note far_relay = pb_far_relay [OF out wr(1), of rd2 t 0 b0 dec "ps_env s2" obsB b]
  obtain u e where u: "prefix u (tcp_pending t)" "pb_carries dec' (pb_client_payload ?env) (tw_tx wr) (cp_wr (rl_c2s b)) u"
    and e: "prefix e (framed_payloads dec (pb_server_payload ?env) (tcp_pending rd2))" "tw_tx (cp_wr (rl_s2c b)) = ts_tx t @ e"
    using far_relay run(3,4) far rd2 by auto
  have back_prefix: "prefix (framed_payloads dec' (pb_client_payload ?env) (tcp_pending ?h)) u"
    by (rule pb_carries_read [OF u(2)]) (simp add: wr(2) assms(26))
  from env far there d(1) e u(1) resp back_prefix show ?thesis by (auto intro: prefix_of_prefix)
qed

lemma pb_chain_transparent_witness:
  "\<exists>rd s1 s2 b0 b. pb_conn_dispatch toy_crypto ''pw'' rd \<lparr>tw_tx = [], tw_err = None\<rparr> = Some (TCPStream s1)
    \<and> pb_tcp_handshake dec_stream_req toy_crypto ''pw'' s1 =
        (s2, Inr (\<lparr>ra_addr = ''a.b'', ra_port = 80, ra_udp = False\<rparr>, None))
    \<and> relay_reach (pb_server_half_read dec_stream_req (ps_env s2)) tcp_half_write tcp_half_read
        (drawn (pb_server_half_write enc_stream_res (ps_env s2)) demo_draw) False b0 b
    \<and> tw_tx (cp_wr (rl_s2c b)) = [1, 2] \<and> (\<exists>d. prefix d [1, 2] \<and> tw_tx (cp_wr (rl_s2c b)) = d)"
proof -
  let ?env = demo_pb_env and ?wr = "\<lparr>tw_tx = [], tw_err = None\<rparr>" and ?fr = "frame_bytes 0 (enc_stream_req demo_pb_msg)"
  let ?A = "drawn (pb_client_half_write enc_stream_req ?env) demo_draw"
  let ?B = "drawn (pb_server_half_write enc_stream_res ?env) demo_draw"
  have u: "utf8_ok (bytes_of_str ''pw'')" "utf8_ok (bytes_of_str ''a.b'')" by code_simp+
  have n: "length (replicate 12 1) = nonce_len" "length (replicate 12 2) = nonce_len" by (simp_all add: nonce_len_def)
  have pw: "cc_pw demo_connector = Some ''pw''" by (simp add: demo_connector_def)
  have l: "length ''pw'' < 2 ^ 32" "length ''a.b'' < 2 ^ 32" by simp_all
  from demo_pb_connect obtain cs where cs: "pb_tcp_connect (\<lambda>_. Inr []) enc_stream_req toy_crypto (replicate 12 1)
      (replicate 12 2) 7 demo_connector ''a.b:80'' = Inr cs" and len: "length (tw_tx (st_writer cs)) \<le> max_frame"
    and h: "st_reader cs = cached_new \<lparr>ts_rx = []\<rparr>" by blast
  from pb_tcp_connect_ok [OF demo_address cs] pw
  have env: "ps_env cs = ?env" "tw_err (st_writer cs) = None" by (auto simp: demo_pb_env_def)
  let ?as = "relay_at (fst (tcp_split demo_near_tcp)) (0 :: nat, st_writer cs) (cached_new (ca_reader (st_reader cs))) (snd (tcp_split demo_near_tcp))"
  let ?ae = "one_round tcp_half_read ?A ?as" and ?rd = "\<lparr>ts_rx = [Segment (tw_tx (st_writer cs) @ ?fr)]\<rparr>"
  have rd: "tcp_clean ?rd" "tcp_pending ?rd = tw_tx (st_writer cs) @ ?fr" by (simp_all add: tcp_clean_def tcp_pending_def)
  from pb_tunnel_setup [OF codec_stream_req toy_crypto_ok n pw l u demo_address cs len rd, of ?wr] obtain s1 s2
    where s: "pb_conn_dispatch toy_crypto ''pw'' ?rd ?wr = Some (TCPStream s1)"
      "pb_tcp_handshake dec_stream_req toy_crypto ''pw'' s1 = (s2, Inr (\<lparr>ra_addr = ''a.b'', ra_port = 80, ra_udp = False\<rparr>, None))"
      "ps_env s2 = ?env" "tcp_pending (ca_reader (st_reader s2)) = ?fr" "st_writer s2 = ?wr" "tcp_clean (ca_reader (st_reader s2))"
    by (auto simp: env)
  let ?bs = "relay_at (cached_new (ca_reader (st_reader s2))) (snd (tcp_split demo_far_tcp)) (fst (tcp_split demo_far_tcp)) (0 :: nat, st_writer s2)"
  let ?be = "one_round (pb_server_half_read dec_stream_req ?env) tcp_half_write ?bs"
  have far: "tw_tx (cp_wr (rl_s2c ?be)) = [1, 2]" by (rule demo_pb_far [OF s(6,4)])
  have b: "relay_start tcp_half_write None (cached_new (ca_reader (st_reader s2))) (snd (tcp_split demo_far_tcp)) (fst (tcp_split demo_far_tcp))
      (0, st_writer s2) = Inr ?bs" by (simp add: relay_start_def relay_at_def)
  have a: "relay_start (drawn (pb_client_half_write enc_stream_req (ps_env cs)) demo_draw) None (fst (tcp_split demo_near_tcp)) (0, st_writer cs) (cached_new (ca_reader (st_reader cs)))
      (snd (tcp_split demo_near_tcp)) = Inr ?as" by (simp add: relay_start_def relay_at_def)
  have near: "prefix (tcp_pending ?rd) (tw_tx (snd (cp_wr (rl_s2c ?ae))))" by (simp add: demo_pb_near [OF env(2)] rd(2))
  have none: "prefix (tcp_pending (ca_reader (st_reader cs))) (tw_tx (snd (cp_wr (rl_c2s ?be))))"
    by (simp add: h cached_new_def tcp_pending_def)
  have fits: "pb_fits enc_stream_req (\<lambda>p. stream_req_default\<lparr>sq_payload := Some p\<rparr>) (ps_env cs) c"
    if "length c \<le> TCP_IO_BUFFER_SIZE \<or> None = Some c" for c using that demo_pb_fits(1) by (simp add: env(1))
  have fits': "pb_fits enc_stream_res (\<lambda>p. \<lparr>sr_payload = p\<rparr>) (ps_env cs) c"
    if "length c \<le> TCP_IO_BUFFER_SIZE" for c using that demo_pb_fits(2) by (simp add: env(1))
  have reach: "relay_reach tcp_half_read (drawn (pb_client_half_write enc_stream_req (ps_env cs)) demo_draw)
      (pb_client_half_read dec_stream_res (ps_env cs)) tcp_half_write False ?as ?ae"
    unfolding env(1) by (rule one_round_reach)
  have reach': "relay_reach (pb_server_half_read dec_stream_req (ps_env s2)) tcp_half_write tcp_half_read
      (drawn (pb_server_half_write enc_stream_res (ps_env s2)) demo_draw) False ?bs ?be"
    unfolding s(3) by (rule one_round_reach)
  note result = pb_chain_transparent [unfolded pb_client_split_def pb_server_split_def fst_conv snd_conv,
      OF codec_stream_req codec_stream_res toy_crypto_ok n demo_good_draws demo_good_draws
      pw l u demo_address cs len fits fits' a reach s(1) refl s(2) b reach' near none]
  then have "\<exists>d. prefix d [1, 2] \<and> tw_tx (cp_wr (rl_s2c ?be)) = d"
    by (simp add: demo_near_tcp_def demo_far_tcp_def tcp_run_stream_new_def tcp_pending_def)
  with s(1,2) reach' far show ?thesis by blast
qed

end
