(* ===== verification/Accept_Queue.thy ===== *)
theory Accept_Queue
  imports Tunnel
begin

text \<open>
  What the listeners of \<open>src/listener/pb_tcp.rs\<close>, \<open>src/listener/grpc.rs\<close> and \<open>src/listener/rev_grpc.rs\<close> have in
  common: a task that sends streams and UDP associations over two channels of capacity eight, and an
  \<open>accept\<close> that takes from either.  \<open>queue_move\<close> is the specification of such a listener, on its two
  channels and on what was sent, taken and refused; the locale \<open>accept_task\<close> says that a step
  relation implements it, and has the invariant that follows.
\<close>

section \<open>The channels\<close>

text \<open>The streams and the associations among the items.\<close>

fun item_streams :: "('s, 'u) acc_stream list \<Rightarrow> 's list" where
  "item_streams [] = []"
| "item_streams (TCPStream s # r) = s # item_streams r"
| "item_streams (UDPSocket u # r) = item_streams r"

fun item_udps :: "('s, 'u) acc_stream list \<Rightarrow> 'u list" where
  "item_udps [] = []"
| "item_udps (TCPStream s # r) = item_udps r"
| "item_udps (UDPSocket u # r) = u # item_udps r"

lemma items_append [simp]:
  "item_streams (xs @ ys) = item_streams xs @ item_streams ys"
  "item_udps (xs @ ys) = item_udps xs @ item_udps ys"
  by (induction xs rule: item_streams.induct) simp_all

lemma items_mem: "s \<in> set (item_streams xs) \<longleftrightarrow> TCPStream s \<in> set xs" "u \<in> set (item_udps xs) \<longleftrightarrow> UDPSocket u \<in> set xs"
  by (induction xs rule: item_streams.induct) simp_all

definition enqueue :: "('s, 'u) acc_stream \<Rightarrow> ('s, 'u) acc_queues \<Rightarrow> ('s, 'u) acc_queues option" where
  "enqueue x q = (case x of TCPStream s \<Rightarrow> send_stream s q | UDPSocket u \<Rightarrow> send_udp u q)"

lemma pb_enqueue_eq: "pb_enqueue = enqueue"
  by (intro ext) (simp add: pb_enqueue_def enqueue_def)

lemma enqueue_simps [simp]:
  "enqueue (TCPStream s) q = send_stream s q" "enqueue (UDPSocket u) q = send_udp u q"
  by (simp_all add: enqueue_def)

definition queues_ok :: "'s list \<Rightarrow> 'u list \<Rightarrow> 's list \<Rightarrow> 'u list \<Rightarrow> ('s, 'u) acc_queues \<Rightarrow> bool" where
  "queues_ok ss us ts tu q \<longleftrightarrow> ts @ aq_streams q = ss \<and> tu @ aq_udps q = us
     \<and> length (aq_streams q) \<le> queue_cap \<and> length (aq_udps q) \<le> queue_cap"

lemma enqueue_ok:
  assumes "enqueue x q = Some q'" and "queues_ok ss us ts tu q"
  shows "queues_ok (ss @ item_streams [x]) (us @ item_udps [x]) ts tu q' \<and> aq_open q' = aq_open q"
  using assms
  by (cases x) (auto simp: send_stream_def send_udp_def queues_ok_def split: if_splits)

lemma queue_accept_ok:
  assumes "queue_accept b m1 m2 q = Some (q', Inr (x, a))" and "queues_ok ss us ts tu q"
  shows "queues_ok ss us (ts @ item_streams [x]) (tu @ item_udps [x]) q' \<and> aq_open q' = aq_open q"
  using assms
  by (auto simp: queue_accept_def recv_udp_def recv_stream_def queues_ok_def Let_def
      split: list.splits if_splits option.splits)

lemma queue_accept_err:
  assumes "queue_accept b m1 m2 q = Some (q', Inl e)"
  shows "q' = q \<and> \<not> aq_open q"
  using assms
  by (auto simp: queue_accept_def recv_udp_def recv_stream_def Let_def split: list.splits if_splits option.splits)

lemma enqueue_open: "enqueue x q = Some q' \<Longrightarrow> aq_open q' = aq_open q"
  by (cases x) (auto simp: send_stream_def send_udp_def split: if_splits)

lemma queue_accept_open: "queue_accept b m1 m2 q = Some (q', r) \<Longrightarrow> aq_open q' = aq_open q"
  by (auto simp: queue_accept_def recv_udp_def recv_stream_def Let_def split: list.splits if_splits option.splits)

section \<open>The specification\<close>

text \<open>The channels, what was sent to them, what \<open>accept\<close> returned, and how often it failed.\<close>

type_synonym ('s, 'u) queue_view =
  "('s, 'u) acc_queues \<times> ('s, 'u) acc_stream list \<times> ('s, 'u) acc_stream list \<times> nat"

inductive queue_move :: "('s, 'u) queue_view \<Rightarrow> ('s, 'u) queue_view \<Rightarrow> bool" where
  qm_keep: "queue_move v v"
| qm_close: "queue_move (q, s, t, n) (q\<lparr>aq_open := False\<rparr>, s, t, n)"
| qm_send: "enqueue x q = Some q' \<Longrightarrow> queue_move (q, s, t, n) (q', s @ [x], t, n)"
| qm_take: "queue_accept b m1 m2 q = Some (q', Inr (x, a)) \<Longrightarrow> queue_move (q, s, t, n) (q', s, t @ [x], n)"
| qm_fail: "queue_accept b m1 m2 q = Some (q', Inl e) \<Longrightarrow> queue_move (q, s, t, n) (q', s, t, Suc n)"

definition view_ok :: "('s, 'u) queue_view \<Rightarrow> bool" where
  "view_ok v \<longleftrightarrow> (case v of (q, s, t, n) \<Rightarrow>
     queues_ok (item_streams s) (item_udps s) (item_streams t) (item_udps t) q \<and> (0 < n \<longrightarrow> \<not> aq_open q))"

lemma view_ok_new [simp]: "view_ok (acc_queues_new, [], [], 0)"
  by (simp add: view_ok_def queues_ok_def acc_queues_new_def)

lemma queue_move_ok: "queue_move v v' \<Longrightarrow> view_ok v \<Longrightarrow> view_ok v'"
proof (induction rule: queue_move.induct)
  case (qm_send x q q' s t n)
  then show ?case using enqueue_ok [OF qm_send(1)] by (auto simp: view_ok_def)
next
  case (qm_take b m1 m2 q q' x a s t n)
  then show ?case using queue_accept_ok [OF qm_take(1)] by (auto simp: view_ok_def)
next
  case (qm_fail b m1 m2 q q' e s t n)
  then show ?case using queue_accept_err [OF qm_fail(1)] by (auto simp: view_ok_def)
qed (auto simp: view_ok_def queues_ok_def)

locale accept_task =
  fixes step :: "'w \<Rightarrow> 'w \<Rightarrow> bool" and view :: "'w \<Rightarrow> ('s, 'u) queue_view"
  assumes refines: "step w w' \<Longrightarrow> queue_move (view w) (view w')"
begin

lemma step_ok: "step w w' \<Longrightarrow> view_ok (view w) \<Longrightarrow> view_ok (view w')"
  by (rule queue_move_ok [OF refines])

lemma delivered:
  assumes "view_ok (view w)" and "view w = (q, s, t, n)"
  shows "item_streams t @ aq_streams q = item_streams s" "item_udps t @ aq_udps q = item_udps s"
    "length (aq_streams q) \<le> 8" "length (aq_udps q) \<le> 8" "0 < n \<longrightarrow> \<not> aq_open q"
  using assms by (simp_all add: view_ok_def queues_ok_def queue_cap_def)

text \<open>Whatever \<open>accept\<close> returned had been sent.\<close>

lemma taken_sent:
  assumes "view_ok (view w)" and "view w = (q, s, t, n)"
  shows "set t \<subseteq> set s"
proof
  fix x assume x: "x \<in> set t"
  show "x \<in> set s"
  proof (cases x)
    case (TCPStream y)
    with x have "y \<in> set (item_streams t)" by (simp add: items_mem)
    then have "y \<in> set (item_streams s)" using delivered(1) [OF assms] by (metis Un_iff set_append)
    with TCPStream show ?thesis by (simp add: items_mem)
  next
    case (UDPSocket y)
    with x have "y \<in> set (item_udps t)" by (simp add: items_mem)
    then have "y \<in> set (item_udps s)" using delivered(2) [OF assms] by (metis Un_iff set_append)
    with UDPSocket show ?thesis by (simp add: items_mem)
  qed
qed

end

section \<open>Lists of waiting tasks\<close>

definition remove_at :: "nat \<Rightarrow> 'a list \<Rightarrow> 'a list" where
  "remove_at i xs = take i xs @ drop (Suc i) xs"

lemma remove_at:
  assumes "i < length xs"
  shows "set (remove_at i xs) \<subseteq> set xs" "length (remove_at i xs) = length xs - 1"
  using assms set_take_subset [of i xs] set_drop_subset [of "Suc i" xs] by (auto simp: remove_at_def)

end
