(* ===== verification/Tunnel_Listener.thy ===== *)
theory Tunnel_Listener
  imports Accept_Queue
begin

text \<open>
  The background task of \<open>src/listener/pb_tcp.rs\<close>: it binds, accepts connections and spawns a task for
  each, which reads the type of the connection and sends the stream or the UDP association to the
  acceptor over a channel of capacity eight; \<open>accept\<close> takes from either channel.

  One step is what one of these tasks does between two points where it waits.  The fields \<open>pl_seen\<close>,
  \<open>pl_sent\<close>, \<open>pl_taken\<close> and \<open>pl_dropped\<close> only record what happened.
\<close>

section \<open>The tasks\<close>

type_synonym 'k pb_item = "('k pb_stream, pb_udp_conn) acc_stream"

record 'k pb_listener =
  pl_bound :: "bool option"
  pl_conns :: "(tcp_read_half \<times> tcp_write_half) list"
  pl_waiting :: "'k pb_item list"
  pl_queues :: "('k pb_stream, pb_udp_conn) acc_queues"
  pl_seen :: "(tcp_read_half \<times> tcp_write_half) list"
  pl_sent :: "'k pb_item list"
  pl_taken :: "'k pb_item list"
  pl_dropped :: nat
  pl_errors :: nat

definition pb_listener_new :: "'k pb_listener" where
  "pb_listener_new = \<lparr>pl_bound = None, pl_conns = [], pl_waiting = [], pl_queues = acc_queues_new,
     pl_seen = [], pl_sent = [], pl_taken = [], pl_dropped = 0, pl_errors = 0\<rparr>"

text \<open>Once the bind has failed the task returns, and its senders, the only ones, are gone.\<close>

definition pl_bind :: "bool \<Rightarrow> 'k pb_listener \<Rightarrow> 'k pb_listener" where
  "pl_bind ok l =
     (if ok then l\<lparr>pl_bound := Some True\<rparr>
      else l\<lparr>pl_bound := Some False, pl_queues := (pl_queues l)\<lparr>aq_open := False\<rparr>\<rparr>)"

definition pl_classify :: "'k crypto \<Rightarrow> string \<Rightarrow> nat \<Rightarrow> 'k pb_listener \<Rightarrow> 'k pb_listener" where
  "pl_classify cr auth i l =
     (case pl_conns l ! i of (rd, wr) \<Rightarrow>
        (case pb_conn_dispatch cr auth rd wr of
           None \<Rightarrow> l\<lparr>pl_conns := remove_at i (pl_conns l), pl_dropped := Suc (pl_dropped l)\<rparr>
         | Some x \<Rightarrow> l\<lparr>pl_conns := remove_at i (pl_conns l), pl_waiting := pl_waiting l @ [x]\<rparr>))"

inductive pb_listener_step :: "'k crypto \<Rightarrow> string \<Rightarrow> 'k pb_listener \<Rightarrow> 'k pb_listener \<Rightarrow> bool"
  for cr auth where
  pl_bind: "pl_bound l = None \<Longrightarrow> pb_listener_step cr auth l (pl_bind ok l)"
| pl_conn: "pl_bound l = Some True \<Longrightarrow>
     pb_listener_step cr auth l (l\<lparr>pl_conns := pl_conns l @ [c], pl_seen := pl_seen l @ [c]\<rparr>)"
| pl_classify: "i < length (pl_conns l) \<Longrightarrow> pb_listener_step cr auth l (pl_classify cr auth i l)"
| pl_send: "i < length (pl_waiting l) \<Longrightarrow> x = pl_waiting l ! i \<Longrightarrow> pb_enqueue x (pl_queues l) = Some q \<Longrightarrow>
     pb_listener_step cr auth l
       (l\<lparr>pl_waiting := remove_at i (pl_waiting l), pl_queues := q, pl_sent := pl_sent l @ [x]\<rparr>)"
| pl_accept: "pb_tcp_accept udp_first (pl_queues l) = Some (q, Inr (x, a)) \<Longrightarrow>
     pb_listener_step cr auth l (l\<lparr>pl_queues := q, pl_taken := pl_taken l @ [x]\<rparr>)"
| pl_accept_err: "pb_tcp_accept udp_first (pl_queues l) = Some (q, Inl e) \<Longrightarrow>
     pb_listener_step cr auth l (l\<lparr>pl_queues := q, pl_errors := Suc (pl_errors l)\<rparr>)"

inductive pb_listener_reach :: "'k crypto \<Rightarrow> string \<Rightarrow> 'k pb_listener \<Rightarrow> bool"
  for cr auth where
  pl_start: "pb_listener_reach cr auth pb_listener_new"
| pl_next: "pb_listener_reach cr auth l \<Longrightarrow> pb_listener_step cr auth l l' \<Longrightarrow> pb_listener_reach cr auth l'"

section \<open>The channels\<close>

definition pl_view :: "'k pb_listener \<Rightarrow> ('k pb_stream, pb_udp_conn) queue_view" where
  "pl_view l = (pl_queues l, pl_sent l, pl_taken l, pl_errors l)"

interpretation pb_task: accept_task "pb_listener_step cr auth" pl_view for cr auth
proof
  fix l l'
  assume "pb_listener_step cr auth l l'"
  then show "queue_move (pl_view l) (pl_view l')"
    by cases (auto simp: pl_view_def pl_bind_def pl_classify_def pb_enqueue_eq pb_tcp_accept_def
        intro: queue_move.intros split: prod.split option.split)
qed

section \<open>The invariant\<close>

definition from_seen :: "'k crypto \<Rightarrow> string \<Rightarrow> (tcp_read_half \<times> tcp_write_half) list \<Rightarrow> 'k pb_item \<Rightarrow> bool" where
  "from_seen cr auth cs x \<longleftrightarrow> (\<exists>rd wr. (rd, wr) \<in> set cs \<and> pb_conn_dispatch cr auth rd wr = Some x)"

definition pb_listener_inv :: "'k crypto \<Rightarrow> string \<Rightarrow> 'k pb_listener \<Rightarrow> bool" where
  "pb_listener_inv cr auth l \<longleftrightarrow> view_ok (pl_view l)
   \<and> set (pl_conns l) \<subseteq> set (pl_seen l) \<and> (\<forall>x \<in> set (pl_waiting l) \<union> set (pl_sent l). from_seen cr auth (pl_seen l) x)
   \<and> length (pl_seen l) = length (pl_conns l) + length (pl_waiting l) + length (pl_sent l) + pl_dropped l
   \<and> (aq_open (pl_queues l) \<longleftrightarrow> pl_bound l \<noteq> Some False) \<and> (pl_bound l \<noteq> Some True \<longrightarrow> pl_seen l = [])"

lemma from_seen_mono: "from_seen cr auth cs x \<Longrightarrow> set cs \<subseteq> set cs' \<Longrightarrow> from_seen cr auth cs' x"
  unfolding from_seen_def by blast

text \<open>The channels are those of the specification; the rest of the invariant is about the tasks.\<close>

lemma pb_listener_step_inv:
  assumes step: "pb_listener_step cr auth l l'" and inv: "pb_listener_inv cr auth l"
  shows "pb_listener_inv cr auth l'"
proof -
  have v: "view_ok (pl_view l')"
    using pb_task.step_ok [OF step] inv by (simp add: pb_listener_inv_def)
  from step show ?thesis
  proof cases
    case (pl_bind ok)
    then show ?thesis using inv v by (auto simp: pb_listener_inv_def pl_bind_def)
  next
    case (pl_conn c)
    then show ?thesis using inv v by (auto simp: pb_listener_inv_def intro: from_seen_mono)
  next
    case (pl_classify i)
    obtain rd wr where c: "pl_conns l ! i = (rd, wr)" by fastforce
    with pl_classify(2) have "(rd, wr) \<in> set (pl_conns l)" by (metis nth_mem)
    then have m: "(rd, wr) \<in> set (pl_seen l)" using inv by (auto simp: pb_listener_inv_def)
    note r = remove_at [OF pl_classify(2)]
    show ?thesis
    proof (cases "pb_conn_dispatch cr auth rd wr")
      case None
      then show ?thesis using inv r v pl_classify(2)
        by (auto simp: pl_classify(1) pb_listener_inv_def pl_classify_def c)
    next
      case (Some x)
      then have "from_seen cr auth (pl_seen l) x" using m by (auto simp: from_seen_def)
      with Some show ?thesis using inv r v pl_classify(2)
        by (auto simp: pl_classify(1) pb_listener_inv_def pl_classify_def c)
    qed
  next
    case (pl_send i x q)
    have "from_seen cr auth (pl_seen l) x" using pl_send(2,3) inv by (auto simp: pb_listener_inv_def)
    with v inv remove_at [OF pl_send(2)] pl_send(2) enqueue_open [OF pl_send(4) [unfolded pb_enqueue_eq]]
    show ?thesis by (auto simp: pl_send(1) pb_listener_inv_def)
  next
    case (pl_accept udp_first q x a)
    with v inv queue_accept_open [OF pl_accept(2) [unfolded pb_tcp_accept_def]] show ?thesis
      by (simp add: pb_listener_inv_def)
  next
    case (pl_accept_err udp_first q e)
    with v inv queue_accept_open [OF pl_accept_err(2) [unfolded pb_tcp_accept_def]] show ?thesis
      by (simp add: pb_listener_inv_def)
  qed
qed

lemma pb_listener_reach_inv: "pb_listener_reach cr auth l \<Longrightarrow> pb_listener_inv cr auth l"
proof (induction rule: pb_listener_reach.induct)
  case pl_start
  show ?case by (simp add: pb_listener_inv_def pb_listener_new_def pl_view_def) (simp add: acc_queues_new_def)
next
  case (pl_next l l')
  then show ?case by (blast intro: pb_listener_step_inv)
qed

text \<open>A connection that announces UDP, seen, classified, sent and accepted.\<close>

definition demo_udp_conn :: "tcp_read_half \<times> tcp_write_half" where
  "demo_udp_conn = (\<lparr>ts_rx = [Segment [CONN_TYPE_UDP, 9]]\<rparr>, \<lparr>tw_tx = [], tw_err = None\<rparr>)"

definition demo_assoc :: "'k pb_item" where
  "demo_assoc = UDPSocket (\<lparr>ts_rx = [Segment [9]]\<rparr>, \<lparr>tw_tx = [], tw_err = None\<rparr>, ''pw'')"

lemma demo_conn_dispatch: "pb_conn_dispatch cr ''pw'' (fst demo_udp_conn) (snd demo_udp_conn) = Some demo_assoc"
proof -
  have "read_conn_type tcp_half_read \<lparr>ts_rx = [Segment [CONN_TYPE_UDP, 9]]\<rparr> = (\<lparr>ts_rx = [Segment [9]]\<rparr>, Inr CONN_TYPE_UDP)"
    by code_simp
  moreover have "CONN_TYPE_UDP \<noteq> CONN_TYPE_STREAM" by code_simp
  ultimately show ?thesis by (simp add: pb_conn_dispatch_def demo_udp_conn_def demo_assoc_def)
qed

definition demo_listener :: "'k pb_listener" where
  "demo_listener = pb_listener_new\<lparr>pl_bound := Some True, pl_seen := [demo_udp_conn], pl_sent := [demo_assoc],
     pl_taken := [demo_assoc]\<rparr>"

lemma demo_listener_reach:
  fixes cr :: "'k crypto"
  shows "pb_listener_reach cr ''pw'' demo_listener"
proof -
  let ?l0 = "pb_listener_new :: 'k pb_listener"
  let ?l1 = "pl_bind True ?l0"
  let ?l2 = "?l1\<lparr>pl_conns := pl_conns ?l1 @ [demo_udp_conn], pl_seen := pl_seen ?l1 @ [demo_udp_conn]\<rparr>"
  let ?l3 = "pl_classify cr ''pw'' 0 ?l2"
  let ?m = "?l0\<lparr>pl_bound := Some True, pl_seen := [demo_udp_conn], pl_waiting := [demo_assoc]\<rparr>"
  have l3: "?l3 = ?m"
    using demo_conn_dispatch [of cr]
    by (simp add: pl_classify_def pl_bind_def pb_listener_new_def remove_at_def case_prod_beta)
  let ?q = "acc_queues_new\<lparr>aq_udps := [(\<lparr>ts_rx = [Segment [9]]\<rparr>, \<lparr>tw_tx = [], tw_err = None\<rparr>, ''pw'')]\<rparr>"
  let ?l4 = "?l0\<lparr>pl_bound := Some True, pl_seen := [demo_udp_conn], pl_queues := ?q, pl_sent := [demo_assoc]\<rparr>"
  have "pb_listener_reach cr ''pw'' ?l1"
    by (rule pl_next [OF pl_start pl_bind]) (simp add: pb_listener_new_def)
  then have "pb_listener_reach cr ''pw'' ?l2"
    by (rule pl_next) (rule pl_conn, simp add: pl_bind_def pb_listener_new_def)
  then have "pb_listener_reach cr ''pw'' ?l3"
    by (rule pl_next) (rule pl_classify, simp add: pl_bind_def pb_listener_new_def)
  then have r3: "pb_listener_reach cr ''pw'' ?m" unfolding l3 .
  have "pb_listener_step cr ''pw'' ?m
      (?m\<lparr>pl_waiting := remove_at 0 (pl_waiting ?m), pl_queues := ?q, pl_sent := pl_sent ?m @ [demo_assoc]\<rparr>)"
    by (rule pl_send) (simp_all add: pb_enqueue_def demo_assoc_def send_udp_def pb_listener_new_def acc_queues_new_def
        queue_cap_def)
  from pl_next [OF r3 this] have "pb_listener_reach cr ''pw'' ?l4" by (simp add: pb_listener_new_def remove_at_def)
  moreover have "pb_tcp_accept True (pl_queues ?l4) = Some (acc_queues_new, Inr (demo_assoc, udp_addr))"
    by (simp add: pb_tcp_accept_def queue_accept_def recv_udp_def demo_assoc_def acc_queues_new_def)
  ultimately have "pb_listener_reach cr ''pw'' (?l4\<lparr>pl_queues := acc_queues_new, pl_taken := pl_taken ?l4 @ [demo_assoc]\<rparr>)"
    by (rule pl_next [OF _ pl_accept])
  then show ?thesis by (simp add: demo_listener_def pb_listener_new_def)
qed

section \<open>Properties\<close>

text \<open>C22: The framed TCP listener, in every order of its tasks: the streams and the associations that
  \<open>accept\<close> returned are the first ones sent, in order and without loss, at most eight of each wait,
  each was made from a connection that was accepted and announced that type, every accepted
  connection is waiting, sent or was dropped for its type, and \<open>accept\<close> only ever fails when the
  listener could not bind, before any connection.\<close>

theorem pb_listener_delivers:
  assumes "pb_listener_reach cr auth l"
  shows "item_streams (pl_taken l) @ aq_streams (pl_queues l) = item_streams (pl_sent l)
    \<and> item_udps (pl_taken l) @ aq_udps (pl_queues l) = item_udps (pl_sent l)
    \<and> length (aq_streams (pl_queues l)) \<le> 8 \<and> length (aq_udps (pl_queues l)) \<le> 8
    \<and> (\<forall>x \<in> set (pl_sent l). \<exists>rd wr. (rd, wr) \<in> set (pl_seen l) \<and> pb_conn_dispatch cr auth rd wr = Some x)
    \<and> length (pl_seen l) = length (pl_conns l) + length (pl_waiting l) + length (pl_sent l) + pl_dropped l
    \<and> (0 < pl_errors l \<longrightarrow> pl_bound l = Some False \<and> pl_seen l = [])"
  using pb_listener_reach_inv [OF assms] pb_task.delivered [of l, OF _ pl_view_def]
  by (auto simp: pb_listener_inv_def from_seen_def)

lemma pb_listener_delivers_witness:
  "pb_listener_reach toy_crypto ''pw'' demo_listener
   \<and> item_udps (pl_taken demo_listener) = [(\<lparr>ts_rx = [Segment [9]]\<rparr>, \<lparr>tw_tx = [], tw_err = None\<rparr>, ''pw'')]
   \<and> (\<exists>rd wr. (rd, wr) \<in> set (pl_seen demo_listener)
        \<and> pb_conn_dispatch toy_crypto ''pw'' rd wr = Some (hd (pl_sent demo_listener)))"
  using pb_listener_delivers [OF demo_listener_reach [of toy_crypto]] demo_listener_reach [of toy_crypto]
  by (simp add: demo_listener_def demo_assoc_def)

end
