(* ===== verification/Grpc_Listener.thy ===== *)
theory Grpc_Listener
  imports Accept_Queue Rev_Grpc
begin

text \<open>
  The tasks of \<open>src/listener/grpc.rs\<close>: the server task that \<open>listen\<close> spawns, the handlers \<open>stream\<close> and \<open>udp\<close>
  that tonic runs for each call, and \<open>accept\<close>.  A handler hands the request stream of its call and the
  sender of its response over a channel, and only answers the call once the channel took them; it waits
  while the channel is full, and is dropped when its caller goes away.

  The fields \<open>gl_seen\<close>, \<open>gl_answers\<close>, \<open>gl_sent\<close>, \<open>gl_taken\<close>, \<open>gl_cancelled\<close> and \<open>gl_errors\<close> only record what
  happened.
\<close>

section \<open>The handlers\<close>

datatype grpc_call = StreamRpc "stream_req grpc_event list" | UdpRpc "udp_req grpc_event list"

type_synonym grpc_item = "(grpc_server_stream, grpc_udp_conn) acc_stream"

text \<open>The answer of a handler: a panic, a status, or the response.  \<open>gone\<close> says that the acceptor, with the
  receivers of the channels, was dropped; \<open>None\<close> that the handler waits.\<close>

type_synonym grpc_answer = "(status + unit) io"

definition channel_closed :: status where
  "channel_closed = Status Internal ''channel closed''"

definition grpc_handler ::
    "'v listener_cfg \<Rightarrow> bool \<Rightarrow> grpc_call \<Rightarrow> grpc_queues \<Rightarrow> (grpc_queues \<times> grpc_answer) option" where
  "grpc_handler cfg gone c q =
     (case c of
        StreamRpc request \<Rightarrow>
          if gone then Some (q, Inr (Inl channel_closed))
          else map_option (\<lambda>q. (q, Inr (Inr ()))) (grpc_stream_call request q)
      | UdpRpc request \<Rightarrow>
          (case grpc_udp_call cfg request q of
             Inl e \<Rightarrow> Some (q, Inl e)
           | Inr sent \<Rightarrow>
               if gone then Some (q, Inr (Inl channel_closed))
               else map_option (\<lambda>q. (q, Inr (Inr ()))) sent))"

text \<open>What a call gives the acceptor.\<close>

fun grpc_call_item :: "string \<Rightarrow> grpc_call \<Rightarrow> grpc_item" where
  "grpc_call_item pw (StreamRpc request) = TCPStream (msg_stream_new request open_sender)"
| "grpc_call_item pw (UdpRpc request) = UDPSocket (request, open_sender, pw)"

text \<open>Every outcome of a handler.\<close>

lemma grpc_handler_cases:
  assumes "grpc_handler cfg gone c q = Some (q', r)"
  obtains (panic) m where "r = Inl m" "q' = q" "lc_pw cfg = None"
  | (closed) "r = Inr (Inl channel_closed)" "q' = q" gone
  | (sent) pw where "r = Inr (Inr ())" "enqueue (grpc_call_item pw c) q = Some q'"
      "\<forall>p. lc_pw cfg = Some p \<longrightarrow> pw = p" "\<not> gone"
proof (cases c)
  case (StreamRpc request)
  with assms show ?thesis
    using sent [of "case lc_pw cfg of None \<Rightarrow> [] | Some p \<Rightarrow> p"] closed
    by (cases gone) (auto simp: grpc_handler_def grpc_stream_call_def)
next
  case (UdpRpc request)
  with assms show ?thesis
    using panic sent [of "the (lc_pw cfg)"] closed
    by (cases "lc_pw cfg"; cases gone) (auto simp: grpc_handler_def grpc_udp_call_def)
qed

section \<open>The tasks\<close>

record grpc_listener =
  gl_serving :: "bool option"
  gl_calls :: "grpc_call list"
  gl_queues :: grpc_queues
  gl_gone :: bool
  gl_seen :: "grpc_call list"
  gl_answers :: "(grpc_call \<times> grpc_answer) list"
  gl_sent :: "grpc_item list"
  gl_taken :: "grpc_item list"
  gl_cancelled :: nat
  gl_errors :: nat

definition grpc_listener_new :: grpc_listener where
  "grpc_listener_new = \<lparr>gl_serving = None, gl_calls = [], gl_queues = acc_queues_new, gl_gone = False, gl_seen = [],
     gl_answers = [], gl_sent = [], gl_taken = [], gl_cancelled = 0, gl_errors = 0\<rparr>"

text \<open>The task serves if the address is one and can be bound; otherwise it panics or returns.\<close>

definition gl_serve :: "string \<Rightarrow> bool \<Rightarrow> grpc_listener \<Rightarrow> grpc_listener" where
  "gl_serve addr bound l = l\<lparr>gl_serving := Some (parse_socket_addr addr \<noteq> None \<and> bound)\<rparr>"

definition gl_handled :: "'v listener_cfg \<Rightarrow> nat \<Rightarrow> grpc_queues \<Rightarrow> grpc_answer \<Rightarrow> grpc_listener \<Rightarrow> grpc_listener" where
  "gl_handled cfg i q r l =
     (let c = gl_calls l ! i;
          pw = (case lc_pw cfg of None \<Rightarrow> [] | Some p \<Rightarrow> p)
      in l\<lparr>gl_calls := remove_at i (gl_calls l), gl_queues := q, gl_answers := gl_answers l @ [(c, r)],
           gl_sent := (if r = Inr (Inr ()) then gl_sent l @ [grpc_call_item pw c] else gl_sent l)\<rparr>)"

text \<open>The senders of the channels belong to the service, which lives as long as the server or one of its calls.\<close>

inductive grpc_listener_step :: "'v listener_cfg \<Rightarrow> string \<Rightarrow> grpc_listener \<Rightarrow> grpc_listener \<Rightarrow> bool"
  for cfg addr where
  gl_serve: "gl_serving l = None \<Longrightarrow> grpc_listener_step cfg addr l (gl_serve addr bound l)"
| gl_call: "gl_serving l = Some True \<Longrightarrow>
     grpc_listener_step cfg addr l (l\<lparr>gl_calls := gl_calls l @ [c], gl_seen := gl_seen l @ [c]\<rparr>)"
| gl_handle: "i < length (gl_calls l) \<Longrightarrow>
     grpc_handler cfg (gl_gone l) (gl_calls l ! i) (gl_queues l) = Some (q, r) \<Longrightarrow>
     grpc_listener_step cfg addr l (gl_handled cfg i q r l)"
| gl_cancel: "i < length (gl_calls l) \<Longrightarrow>
     grpc_listener_step cfg addr l
       (l\<lparr>gl_calls := remove_at i (gl_calls l), gl_cancelled := Suc (gl_cancelled l)\<rparr>)"
| gl_end: "gl_serving l = Some True \<Longrightarrow> grpc_listener_step cfg addr l (l\<lparr>gl_serving := Some False\<rparr>)"
| gl_close: "gl_serving l = Some False \<Longrightarrow> gl_calls l = [] \<Longrightarrow>
     grpc_listener_step cfg addr l (l\<lparr>gl_queues := (gl_queues l)\<lparr>aq_open := False\<rparr>\<rparr>)"
| gl_accept: "\<not> gl_gone l \<Longrightarrow> grpc_accept udp_first (gl_queues l) = Some (q, Inr (x, a)) \<Longrightarrow>
     grpc_listener_step cfg addr l (l\<lparr>gl_queues := q, gl_taken := gl_taken l @ [x]\<rparr>)"
| gl_accept_err: "\<not> gl_gone l \<Longrightarrow> grpc_accept udp_first (gl_queues l) = Some (q, Inl e) \<Longrightarrow>
     grpc_listener_step cfg addr l (l\<lparr>gl_queues := q, gl_errors := Suc (gl_errors l)\<rparr>)"
| gl_drop: "grpc_listener_step cfg addr l (l\<lparr>gl_gone := True\<rparr>)"

inductive grpc_listener_reach :: "'v listener_cfg \<Rightarrow> string \<Rightarrow> grpc_listener \<Rightarrow> bool"
  for cfg addr where
  gl_start: "grpc_listener_reach cfg addr grpc_listener_new"
| gl_next: "grpc_listener_reach cfg addr l \<Longrightarrow> grpc_listener_step cfg addr l l' \<Longrightarrow>
     grpc_listener_reach cfg addr l'"

section \<open>The channels\<close>

definition gl_view :: "grpc_listener \<Rightarrow> (grpc_server_stream, grpc_udp_conn) queue_view" where
  "gl_view l = (gl_queues l, gl_sent l, gl_taken l, gl_errors l)"

lemma gl_handled_view:
  assumes "grpc_handler cfg (gl_gone l) (gl_calls l ! i) (gl_queues l) = Some (q, r)"
  shows "queue_move (gl_view l) (gl_view (gl_handled cfg i q r l))"
  using assms
proof (cases rule: grpc_handler_cases)
  case (sent pw)
  let ?pw = "case lc_pw cfg of None \<Rightarrow> [] | Some p \<Rightarrow> p"
  have "enqueue (grpc_call_item ?pw (gl_calls l ! i)) (gl_queues l) = Some q"
  proof (cases "lc_pw cfg")
    case None
    with assms sent(1,2) show ?thesis
      by (cases "gl_calls l ! i") (auto simp: grpc_handler_def grpc_udp_call_def)
  qed (use sent in simp)
  with sent(1) show ?thesis by (auto simp: gl_view_def gl_handled_def Let_def intro: qm_send)
qed (auto simp: gl_view_def gl_handled_def intro: qm_keep)

interpretation grpc_task: accept_task "grpc_listener_step cfg addr" gl_view for cfg addr
proof
  fix l l'
  assume "grpc_listener_step cfg addr l l'"
  then show "queue_move (gl_view l) (gl_view l')"
  proof cases
    case (gl_handle i q r)
    then show ?thesis by (simp add: gl_handled_view)
  qed (auto simp: gl_view_def gl_serve_def grpc_accept_def intro: queue_move.intros)
qed

section \<open>The invariant\<close>

definition answered :: "(grpc_call \<times> grpc_answer) list \<Rightarrow> grpc_call list" where
  "answered as = map fst (filter (\<lambda>(c, r). r = Inr (Inr ())) as)"

lemma answered_snoc [simp]:
  "answered (as @ [(c, r)]) = answered as @ (if r = Inr (Inr ()) then [c] else [])"
  by (simp add: answered_def)

definition refusals_ok :: "'v listener_cfg \<Rightarrow> grpc_listener \<Rightarrow> bool" where
  "refusals_ok cfg l \<longleftrightarrow> (\<forall>(c, r) \<in> set (gl_answers l). r \<noteq> Inr (Inr ()) \<longrightarrow> gl_gone l \<or> lc_pw cfg = None)"

definition grpc_listener_inv :: "'v listener_cfg \<Rightarrow> string \<Rightarrow> grpc_listener \<Rightarrow> bool" where
  "grpc_listener_inv cfg addr l \<longleftrightarrow> view_ok (gl_view l)
   \<and> gl_sent l = map (grpc_call_item (case lc_pw cfg of None \<Rightarrow> [] | Some p \<Rightarrow> p)) (answered (gl_answers l))
   \<and> set (gl_calls l) \<union> fst ` set (gl_answers l) \<subseteq> set (gl_seen l)
   \<and> length (gl_seen l) = length (gl_calls l) + length (gl_answers l) + gl_cancelled l
   \<and> refusals_ok cfg l
   \<and> (\<not> aq_open (gl_queues l) \<longrightarrow> gl_serving l = Some False \<and> gl_calls l = [])
   \<and> (parse_socket_addr addr = None \<longrightarrow> gl_serving l \<noteq> Some True \<and> gl_seen l = [])
   \<and> (gl_serving l = None \<longrightarrow> gl_seen l = [])"

lemma gl_handle_inv:
  assumes inv: "grpc_listener_inv cfg addr l" and i: "i < length (gl_calls l)"
    and h: "grpc_handler cfg (gl_gone l) (gl_calls l ! i) (gl_queues l) = Some (q, r)"
    and v: "view_ok (gl_view (gl_handled cfg i q r l))"
  shows "grpc_listener_inv cfg addr (gl_handled cfg i q r l)"
proof -
  have "set (gl_calls l) \<subseteq> set (gl_seen l)" using inv by (simp add: grpc_listener_inv_def)
  then have m: "gl_calls l ! i \<in> set (gl_seen l)" using nth_mem [OF i] by blast
  have o: "aq_open q = aq_open (gl_queues l)" and f: "r \<noteq> Inr (Inr ()) \<Longrightarrow> gl_gone l \<or> lc_pw cfg = None"
    using h by (cases rule: grpc_handler_cases; simp add: enqueue_open)+
  note r = remove_at [OF i]
  from inv v m o f r i show ?thesis
    unfolding grpc_listener_inv_def refusals_ok_def
    by (auto simp: gl_handled_def Let_def)
qed

lemma grpc_listener_step_inv:
  assumes step: "grpc_listener_step cfg addr l l'" and inv: "grpc_listener_inv cfg addr l"
  shows "grpc_listener_inv cfg addr l'"
proof -
  have v: "view_ok (gl_view l')" using grpc_task.step_ok [OF step] inv by (simp add: grpc_listener_inv_def)
  from step show ?thesis
  proof cases
    case (gl_handle i q r)
    with v inv show ?thesis by (simp add: gl_handle_inv)
  next
    case (gl_cancel i)
    with v inv remove_at [OF gl_cancel(2)] show ?thesis by (auto simp: grpc_listener_inv_def refusals_ok_def)
  next
    case (gl_accept udp_first q x a)
    with v inv queue_accept_open [OF gl_accept(3) [unfolded grpc_accept_def]] show ?thesis
      by (simp add: grpc_listener_inv_def refusals_ok_def)
  next
    case (gl_accept_err udp_first q e)
    with v inv queue_accept_open [OF gl_accept_err(3) [unfolded grpc_accept_def]] show ?thesis
      by (simp add: grpc_listener_inv_def refusals_ok_def)
  qed (use v inv in \<open>auto simp: grpc_listener_inv_def refusals_ok_def gl_serve_def\<close>)
qed

lemma grpc_listener_reach_inv: "grpc_listener_reach cfg addr l \<Longrightarrow> grpc_listener_inv cfg addr l"
proof (induction rule: grpc_listener_reach.induct)
  case gl_start
  show ?case
    by (simp add: grpc_listener_inv_def grpc_listener_new_def gl_view_def refusals_ok_def answered_def)
      (simp add: acc_queues_new_def)
next
  case (gl_next l l')
  then show ?case by (blast intro: grpc_listener_step_inv)
qed

section \<open>A call that is served\<close>

text \<open>A UDP call arrives, is handed over and accepted.\<close>

definition demo_grpc_cfg :: "nat listener_cfg" where
  "demo_grpc_cfg = \<lparr>lc_endpoint = ''0.0.0.0:1'', lc_name = ''l'', lc_user = None, lc_pw = Some ''pw'',
     lc_proto = ''grpc'', lc_router = ''r'', lc_options = None\<rparr>"

definition demo_grpc_listener :: grpc_listener where
  "demo_grpc_listener = grpc_listener_new\<lparr>gl_serving := Some True, gl_seen := [UdpRpc []],
     gl_answers := [(UdpRpc [], Inr (Inr ()))], gl_sent := [UDPSocket ([], open_sender, ''pw'')],
     gl_taken := [UDPSocket ([], open_sender, ''pw'')]\<rparr>"

lemma demo_grpc_addr: "parse_socket_addr ''0.0.0.0:1'' \<noteq> None"
proof -
  have "show_v4 0 0 0 0 @ CHR '':'' # show_dec (unat (1 :: u16)) = ''0.0.0.0:1''" by code_simp
  with parse_show_socket_v4 [of 0 0 0 0 1] show ?thesis by simp
qed

lemma demo_grpc_reach: "grpc_listener_reach demo_grpc_cfg ''0.0.0.0:1'' demo_grpc_listener"
proof -
  let ?c = "UdpRpc []" and ?u = "([], open_sender, ''pw'') :: grpc_udp_conn" and ?n = grpc_listener_new
  let ?l1 = "?n\<lparr>gl_serving := Some True\<rparr>"
  let ?l2 = "?l1\<lparr>gl_calls := [?c], gl_seen := [?c]\<rparr>"
  let ?q = "acc_queues_new\<lparr>aq_udps := [?u]\<rparr> :: grpc_queues"
  let ?l3 = "?l1\<lparr>gl_seen := [?c], gl_queues := ?q, gl_answers := [(?c, Inr (Inr ()))], gl_sent := [UDPSocket ?u]\<rparr>"
  have "gl_serve ''0.0.0.0:1'' True ?n = ?l1" using demo_grpc_addr by (simp add: gl_serve_def)
  then have "grpc_listener_reach demo_grpc_cfg ''0.0.0.0:1'' ?l1"
    using gl_next [OF gl_start gl_serve [of grpc_listener_new demo_grpc_cfg "''0.0.0.0:1''" True]]
    by (simp add: grpc_listener_new_def)
  from gl_next [OF this gl_call [of ?l1 _ _ ?c]] have 2: "grpc_listener_reach demo_grpc_cfg ''0.0.0.0:1'' ?l2"
    by (simp add: grpc_listener_new_def)
  have "grpc_handler demo_grpc_cfg (gl_gone ?l2) (gl_calls ?l2 ! 0) (gl_queues ?l2) = Some (?q, Inr (Inr ()))"
    by (simp add: grpc_handler_def grpc_udp_call_def demo_grpc_cfg_def send_udp_def queue_cap_def
        grpc_listener_new_def acc_queues_new_def)
  from gl_next [OF 2 gl_handle [OF _ this]] have 3: "grpc_listener_reach demo_grpc_cfg ''0.0.0.0:1'' ?l3"
    by (simp add: gl_handled_def remove_at_def demo_grpc_cfg_def grpc_listener_new_def Let_def)
  have "grpc_accept True (gl_queues ?l3) = Some (acc_queues_new, Inr (UDPSocket ?u, udp_addr))"
    by (simp add: grpc_accept_def queue_accept_def recv_udp_def acc_queues_new_def)
  from gl_next [OF 3 gl_accept [OF _ this]] show ?thesis
    by (simp add: demo_grpc_listener_def grpc_listener_new_def)
qed

section \<open>Properties\<close>

text \<open>C23: The gRPC listener, in every order of its server, its handlers, its callers and \<open>accept\<close>: the
  streams and associations that \<open>accept\<close> returned are the first of the calls that were answered, in the
  order of their answers, at most eight of each wait, and a call is answered with success exactly when
  it was handed over; every call that arrived still waits, was answered or went away, and one is only
  refused when the acceptor was dropped or no password is configured; \<open>accept\<close> only fails when the
  server ended and no call waits, and with an address that does not parse no call ever arrives.\<close>

theorem grpc_listener_delivers:
  assumes "grpc_listener_reach cfg addr l" and "lc_pw cfg = Some pw"
  shows "item_streams (gl_taken l) @ aq_streams (gl_queues l) = item_streams (gl_sent l)
    \<and> item_udps (gl_taken l) @ aq_udps (gl_queues l) = item_udps (gl_sent l)
    \<and> length (aq_streams (gl_queues l)) \<le> 8 \<and> length (aq_udps (gl_queues l)) \<le> 8
    \<and> gl_sent l = map (grpc_call_item pw) (answered (gl_answers l)) \<and> set (answered (gl_answers l)) \<subseteq> set (gl_seen l)
    \<and> length (gl_seen l) = length (gl_calls l) + length (gl_answers l) + gl_cancelled l
    \<and> (\<forall>(c, r) \<in> set (gl_answers l). r = Inr (Inr ()) \<or> gl_gone l)
    \<and> (0 < gl_errors l \<longrightarrow> gl_serving l = Some False \<and> gl_calls l = [])
    \<and> (parse_socket_addr addr = None \<longrightarrow> gl_seen l = [])"
proof -
  note inv = grpc_listener_reach_inv [OF assms(1), unfolded grpc_listener_inv_def refusals_ok_def]
  have "set (answered (gl_answers l)) \<subseteq> fst ` set (gl_answers l)" by (auto simp: answered_def)
  with inv have "set (answered (gl_answers l)) \<subseteq> set (gl_seen l)" by auto
  with inv assms(2) grpc_task.delivered [of l, OF _ gl_view_def] show ?thesis by auto
qed

lemma grpc_listener_delivers_witness:
  "grpc_listener_reach demo_grpc_cfg ''0.0.0.0:1'' demo_grpc_listener
   \<and> item_udps (gl_taken demo_grpc_listener) @ aq_udps (gl_queues demo_grpc_listener) = [([], open_sender, ''pw'')]
   \<and> length (gl_answers demo_grpc_listener) = 1"
  using grpc_listener_delivers [OF demo_grpc_reach, of "''pw''"] demo_grpc_reach
  by (simp add: demo_grpc_cfg_def demo_grpc_listener_def grpc_listener_new_def answered_def)

end
