(* ===== verification/Rev_Listener.thy ===== *)
theory Rev_Listener
  imports Accept_Queue Rev_Client
begin

text \<open>
  The listener of \<open>src/listener/rev_grpc.rs\<close> as a whole: its task, whose single step is
  \<open>rev_client_step\<close>, and \<open>accept\<close>.  What the server answers to the task (whether it can be reached, the
  stream of a registration, the calls of a request) is chosen anew by each step.

  The fields \<open>rv_reqs\<close>, \<open>rv_sent\<close>, \<open>rv_taken\<close> and \<open>rv_errors\<close> only record what happened.
\<close>

section \<open>The tasks\<close>

type_synonym rev_item = "(rev_grpc_client_stream, rev_client_pair) acc_stream"

record rev_listener =
  rv_phase :: rev_client_phase
  rv_queues :: rev_queues
  rv_gone :: bool
  rv_reqs :: "manager_res list"
  rv_sent :: "rev_item list"
  rv_taken :: "rev_item list"
  rv_errors :: nat

definition rev_listener_new :: rev_listener where
  "rev_listener_new = \<lparr>rv_phase = Connecting, rv_queues = acc_queues_new, rv_gone = False, rv_reqs = [],
     rv_sent = [], rv_taken = [], rv_errors = 0\<rparr>"

text \<open>The request a step of the task handles, and what it put into the channels.\<close>

fun phase_request :: "rev_client_phase \<Rightarrow> manager_res list" where
  "phase_request (Managing (GMsg req # r)) = [req]"
| "phase_request ph = []"

definition put_items :: "('s, 'u) acc_queues \<Rightarrow> ('s, 'u) acc_queues \<Rightarrow> ('s, 'u) acc_stream list" where
  "put_items q q' = map TCPStream (drop (length (aq_streams q)) (aq_streams q'))
     @ map UDPSocket (drop (length (aq_udps q)) (aq_udps q'))"

definition rv_stepped :: "rev_client_phase \<Rightarrow> rev_queues \<Rightarrow> rev_listener \<Rightarrow> rev_listener" where
  "rv_stepped ph q l = l\<lparr>rv_phase := ph, rv_queues := q, rv_reqs := rv_reqs l @ phase_request (rv_phase l),
     rv_sent := rv_sent l @ put_items (rv_queues l) q\<rparr>"

inductive rev_listener_step :: "string \<Rightarrow> string \<Rightarrow> rev_listener \<Rightarrow> rev_listener \<Rightarrow> bool"
  for auth tag where
  rv_task: "rev_client_step connect manager_call calls auth tag (rv_gone l) (rv_phase l, rv_queues l) = Some (ph, q) \<Longrightarrow>
     rev_listener_step auth tag l (rv_stepped ph q l)"
| rv_accept: "\<not> rv_gone l \<Longrightarrow> rev_accept udp_first (rv_queues l) = Some (q, Inr (x, a)) \<Longrightarrow>
     rev_listener_step auth tag l (l\<lparr>rv_queues := q, rv_taken := rv_taken l @ [x]\<rparr>)"
| rv_accept_err: "\<not> rv_gone l \<Longrightarrow> rev_accept udp_first (rv_queues l) = Some (q, Inl e) \<Longrightarrow>
     rev_listener_step auth tag l (l\<lparr>rv_queues := q, rv_errors := Suc (rv_errors l)\<rparr>)"
| rv_drop: "rev_listener_step auth tag l (l\<lparr>rv_gone := True\<rparr>)"

inductive rev_listener_reach :: "string \<Rightarrow> string \<Rightarrow> rev_listener \<Rightarrow> bool"
  for auth tag where
  rv_start: "rev_listener_reach auth tag rev_listener_new"
| rv_next: "rev_listener_reach auth tag l \<Longrightarrow> rev_listener_step auth tag l l' \<Longrightarrow>
     rev_listener_reach auth tag l'"

section \<open>What a request leads to\<close>

text \<open>The stream or the association a request asked for, with the message that opens its call.\<close>

definition item_for :: "string \<Rightarrow> manager_res \<Rightarrow> rev_item \<Rightarrow> bool" where
  "item_for auth req x \<longleftrightarrow>
     (case x of
        TCPStream s \<Rightarrow> ms_udp req = Some 0 \<and> sd_sent (st_writer s) = [rev_first auth req]
          \<and> (\<exists>a. ms_addr_info req = Some a \<and> rev_handshake s = (s, Inr
               (\<lparr>ra_addr = ai_dst_addr a, ra_port = port_of_u32 (ai_dst_port a), ra_udp = False\<rparr>, None)))
      | UDPSocket (r, w, p) \<Rightarrow> (\<exists>u. ms_udp req = Some u \<and> u \<noteq> 0)
          \<and> sd_sent w = [rev_udp_first auth req] \<and> p = auth)"

text \<open>A request on which the task panics.\<close>

definition malformed :: "manager_res \<Rightarrow> bool" where
  "malformed req \<longleftrightarrow> ms_udp req = None \<or> (ms_udp req = Some 0 \<and> ms_addr_info req = None)"

lemma handle_manage_req_cases:
  assumes "handle_manage_req calls auth gone req q = Some (q', r)"
  obtains (keep) x where "q' = q" "r = Inr x"
  | (panic) e where "q' = q" "r = Inl e" "malformed req"
  | (sent) x where "enqueue x q = Some q'" "r = Inr (Inr ())" "item_for auth req x"
proof (cases "ms_udp req")
  case None
  with assms show ?thesis using panic by (auto simp: handle_manage_req_def malformed_def)
next
  case (Some u)
  show ?thesis
  proof (cases "u = 0")
    case True
    show ?thesis
    proof (cases "rc_stream calls (rev_first auth req)")
      case (Inl e)
      with assms Some True show ?thesis using keep by (auto simp: handle_manage_req_def)
    next
      case (Inr stream)
      show ?thesis
      proof (cases "ms_addr_info req")
        case None
        with assms Some True Inr show ?thesis using panic by (auto simp: handle_manage_req_def malformed_def)
      next
        case (Some a)
        let ?s = "msg_set_info (\<lambda>x. x\<lparr>
               si_protocol_name := ''rev_grpc'',
               si_src_addr := Some (ai_src_addr a),
               si_src_port := Some (port_of_u32 (ai_src_port a)),
               si_dst_addr := Some (ai_dst_addr a),
               si_dst_port := Some (port_of_u32 (ai_dst_port a)),
               si_udp := Some False\<rparr>) (msg_stream_new stream \<lparr>sd_sent = [rev_first auth req], sd_closed = None\<rparr>)"
        have "item_for auth req (TCPStream ?s)"
          using Some \<open>ms_udp req = Some u\<close> True
          by (simp add: item_for_def rev_handshake_def msg_set_info_def msg_stream_new_def)
        with assms Some \<open>ms_udp req = Some u\<close> True Inr show ?thesis
          using keep sent [of "TCPStream ?s"] by (cases gone) (auto simp: handle_manage_req_def)
      qed
    qed
  next
    case False
    show ?thesis
    proof (cases "rc_udp calls (rev_udp_first auth req)")
      case (Inl e)
      with assms Some False show ?thesis using keep by (auto simp: handle_manage_req_def)
    next
      case (Inr stream)
      let ?u = "UDPSocket (stream, \<lparr>sd_sent = [rev_udp_first auth req], sd_closed = None\<rparr>, auth)"
      have "item_for auth req ?u" using Some False by (simp add: item_for_def)
      with assms Some False Inr show ?thesis
        using keep sent [of ?u] by (cases gone) (auto simp: handle_manage_req_def)
    qed
  qed
qed

lemma put_items_keep [simp]: "put_items q q = []" "put_items q (q\<lparr>aq_open := b\<rparr>) = []"
  by (simp_all add: put_items_def)

lemma put_items_enqueue: "enqueue x q = Some q' \<Longrightarrow> put_items q q' = [x]"
  by (cases x) (auto simp: put_items_def send_stream_def send_udp_def split: if_splits)

text \<open>Every step of the task leaves the channels alone, hands over what the request asked for, or is a
  panic on a malformed request.\<close>

lemma rev_client_step_cases:
  assumes "rev_client_step connect manager_call calls auth tag gone (ph, q) = Some (ph', q')"
  obtains (keep) "q' = q" "ph' \<noteq> Crashed" "ph \<noteq> Crashed"
  | (sent) req x where "phase_request ph = [req]" "enqueue x q = Some q'" "item_for auth req x" "ph' \<noteq> Crashed" "ph \<noteq> Crashed"
  | (crash) req where "phase_request ph = [req]" "malformed req" "q' = q\<lparr>aq_open := False\<rparr>" "ph' = Crashed" "ph \<noteq> Crashed"
proof (cases ph)
  case Connecting
  with assms show ?thesis using keep by (auto simp: rev_client_step_def split: sum.splits)
next
  case Registering
  with assms show ?thesis using keep by (auto simp: rev_client_step_def split: sum.splits)
next
  case Crashed
  with assms show ?thesis by (simp add: rev_client_step_def)
next
  case (Managing evs)
  show ?thesis
  proof (cases evs)
    case Nil
    with assms Managing show ?thesis using keep by (simp add: rev_client_step_def)
  next
    case (Cons ev evs')
    show ?thesis
    proof (cases ev)
      case (GStatus e)
      with assms Managing Cons show ?thesis using keep by (simp add: rev_client_step_def)
    next
      case (GMsg req)
      with assms Managing Cons obtain q1 r where h: "handle_manage_req calls auth gone req q = Some (q1, r)"
        by (auto simp: rev_client_step_def split: option.splits)
      have pr: "phase_request ph = [req]" using Managing Cons GMsg by simp
      from h show ?thesis
      proof (cases rule: handle_manage_req_cases)
        case (keep x)
        with assms Managing Cons GMsg h show ?thesis
          using that(1) by (cases x) (auto simp: rev_client_step_def)
      next
        case (panic e)
        with assms Managing Cons GMsg h pr show ?thesis using crash by (auto simp: rev_client_step_def)
      next
        case (sent x)
        with assms Managing Cons GMsg h pr show ?thesis
          using that(2) by (auto simp: rev_client_step_def)
      qed
    qed
  qed
qed

section \<open>The channels\<close>

definition rv_view :: "rev_listener \<Rightarrow> (rev_grpc_client_stream, rev_client_pair) queue_view" where
  "rv_view l = (rv_queues l, rv_sent l, rv_taken l, rv_errors l)"

interpretation rev_task: accept_task "rev_listener_step auth tag" rv_view for auth tag
proof
  fix l l'
  assume "rev_listener_step auth tag l l'"
  then show "queue_move (rv_view l) (rv_view l')"
  proof cases
    case (rv_task connect manager_call calls ph q)
    from rv_task(2) show ?thesis
      by (cases rule: rev_client_step_cases)
        (auto simp: rv_task(1) rv_view_def rv_stepped_def put_items_enqueue intro: queue_move.intros)
  qed (auto simp: rv_view_def rev_accept_def intro: queue_move.intros)
qed

section \<open>The invariant\<close>

definition rev_listener_inv :: "string \<Rightarrow> rev_listener \<Rightarrow> bool" where
  "rev_listener_inv auth l \<longleftrightarrow> view_ok (rv_view l)
   \<and> (\<forall>x \<in> set (rv_sent l). \<exists>req \<in> set (rv_reqs l). item_for auth req x)
   \<and> length (rv_sent l) \<le> length (rv_reqs l)
   \<and> (aq_open (rv_queues l) \<longleftrightarrow> rv_phase l \<noteq> Crashed)
   \<and> (rv_phase l = Crashed \<longrightarrow> (\<exists>req \<in> set (rv_reqs l). malformed req))"

lemma rev_listener_step_inv:
  assumes step: "rev_listener_step auth tag l l'" and inv: "rev_listener_inv auth l"
  shows "rev_listener_inv auth l'"
proof -
  have v: "view_ok (rv_view l')" using rev_task.step_ok [OF step] inv by (simp add: rev_listener_inv_def)
  from step show ?thesis
  proof cases
    case (rv_task connect manager_call calls ph q)
    from rv_task(2) show ?thesis
    proof (cases rule: rev_client_step_cases)
      case keep
      with v inv show ?thesis by (auto simp: rv_task(1) rev_listener_inv_def rv_stepped_def)
    next
      case (sent req x)
      with v inv show ?thesis
        by (auto simp: rv_task(1) rev_listener_inv_def rv_stepped_def put_items_enqueue enqueue_open)
    next
      case (crash req)
      with v inv show ?thesis by (auto simp: rv_task(1) rev_listener_inv_def rv_stepped_def)
    qed
  next
    case (rv_accept udp_first q x a)
    with v inv queue_accept_open [OF rv_accept(3) [unfolded rev_accept_def]] show ?thesis
      by (simp add: rev_listener_inv_def)
  next
    case (rv_accept_err udp_first q e)
    with v inv queue_accept_open [OF rv_accept_err(3) [unfolded rev_accept_def]] show ?thesis
      by (simp add: rev_listener_inv_def)
  qed (use v inv in \<open>simp add: rev_listener_inv_def\<close>)
qed

lemma rev_listener_reach_inv: "rev_listener_reach auth tag l \<Longrightarrow> rev_listener_inv auth l"
proof (induction rule: rev_listener_reach.induct)
  case rv_start
  show ?case by (simp add: rev_listener_inv_def rev_listener_new_def rv_view_def) (simp add: acc_queues_new_def)
next
  case (rv_next l l')
  then show ?case by (blast intro: rev_listener_step_inv)
qed

section \<open>A request that is served\<close>

text \<open>The task registers, is asked for a stream to port 80 of \<open>h\<close> and hands it over.\<close>

definition demo_req :: manager_res where
  "demo_req = \<lparr>ms_addr_info = Some \<lparr>ai_dst_addr = ''h'', ai_dst_port = 80, ai_src_addr = [], ai_src_port = 0\<rparr>,
     ms_udp = Some 0, ms_conn_id = Some ''i''\<rparr>"

definition demo_calls :: rev_client_calls where
  "demo_calls = \<lparr>rc_stream = (\<lambda>m. Inr []), rc_udp = (\<lambda>m. Inl [])\<rparr>"

definition demo_rev_stream :: rev_grpc_client_stream where
  "demo_rev_stream = msg_set_info (\<lambda>x. x\<lparr>si_protocol_name := ''rev_grpc'', si_src_addr := Some [],
     si_src_port := Some (port_of_u32 0), si_dst_addr := Some ''h'', si_dst_port := Some (port_of_u32 80),
     si_udp := Some False\<rparr>) (msg_stream_new [] \<lparr>sd_sent = [rev_first ''pw'' demo_req], sd_closed = None\<rparr>)"

definition demo_rev_listener :: rev_listener where
  "demo_rev_listener = rev_listener_new\<lparr>rv_phase := Managing [], rv_reqs := [demo_req],
     rv_sent := [TCPStream demo_rev_stream], rv_taken := [TCPStream demo_rev_stream]\<rparr>"

lemma demo_rev_reach: "rev_listener_reach ''pw'' ''t'' demo_rev_listener"
proof -
  let ?n = rev_listener_new and ?q = "acc_queues_new\<lparr>aq_streams := [demo_rev_stream]\<rparr> :: rev_queues"
  let ?l2 = "?n\<lparr>rv_phase := Managing [GMsg demo_req]\<rparr>"
  let ?l3 = "?n\<lparr>rv_phase := Managing [], rv_reqs := [demo_req], rv_queues := ?q, rv_sent := [TCPStream demo_rev_stream]\<rparr>"
  have "rev_client_step (Inr ()) (\<lambda>_. Inl []) demo_calls ''pw'' ''t'' (rv_gone ?n) (rv_phase ?n, rv_queues ?n)
      = Some (Registering, acc_queues_new)"
    by (simp add: rev_client_step_def rev_listener_new_def)
  from rv_next [OF rv_start rv_task [OF this]]
  have 1: "rev_listener_reach ''pw'' ''t'' (?n\<lparr>rv_phase := Registering\<rparr>)"
    by (simp add: rv_stepped_def rev_listener_new_def)
  have "rev_client_step (Inr ()) (\<lambda>_. Inr [GMsg demo_req]) demo_calls ''pw'' ''t'' (rv_gone (?n\<lparr>rv_phase := Registering\<rparr>))
      (rv_phase (?n\<lparr>rv_phase := Registering\<rparr>), rv_queues (?n\<lparr>rv_phase := Registering\<rparr>))
      = Some (Managing [GMsg demo_req], acc_queues_new)"
    by (simp add: rev_client_step_def rev_listener_new_def)
  from rv_next [OF 1 rv_task [OF this]] have 2: "rev_listener_reach ''pw'' ''t'' ?l2"
    by (simp add: rv_stepped_def rev_listener_new_def)
  have "handle_manage_req demo_calls ''pw'' False demo_req acc_queues_new = Some (?q, Inr (Inr ()))"
    by (simp add: handle_manage_req_def demo_req_def demo_calls_def send_stream_def acc_queues_new_def queue_cap_def
        demo_rev_stream_def)
  then have "rev_client_step (Inr ()) (\<lambda>_. Inl []) demo_calls ''pw'' ''t'' (rv_gone ?l2) (rv_phase ?l2, rv_queues ?l2)
      = Some (Managing [], ?q)"
    by (simp add: rev_client_step_def rev_listener_new_def)
  from rv_next [OF 2 rv_task [OF this]] have 3: "rev_listener_reach ''pw'' ''t'' ?l3"
    by (simp add: rv_stepped_def rev_listener_new_def put_items_def) (simp add: acc_queues_new_def)
  have "rev_accept False (rv_queues ?l3) = Some (acc_queues_new, Inr (TCPStream demo_rev_stream, stream_addr))"
    by (simp add: rev_accept_def queue_accept_def recv_stream_def acc_queues_new_def)
  from rv_next [OF 3 rv_accept [OF _ this]] show ?thesis
    by (simp add: demo_rev_listener_def rev_listener_new_def)
qed

section \<open>Properties\<close>

text \<open>C33: The listener behind the reverse tunnel, in every order of its task and \<open>accept\<close> and whatever the
  server answers: what \<open>accept\<close> returned is the beginning of what the task handed over, at most eight
  streams and eight associations wait, and each stream that \<open>accept\<close> returned was asked for by a request of
  the server, opened its call with the listener's password and that request's connection id, and passes
  its handshake with the address of that request; \<open>accept\<close> only ever fails after the task panicked on a
  request without its optional fields.\<close>

theorem rev_listener_delivers:
  assumes "rev_listener_reach auth tag l"
  shows "item_streams (rv_taken l) @ aq_streams (rv_queues l) = item_streams (rv_sent l)
    \<and> item_udps (rv_taken l) @ aq_udps (rv_queues l) = item_udps (rv_sent l)
    \<and> length (aq_streams (rv_queues l)) \<le> 8 \<and> length (aq_udps (rv_queues l)) \<le> 8
    \<and> (\<forall>x \<in> set (rv_taken l). \<exists>req \<in> set (rv_reqs l). item_for auth req x)
    \<and> length (rv_sent l) \<le> length (rv_reqs l)
    \<and> (0 < rv_errors l \<longrightarrow> rv_phase l = Crashed \<and> (\<exists>req \<in> set (rv_reqs l). malformed req))"
proof -
  note inv = rev_listener_reach_inv [OF assms, unfolded rev_listener_inv_def]
  then have v: "view_ok (rv_view l)" by simp
  note d = rev_task.delivered [OF v rv_view_def]
  have "\<forall>x \<in> set (rv_taken l). \<exists>req \<in> set (rv_reqs l). item_for auth req x"
    using inv rev_task.taken_sent [OF v rv_view_def] by blast
  moreover have "0 < rv_errors l \<longrightarrow> rv_phase l = Crashed \<and> (\<exists>req \<in> set (rv_reqs l). malformed req)"
    using inv d(5) by simp
  ultimately show ?thesis using inv d(1-4) by blast
qed

lemma rev_listener_delivers_witness:
  "rev_listener_reach ''pw'' ''t'' demo_rev_listener
   \<and> item_for ''pw'' demo_req (TCPStream demo_rev_stream) \<and> rv_taken demo_rev_listener = [TCPStream demo_rev_stream]"
  using rev_listener_delivers [OF demo_rev_reach] demo_rev_reach
  by (simp add: demo_rev_listener_def rev_listener_new_def)

end
