(* ===== verification/Udp_Tunnel.thy ===== *)
theory Udp_Tunnel
  imports Packet_Relay Rev_Listener
begin

text \<open>
  The two ends of a UDP association over a tunnel, from their structures to the packets they carry: the
  readers and writers of \<open>src/stream/grpc_udp_client.rs\<close>, \<open>pb_tcp_udp_client.rs\<close>, \<open>pb_tcp_udp_server.rs\<close>
  and \<open>rev_grpc_udp_client.rs\<close>, with what makes them: \<open>udp_tunnel\<close> of the connectors and \<open>accept\<close> of the
  listeners.  Each operation is one of \<open>Udp_Streams\<close> on a field of its structure, with the other fields
  as its arguments.
\<close>

section \<open>Operations on a field\<close>

definition through ::
    "('s \<Rightarrow> 'a) \<Rightarrow> ('a \<Rightarrow> 's \<Rightarrow> 's) \<Rightarrow> ('s \<Rightarrow> ('a, 'b) op) \<Rightarrow> ('s, 'b) op" where
  "through get put f s = (case f s (get s) of (a, r) \<Rightarrow> (put a s, r))"

text \<open>\<open>key\<close> are the fields the operation reads and never changes.\<close>

locale io_field =
  fixes get :: "'s \<Rightarrow> 'a" and put :: "'a \<Rightarrow> 's \<Rightarrow> 's" and key :: "'s \<Rightarrow> 'k"
  assumes get_put [simp]: "get (put a s) = a" and put_get [simp]: "put (get s) s = s"
    and put_put [simp]: "put a (put b s) = put a s" and key_put: "key (put a s) = key s"
begin

lemma write_through:
  "write_packets (\<lambda>x p. through get put (\<lambda>s. wr (key s) x p)) ps s = through get put (\<lambda>s. write_packets (wr (key s)) ps) s"
proof (induction ps arbitrary: s)
  case Nil
  then show ?case by (simp add: through_def)
next
  case (Cons xp ps)
  obtain x p where xp: "xp = (x, p)" by fastforce
  obtain a r where w: "wr (key s) x p (get s) = (a, r)" by fastforce
  then have t: "through get put (\<lambda>s. wr (key s) x p) s = (put a s, r)" by (simp add: through_def)
  show ?case
  proof (cases r)
    case (Inl e)
    with t w show ?thesis by (simp add: xp st_bind_def) (simp add: through_def st_bind_def)
  next
    case (Inr u)
    with t w Cons.IH [of "put a s"] show ?thesis
      by (simp add: xp st_bind_def) (simp add: through_def st_bind_def key_put split: prod.splits)
  qed
qed

lemma read_through:
  "read_packets (through get put (\<lambda>s. rd (key s))) k s = through get put (\<lambda>s. read_packets (rd (key s)) k) s"
proof (induction k arbitrary: s)
  case 0
  then show ?case by (simp add: through_def)
next
  case (Suc k)
  obtain a r where w: "rd (key s) (get s) = (a, r)" by fastforce
  then have t: "through get put (\<lambda>s. rd (key s)) s = (put a s, r)" by (simp add: through_def)
  show ?case
  proof (cases r)
    case (Inl e)
    with t w show ?thesis by (simp add: st_bind_def) (simp add: through_def st_bind_def)
  next
    case (Inr u)
    with t w Suc.IH [of "put a s"] show ?thesis
      by (simp add: st_bind_def) (auto simp: through_def st_bind_def key_put split: prod.splits sum.splits)
  qed
qed

lemma delivers_write:
  assumes "delivers (wr (key w)) rd sent pending live ps (get w)"
  shows "delivers (\<lambda>x p. through get put (\<lambda>s. wr (key s) x p)) rd (\<lambda>w. sent (get w)) pending live ps w"
proof -
  from assms obtain a b where "write_packets (wr (key w)) ps (get w) = (a, Inr ())" "sent a = sent (get w) @ b"
    and "\<forall>r rest. live r \<and> pending r = b @ rest \<longrightarrow>
      (\<exists>r'. read_packets rd (length ps) r = (r', Inr (map snd ps)) \<and> pending r' = rest)"
    unfolding delivers_def by blast
  then show ?thesis
    unfolding delivers_def write_through by (intro exI [of _ "put a w"] exI [of _ b]) (simp add: through_def)
qed

lemma delivers_read:
  assumes "delivers wr (rd k) sent pending live ps w"
  shows "delivers wr (through get put (\<lambda>s. rd (key s))) sent (\<lambda>s. pending (get s)) (\<lambda>s. live (get s) \<and> key s = k) ps w"
proof -
  from assms obtain w' b where w: "write_packets wr ps w = (w', Inr ())" "sent w' = sent w @ b"
    and r: "\<And>r rest. live r \<Longrightarrow> pending r = b @ rest \<Longrightarrow>
      \<exists>r'. read_packets (rd k) (length ps) r = (r', Inr (map snd ps)) \<and> pending r' = rest"
    unfolding delivers_def by blast
  have "\<exists>s'. read_packets (through get put (\<lambda>s. rd (key s))) (length ps) s = (s', Inr (map snd ps)) \<and> pending (get s') = rest"
    if s: "live (get s) \<and> key s = k" "pending (get s) = b @ rest" for s rest
  proof -
    from r [OF conjunct1 [OF s(1)] s(2)] obtain r' where
      "read_packets (rd k) (length ps) (get s) = (r', Inr (map snd ps))" "pending r' = rest" by blast
    with s(1) show ?thesis unfolding read_through by (intro exI [of _ "put r' s"]) (simp add: through_def)
  qed
  with w show ?thesis unfolding delivers_def by blast
qed

end

section \<open>Over gRPC\<close>

record grpc_udp_client_writer =
  gcw_writer :: "udp_req sender"
  gcw_src_addr :: string
  gcw_auth :: string

record grpc_udp_client_reader =
  gcr_reader :: "udp_res grpc_event list"
  gcr_src_addr :: string
  gcr_auth :: string

definition grpc_udp_client_reader_new :: "udp_res grpc_event list \<Rightarrow> string \<Rightarrow> string \<Rightarrow> grpc_udp_client_reader" where
  "grpc_udp_client_reader_new reader src_addr auth = \<lparr>gcr_reader = reader, gcr_src_addr = src_addr, gcr_auth = auth\<rparr>"

definition grpc_udp_client_writer_new :: "udp_req sender \<Rightarrow> string \<Rightarrow> string \<Rightarrow> grpc_udp_client_writer" where
  "grpc_udp_client_writer_new writer src_addr auth = \<lparr>gcw_writer = writer, gcw_src_addr = src_addr, gcw_auth = auth\<rparr>"

definition grpc_udp_client_run_write :: "(unit, grpc_udp_client_writer) packet_writer" where
  "grpc_udp_client_run_write x p =
     through gcw_writer (\<lambda>w s. s\<lparr>gcw_writer := w\<rparr>) (\<lambda>s. grpc_udp_client_write (gcw_auth s) x p)"

definition grpc_udp_client_run_read :: "(grpc_udp_client_reader, udp_packet) op" where
  "grpc_udp_client_run_read = through gcr_reader (\<lambda>r s. s\<lparr>gcr_reader := r\<rparr>) (\<lambda>s. grpc_udp_client_read)"

definition grpc_udp_server_reader_new :: "udp_req grpc_event list \<Rightarrow> string \<Rightarrow> udp_req udp_reader" where
  "grpc_udp_server_reader_new reader auth = \<lparr>ud_events = reader, ud_auth = auth\<rparr>"

text \<open>What \<open>udp_tunnel\<close> returns, and what \<open>accept\<close> makes of an accepted association.\<close>

definition grpc_udp_open ::
    "(string + udp_res grpc_event list) \<Rightarrow> string \<Rightarrow> 'v connector_cfg
       \<Rightarrow> (grpc_udp_client_reader \<times> grpc_udp_client_writer) option io" where
  "grpc_udp_open call src_addr cfg =
     io_bind (grpc_udp_tunnel call cfg) (\<lambda>t. Inr (map_option (\<lambda>(resp, tx, pw).
       (grpc_udp_client_reader_new resp src_addr pw, grpc_udp_client_writer_new tx src_addr pw)) t))"

definition grpc_udp_socket :: "grpc_udp_conn \<Rightarrow> udp_req udp_reader \<times> udp_res sender" where
  "grpc_udp_socket u = (case u of (r, w, a) \<Rightarrow> (grpc_udp_server_reader_new r a, w))"

section \<open>Over framed TCP\<close>

record pb_udp_client_writer =
  pcw_writer :: tcp_write_half
  pcw_auth :: string
  pcw_pw :: string

record pb_udp_client_reader =
  pcr_reader :: tcp_read_half
  pcr_pw :: string

record pb_udp_server_reader =
  psr_reader :: tcp_read_half
  psr_auth :: string
  psr_pw :: string

record pb_udp_server_writer =
  psw_writer :: tcp_write_half
  psw_pw :: string

definition pb_udp_client_writer_new :: "tcp_write_half \<Rightarrow> string \<Rightarrow> string \<Rightarrow> pb_udp_client_writer" where
  "pb_udp_client_writer_new writer auth pw = \<lparr>pcw_writer = writer, pcw_auth = auth, pcw_pw = pw\<rparr>"

definition pb_udp_client_reader_new :: "tcp_read_half \<Rightarrow> string \<Rightarrow> pb_udp_client_reader" where
  "pb_udp_client_reader_new reader pw = \<lparr>pcr_reader = reader, pcr_pw = pw\<rparr>"

definition pb_udp_server_reader_new :: "tcp_read_half \<Rightarrow> string \<Rightarrow> string \<Rightarrow> pb_udp_server_reader" where
  "pb_udp_server_reader_new reader auth pw = \<lparr>psr_reader = reader, psr_auth = auth, psr_pw = pw\<rparr>"

definition pb_udp_server_writer_new :: "tcp_write_half \<Rightarrow> string \<Rightarrow> pb_udp_server_writer" where
  "pb_udp_server_writer_new writer pw = \<lparr>psw_writer = writer, psw_pw = pw\<rparr>"

definition pb_udp_client_run_write ::
    "(udp_req \<Rightarrow> bytes) \<Rightarrow> 'k crypto \<Rightarrow> (req_nonces \<times> u64, pb_udp_client_writer) packet_writer" where
  "pb_udp_client_run_write enc cry x p =
     through pcw_writer (\<lambda>w s. s\<lparr>pcw_writer := w\<rparr>) (\<lambda>s. pb_udp_client_write enc cry (pcw_auth s) (pcw_pw s) x p)"

definition pb_udp_client_run_read ::
    "(bytes \<Rightarrow> string + udp_res) \<Rightarrow> 'k crypto \<Rightarrow> (pb_udp_client_reader, udp_packet) op" where
  "pb_udp_client_run_read dec cry =
     through pcr_reader (\<lambda>r s. s\<lparr>pcr_reader := r\<rparr>) (\<lambda>s. pb_udp_client_read dec cry (pcr_pw s))"

definition pb_udp_server_run_read ::
    "(bytes \<Rightarrow> string + udp_req) \<Rightarrow> 'k crypto \<Rightarrow> (pb_udp_server_reader, udp_packet) op" where
  "pb_udp_server_run_read dec cry =
     through psr_reader (\<lambda>r s. s\<lparr>psr_reader := r\<rparr>) (\<lambda>s. pb_udp_server_read dec cry (psr_auth s) (psr_pw s))"

definition pb_udp_server_run_write ::
    "(udp_res \<Rightarrow> bytes) \<Rightarrow> 'k crypto \<Rightarrow> (res_nonces \<times> u64, pb_udp_server_writer) packet_writer" where
  "pb_udp_server_run_write enc cry x p =
     through psw_writer (\<lambda>w s. s\<lparr>psw_writer := w\<rparr>) (\<lambda>s. pb_udp_server_write enc cry (psw_pw s) x p)"

definition pb_udp_open ::
    "dialer \<Rightarrow> 'v connector_cfg \<Rightarrow> (pb_udp_client_reader \<times> pb_udp_client_writer) io" where
  "pb_udp_open dial cfg =
     io_bind (pb_tcp_udp_tunnel dial cfg) (\<lambda>(reader, writer, pw).
       Inr (pb_udp_client_reader_new reader pw, pb_udp_client_writer_new writer pw pw))"

definition pb_udp_socket :: "pb_udp_conn \<Rightarrow> pb_udp_server_reader \<times> pb_udp_server_writer" where
  "pb_udp_socket u = (case u of (reader, writer, pw) \<Rightarrow>
     (pb_udp_server_reader_new reader pw pw, pb_udp_server_writer_new writer pw))"

section \<open>Over the reverse tunnel\<close>

record rev_udp_client_writer =
  rcw_writer :: "rev_udp_req sender"
  rcw_auth :: string

definition rev_udp_client_writer_new :: "rev_udp_req sender \<Rightarrow> string \<Rightarrow> rev_udp_client_writer" where
  "rev_udp_client_writer_new writer auth = \<lparr>rcw_writer = writer, rcw_auth = auth\<rparr>"

definition rev_udp_client_run_write :: "(unit, rev_udp_client_writer) packet_writer" where
  "rev_udp_client_run_write x p =
     through rcw_writer (\<lambda>w s. s\<lparr>rcw_writer := w\<rparr>) (\<lambda>s. rev_udp_client_write (rcw_auth s) x p)"

definition rev_udp_socket :: "rev_client_pair \<Rightarrow> rev_udp_res grpc_event list \<times> rev_udp_client_writer" where
  "rev_udp_socket u = (case u of (r, w, a) \<Rightarrow> (r, rev_udp_client_writer_new w a))"

section \<open>The fields\<close>

interpretation gcw: io_field gcw_writer "\<lambda>w s. s\<lparr>gcw_writer := w\<rparr>" gcw_auth by unfold_locales simp_all
interpretation gcr: io_field gcr_reader "\<lambda>r s. s\<lparr>gcr_reader := r\<rparr>" "\<lambda>_. ()" by unfold_locales simp_all
interpretation pcw: io_field pcw_writer "\<lambda>w s. s\<lparr>pcw_writer := w\<rparr>" "\<lambda>s. (pcw_auth s, pcw_pw s)" by unfold_locales simp_all
interpretation pcr: io_field pcr_reader "\<lambda>r s. s\<lparr>pcr_reader := r\<rparr>" pcr_pw by unfold_locales simp_all
interpretation psr: io_field psr_reader "\<lambda>r s. s\<lparr>psr_reader := r\<rparr>" "\<lambda>s. (psr_auth s, psr_pw s)" by unfold_locales simp_all
interpretation psw: io_field psw_writer "\<lambda>w s. s\<lparr>psw_writer := w\<rparr>" psw_pw by unfold_locales simp_all
interpretation rcw: io_field rcw_writer "\<lambda>w s. s\<lparr>rcw_writer := w\<rparr>" rcw_auth by unfold_locales simp_all

section \<open>From one end to the other\<close>

text \<open>Packets written to \<open>w\<close> are read back by every reader that the other end makes of a connection which
  delivers what \<open>w\<close> has sent by then, and possibly more; and there is such a reader.\<close>

definition carried ::
    "('x, 'w) packet_writer \<Rightarrow> ('r, udp_packet) op \<Rightarrow> ('w \<Rightarrow> 'e list) \<Rightarrow> ('e list \<Rightarrow> 'r \<Rightarrow> bool)
       \<Rightarrow> ('x \<times> udp_packet) list \<Rightarrow> 'w \<Rightarrow> bool" where
  "carried wr rd sent arrives ps w \<longleftrightarrow>
     (\<exists>w'. write_packets wr ps w = (w', Inr ()) \<and> (\<exists>r. arrives (sent w') r)
        \<and> (\<forall>r rest. arrives (sent w' @ rest) r \<longrightarrow> (\<exists>r'. read_packets rd (length ps) r = (r', Inr (map snd ps)))))"

lemma carriedI:
  assumes "delivers wr rd sent pending live ps w"
    and "\<And>b. \<exists>r. arrives (sent w @ b) r"
    and "\<And>b w' rest r. arrives (sent w @ b @ rest) r \<Longrightarrow> live r \<and> pending r = b @ rest"
  shows "carried wr rd sent arrives ps w"
proof -
  from assms(1) obtain w' b where w: "write_packets wr ps w = (w', Inr ())" "sent w' = sent w @ b"
    and r: "\<And>r rest. live r \<Longrightarrow> pending r = b @ rest \<Longrightarrow> \<exists>r'. read_packets rd (length ps) r = (r', Inr (map snd ps))"
    unfolding delivers_def by blast
  have "\<exists>r'. read_packets rd (length ps) r = (r', Inr (map snd ps))" if "arrives (sent w' @ rest) r" for r rest
    using r [of r rest] assms(3) [of b rest r] that by (simp add: w(2))
  moreover from assms(2) [of b] have "\<exists>r. arrives (sent w') r" by (simp add: w(2))
  ultimately show ?thesis unfolding carried_def using w(1) by blast
qed

lemma carriedD:
  assumes "carried wr rd sent arrives ps w" and len: "length ps = n" and out: "map snd ps = qs"
  obtains w' r r' where "write_packets wr ps w = (w', Inr ())" "arrives (sent w') r"
    "read_packets rd n r = (r', Inr qs)"
proof -
  from assms(1) obtain w' r where w: "write_packets wr ps w = (w', Inr ())" "arrives (sent w') r"
    and rd: "\<forall>r rest. arrives (sent w' @ rest) r \<longrightarrow> (\<exists>r'. read_packets rd (length ps) r = (r', Inr (map snd ps)))"
    unfolding carried_def by blast
  from w(2) rd [rule_format, of "[]" r] obtain r' where "read_packets rd (length ps) r = (r', Inr (map snd ps))" by auto
  with w that len out show thesis by blast
qed

section \<open>What the other end makes of a connection\<close>

text \<open>The reader of an accepted gRPC call, and that of the connector's call.\<close>

definition grpc_udp_accepted :: "string \<Rightarrow> udp_req grpc_event list \<Rightarrow> udp_req udp_reader \<Rightarrow> bool" where
  "grpc_udp_accepted pw evs r \<longleftrightarrow> (\<exists>w. r = fst (grpc_udp_socket (evs, w, pw)))"

definition grpc_udp_opened :: "'v connector_cfg \<Rightarrow> udp_res grpc_event list \<Rightarrow> grpc_udp_client_reader \<Rightarrow> bool" where
  "grpc_udp_opened cfg evs r \<longleftrightarrow> (\<exists>src w. grpc_udp_open (Inr evs) src cfg = Inr (Some (r, w)))"

text \<open>The reader that the framed TCP listener makes of a connection that announced UDP, and the connector's.\<close>

definition pb_udp_accepted :: "'k crypto \<Rightarrow> string \<Rightarrow> bytes \<Rightarrow> pb_udp_server_reader \<Rightarrow> bool" where
  "pb_udp_accepted cry pw bs r \<longleftrightarrow> (\<exists>h w u. tcp_clean h \<and> tcp_pending h = bs
     \<and> pb_conn_dispatch cry pw h w = Some (UDPSocket u) \<and> r = fst (pb_udp_socket u))"

definition pb_udp_opened :: "'v connector_cfg \<Rightarrow> bytes \<Rightarrow> pb_udp_client_reader \<Rightarrow> bool" where
  "pb_udp_opened cfg bs r \<longleftrightarrow> (\<exists>rx w. rx_clean rx \<and> rx_pending rx = bs \<and> pb_udp_open (\<lambda>_. Inr rx) cfg = Inr (r, w))"

text \<open>The reader that the reverse server hands to the pending call a connection named.\<close>

definition rev_udp_handed :: "rev_udp_req grpc_event list \<Rightarrow> rev_udp_req udp_reader \<Rightarrow> bool" where
  "rev_udp_handed evs r \<longleftrightarrow> (\<exists>sd sd' x n t. rev_udp evs sd = (sd', x)
     \<and> (\<forall>m t. rd_tasks sd m = Some t \<longrightarrow> rt_slot t = Unsent)
     \<and> rd_tasks sd' n = Some t \<and> rt_slot t = Delivered (r, open_sender))"

lemma grpc_udp_accepted_iff: "grpc_udp_accepted pw evs r \<longleftrightarrow> r = \<lparr>ud_events = evs, ud_auth = pw\<rparr>"
  by (simp add: grpc_udp_accepted_def grpc_udp_socket_def grpc_udp_server_reader_new_def)

lemma grpc_udp_opened_ex: "cc_pw cfg = Some pw \<Longrightarrow> \<exists>r. grpc_udp_opened cfg evs r"
  by (auto simp: grpc_udp_opened_def grpc_udp_open_def grpc_udp_tunnel_def)

lemma grpc_udp_opened_reader: "grpc_udp_opened cfg evs r \<Longrightarrow> gcr_reader r = evs"
  by (cases "cc_pw cfg") (auto simp: grpc_udp_opened_def grpc_udp_open_def grpc_udp_tunnel_def grpc_udp_client_reader_new_def)

lemma pb_udp_accepted_reader:
  assumes "pb_udp_accepted cry pw (CONN_TYPE_UDP # bs) r"
  shows "tcp_clean (psr_reader r) \<and> tcp_pending (psr_reader r) = bs \<and> psr_auth r = pw \<and> psr_pw r = pw"
proof -
  from assms obtain h w u where h: "tcp_clean h" "tcp_pending h = CONN_TYPE_UDP # bs"
    and u: "pb_conn_dispatch cry pw h w = Some (UDPSocket u)" "r = fst (pb_udp_socket u)"
    by (auto simp: pb_udp_accepted_def)
  from conn_type_read [OF h] obtain h' where "read_conn_type tcp_half_read h = (h', Inr CONN_TYPE_UDP)"
    "tcp_pending h' = bs" "tcp_clean h'" by blast
  with u show ?thesis
    by (auto simp: pb_conn_dispatch_def pb_udp_socket_def pb_udp_server_reader_new_def split: if_splits)
qed

lemma pb_udp_accepted_ex: "\<exists>r. pb_udp_accepted cry pw (CONN_TYPE_UDP # bs) r"
proof -
  let ?h = "fst (tcp_split (tcp_run_stream_new [Segment (CONN_TYPE_UDP # bs)]))"
  have h: "tcp_clean ?h" "tcp_pending ?h = CONN_TYPE_UDP # bs"
    by (simp_all add: tcp_split_def tcp_run_stream_new_def tcp_clean_def tcp_pending_def)
  from conn_type_read [OF this] obtain h' where "read_conn_type tcp_half_read ?h = (h', Inr CONN_TYPE_UDP)" by blast
  then have "pb_conn_dispatch cry pw ?h w = Some (UDPSocket (h', w, pw))" for w
    by (simp add: pb_conn_dispatch_def CONN_TYPE_UDP_def CONN_TYPE_STREAM_def)
  with h show ?thesis unfolding pb_udp_accepted_def by blast
qed

lemma pb_udp_opened_ex:
  assumes "pb_udp_open dial cfg = Inr p"
  shows "\<exists>r. pb_udp_opened cfg bs r"
  using assms
  by (auto simp: pb_udp_opened_def pb_udp_open_def pb_tcp_udp_tunnel_def io_bind_eq_Inr tcp_split_def
      tcp_run_stream_new_def write_conn_type_def tcp_half_write_def intro!: exI [of _ "[Segment bs]"])

lemma pb_udp_opened_reader:
  assumes "pb_udp_opened cfg bs r" and "cc_pw cfg = Some pw"
  shows "tcp_clean (pcr_reader r) \<and> tcp_pending (pcr_reader r) = bs \<and> pcr_pw r = pw"
  using assms
  by (auto simp: pb_udp_opened_def pb_udp_open_def pb_tcp_udp_tunnel_def io_bind_eq_Inr tcp_split_def
      tcp_run_stream_new_def tcp_clean_def tcp_pending_def pb_udp_client_reader_new_def write_conn_type_def
      tcp_half_write_def)

lemma rev_udp_handed_reader:
  assumes "rev_udp_handed (GMsg first # evs) r"
  shows "r = \<lparr>ud_events = evs, ud_auth = wq_auth first\<rparr>"
proof -
  from assms obtain sd sd' x n t where r: "rev_udp (GMsg first # evs) sd = (sd', x)"
    and unsent: "\<And>m t. rd_tasks sd m = Some t \<Longrightarrow> rt_slot t = Unsent"
    and t: "rd_tasks sd' n = Some t" "rt_slot t = Delivered (r, open_sender)"
    unfolding rev_udp_handed_def by blast
  from r t unsent [of n] show ?thesis
    by (auto simp: rev_udp_def Let_def deliver_def drop_tx_def upd_task_def
        split: if_splits option.splits call_phase.splits)
qed

lemma rev_udp_handed_ex:
  assumes "wq_conn_id first = Some i" and "i \<noteq> []"
  shows "\<exists>r. rev_udp_handed (GMsg first # evs) r"
proof -
  let ?sd = "sent_call 0 i 0 (Some (wq_auth first)) () rev_side_new :: udp_side"
  let ?r = "\<lparr>ud_events = evs, ud_auth = wq_auth first\<rparr>"
  have "\<exists>sd' t. rev_udp (GMsg first # evs) ?sd = (sd', Inr ()) \<and> rd_tasks sd' 0 = Some t \<and> rt_slot t = Delivered (?r, open_sender)"
    using assms by (simp add: rev_udp_def sent_call_def deliver_def upd_task_def auth_ok_def)
  moreover have "\<forall>m t. rd_tasks ?sd m = Some t \<longrightarrow> rt_slot t = Unsent"
    by (simp add: sent_call_def rev_side_new_def)
  ultimately show ?thesis unfolding rev_udp_handed_def by blast
qed

lemma pb_udp_open_writer:
  assumes "pb_udp_open dial cfg = Inr (rd, wr)" and "cc_pw cfg = Some pw"
  shows "tw_err (pcw_writer wr) = None \<and> tw_tx (pcw_writer wr) = [CONN_TYPE_UDP] \<and> pcw_auth wr = pw \<and> pcw_pw wr = pw"
  using assms
  by (auto simp: pb_udp_open_def pb_tcp_udp_tunnel_def io_bind_eq_Inr tcp_split_def tcp_run_stream_new_def
      write_conn_type_def tcp_half_write_def pb_udp_client_writer_new_def)

text \<open>The association that the reverse tunnel's listener hands over for a request.\<close>

lemma rev_udp_handed_over:
  assumes "handle_manage_req calls auth False req q = Some (q', Inr (Inr ()))" and "aq_udps q' = aq_udps q @ [u]"
  shows "rcw_auth (snd (rev_udp_socket u)) = auth
    \<and> rcw_writer (snd (rev_udp_socket u)) = \<lparr>sd_sent = [rev_udp_first auth req], sd_closed = None\<rparr>"
  using assms
  by (auto simp: handle_manage_req_def rev_udp_socket_def rev_udp_client_writer_new_def send_udp_def send_stream_def
      split: sum.splits if_splits)

section \<open>The six directions\<close>

lemma open_sender_simps [simp]:
  "sd_closed (open_sender :: 'm sender) = None" "sent_events (open_sender :: 'm sender) = []"
  by (simp_all add: open_sender_def sent_events_def)

lemma grpc_up_carried:
  assumes "gcw_writer w = open_sender" and "gcw_auth w = pw"
  shows "carried grpc_udp_client_run_write grpc_udp_server_read (\<lambda>w. sent_events (gcw_writer w)) (grpc_udp_accepted pw) ps w"
  unfolding grpc_udp_client_run_write_def
proof (rule carriedI)
  show "delivers (\<lambda>x p. through gcw_writer (\<lambda>w s. s\<lparr>gcw_writer := w\<rparr>) (\<lambda>s. grpc_udp_client_write (gcw_auth s) x p))
      grpc_udp_server_read (\<lambda>w. sent_events (gcw_writer w)) ud_events (\<lambda>r. ud_auth r = pw) ps w"
    by (rule gcw.delivers_write [where wr = grpc_udp_client_write])
      (simp add: assms, rule grpc_up.packets_delivered, auto)
qed (simp_all add: assms grpc_udp_accepted_iff)

lemma grpc_down_carried:
  "cc_pw cfg = Some pw \<Longrightarrow> carried grpc_udp_server_write grpc_udp_client_run_read sent_events (grpc_udp_opened cfg) ps open_sender"
  unfolding grpc_udp_client_run_read_def
proof (rule carriedI)
  have "delivers grpc_udp_server_write grpc_udp_client_read sent_events (\<lambda>r. r) (\<lambda>_. True) ps open_sender"
    by (rule grpc_down.packets_delivered) auto
  then show "delivers grpc_udp_server_write (through gcr_reader (\<lambda>r s. s\<lparr>gcr_reader := r\<rparr>) (\<lambda>s. grpc_udp_client_read))
      sent_events gcr_reader (\<lambda>s. True \<and> () = ()) ps open_sender"
    by (rule gcr.delivers_read [where rd = "\<lambda>_. grpc_udp_client_read" and k = "()"])
qed (auto dest: grpc_udp_opened_reader grpc_udp_opened_ex)

lemma pb_up_carried:
  assumes "tw_err (pcw_writer w) = None" and "tw_tx (pcw_writer w) = [CONN_TYPE_UDP]" and "pcw_auth w = pw" and "pcw_pw w = pw"
    and "\<forall>(x, p) \<in> set ps. pb_req_sendable enc dec cry pw pw x p"
  shows "carried (pb_udp_client_run_write enc cry) (pb_udp_server_run_read dec cry) (\<lambda>w. tw_tx (pcw_writer w))
    (pb_udp_accepted cry pw) ps w"
  unfolding pb_udp_client_run_write_def pb_udp_server_run_read_def
proof (rule carriedI)
  have "delivers (pb_udp_client_write enc cry pw pw) (pb_udp_server_read dec cry pw pw) tw_tx tcp_pending tcp_clean ps (pcw_writer w)"
    by (rule pb_up.packets_delivered) (simp_all add: assms(1,5))
  then have "delivers (pb_udp_client_write enc cry pw pw)
      (through psr_reader (\<lambda>r s. s\<lparr>psr_reader := r\<rparr>) (\<lambda>s. pb_udp_server_read dec cry (psr_auth s) (psr_pw s)))
      tw_tx (\<lambda>s. tcp_pending (psr_reader s)) (\<lambda>s. tcp_clean (psr_reader s) \<and> (psr_auth s, psr_pw s) = (pw, pw)) ps (pcw_writer w)"
    by (rule psr.delivers_read [where rd = "\<lambda>k. pb_udp_server_read dec cry (fst k) (snd k)" and k = "(pw, pw)", simplified fst_conv snd_conv])
  then show "delivers (\<lambda>x p. through pcw_writer (\<lambda>w s. s\<lparr>pcw_writer := w\<rparr>)
        (\<lambda>s. pb_udp_client_write enc cry (pcw_auth s) (pcw_pw s) x p))
      (through psr_reader (\<lambda>r s. s\<lparr>psr_reader := r\<rparr>) (\<lambda>s. pb_udp_server_read dec cry (psr_auth s) (psr_pw s)))
      (\<lambda>w. tw_tx (pcw_writer w)) (\<lambda>s. tcp_pending (psr_reader s))
      (\<lambda>s. tcp_clean (psr_reader s) \<and> (psr_auth s, psr_pw s) = (pw, pw)) ps w"
    using pcw.delivers_write [where wr = "\<lambda>k. pb_udp_client_write enc cry (fst k) (snd k)" and w = w] assms(3,4) by simp
qed (auto simp: assms(2) pb_udp_accepted_ex dest: pb_udp_accepted_reader)

lemma pb_down_carried:
  assumes "tw_err (psw_writer w) = None" and "tw_tx (psw_writer w) = []" and "psw_pw w = pw" and "cc_pw cfg = Some pw"
    and "\<forall>(x, p) \<in> set ps. pb_res_sendable enc dec cry pw x p" and "pb_udp_open dial cfg = Inr c"
  shows "carried (pb_udp_server_run_write enc cry) (pb_udp_client_run_read dec cry) (\<lambda>w. tw_tx (psw_writer w))
    (pb_udp_opened cfg) ps w"
  unfolding pb_udp_server_run_write_def pb_udp_client_run_read_def
proof (rule carriedI)
  have "delivers (pb_udp_server_write enc cry pw) (pb_udp_client_read dec cry pw) tw_tx tcp_pending tcp_clean ps (psw_writer w)"
    by (rule pb_down.packets_delivered) (simp_all add: assms(1,5))
  then have "delivers (pb_udp_server_write enc cry pw)
      (through pcr_reader (\<lambda>r s. s\<lparr>pcr_reader := r\<rparr>) (\<lambda>s. pb_udp_client_read dec cry (pcr_pw s)))
      tw_tx (\<lambda>s. tcp_pending (pcr_reader s)) (\<lambda>s. tcp_clean (pcr_reader s) \<and> pcr_pw s = pw) ps (psw_writer w)"
    by (rule pcr.delivers_read [where rd = "pb_udp_client_read dec cry" and k = pw])
  then show "delivers (\<lambda>x p. through psw_writer (\<lambda>w s. s\<lparr>psw_writer := w\<rparr>)
        (\<lambda>s. pb_udp_server_write enc cry (psw_pw s) x p))
      (through pcr_reader (\<lambda>r s. s\<lparr>pcr_reader := r\<rparr>) (\<lambda>s. pb_udp_client_read dec cry (pcr_pw s)))
      (\<lambda>w. tw_tx (psw_writer w)) (\<lambda>s. tcp_pending (pcr_reader s)) (\<lambda>s. tcp_clean (pcr_reader s) \<and> pcr_pw s = pw) ps w"
    using psw.delivers_write [where wr = "pb_udp_server_write enc cry" and w = w] assms(3) by simp
qed (use pb_udp_opened_reader [OF _ assms(4)] pb_udp_opened_ex [OF assms(6)] in \<open>auto simp: assms(2)\<close>)

lemma rev_up_carried:
  assumes "rcw_writer w = \<lparr>sd_sent = [first], sd_closed = None\<rparr>" and "rcw_auth w = wq_auth first"
    and "wq_conn_id first = Some i" and "i \<noteq> []"
  shows "carried rev_udp_client_run_write rev_udp_server_read (\<lambda>w. sent_events (rcw_writer w)) rev_udp_handed ps w"
  unfolding rev_udp_client_run_write_def
proof (rule carriedI)
  show "delivers (\<lambda>x p. through rcw_writer (\<lambda>w s. s\<lparr>rcw_writer := w\<rparr>) (\<lambda>s. rev_udp_client_write (rcw_auth s) x p))
      rev_udp_server_read (\<lambda>w. sent_events (rcw_writer w)) ud_events (\<lambda>r. ud_auth r = rcw_auth w) ps w"
    by (rule rcw.delivers_write [where wr = rev_udp_client_write], rule rev_up.packets_delivered) (auto simp: assms)
qed (auto simp: assms sent_events_def rev_udp_handed_ex [OF assms(3,4)] dest!: rev_udp_handed_reader)

lemma rev_down_carried:
  "carried rev_udp_server_write rev_udp_client_read sent_events (\<lambda>evs r. r = evs) ps open_sender"
  by (rule carriedI [OF rev_down.packets_delivered]) auto

section \<open>Properties\<close>

text \<open>C24: The UDP tunnels from end to end, over gRPC, over framed TCP and through the reverse tunnel, in both
  directions, with one password at both ends: packets written to what \<open>udp_tunnel\<close> returned (for the
  reverse tunnel: to what the listener made of a request) are read back, unchanged and in order, by the
  reader that the other end makes of any connection which delivers what was sent, its announcement or first
  message included; and so are packets written at the accepting end, by the reader that the opening end has.
  In each direction there is such a reader.\<close>

theorem udp_tunnels_connect:
  assumes grpc: "cc_pw cfg = Some pw" "grpc_udp_open (Inr resp) src cfg = Inr (Some (gr, gw))"
    and pb: "pb_udp_open dial cfg = Inr (pr, fw)"
      "\<forall>(x, p) \<in> set ps5. pb_req_sendable enc dec cry pw pw x p" "\<forall>(x, p) \<in> set ps6. pb_res_sendable enc' dec' cry pw x p"
    and rev: "handle_manage_req calls pw False req q = Some (q', Inr (Inr ()))" "aq_udps q' = aq_udps q @ [u]"
      "ms_conn_id req = Some i" "i \<noteq> []"
  shows "carried grpc_udp_client_run_write grpc_udp_server_read (\<lambda>w. sent_events (gcw_writer w))
        (grpc_udp_accepted pw) ps gw
    \<and> carried grpc_udp_server_write grpc_udp_client_run_read sent_events
        (grpc_udp_opened cfg) ps (snd (grpc_udp_socket (evs, open_sender, pw)))
    \<and> carried (pb_udp_client_run_write enc cry) (pb_udp_server_run_read dec cry) (\<lambda>w. tw_tx (pcw_writer w))
        (pb_udp_accepted cry pw) ps5 fw
    \<and> carried (pb_udp_server_run_write enc' cry) (pb_udp_client_run_read dec' cry) (\<lambda>w. tw_tx (psw_writer w))
        (pb_udp_opened cfg) ps6 (snd (pb_udp_socket (h, \<lparr>tw_tx = [], tw_err = None\<rparr>, pw)))
    \<and> carried rev_udp_client_run_write rev_udp_server_read (\<lambda>w. sent_events (rcw_writer w))
        rev_udp_handed ps (snd (rev_udp_socket u))
    \<and> carried rev_udp_server_write rev_udp_client_read sent_events (\<lambda>evs r. r = evs) ps open_sender"
proof (intro conjI)
  have gw: "gcw_writer gw = open_sender" "gcw_auth gw = pw"
    using grpc by (auto simp: grpc_udp_open_def grpc_udp_tunnel_def grpc_udp_client_writer_new_def)
  then show "carried grpc_udp_client_run_write grpc_udp_server_read (\<lambda>w. sent_events (gcw_writer w)) (grpc_udp_accepted pw) ps gw"
    by (rule grpc_up_carried)
  show "carried grpc_udp_server_write grpc_udp_client_run_read sent_events (grpc_udp_opened cfg) ps
      (snd (grpc_udp_socket (evs, open_sender, pw)))"
    by (simp add: grpc_udp_socket_def grpc_down_carried [OF grpc(1)])
  show "carried (pb_udp_client_run_write enc cry) (pb_udp_server_run_read dec cry) (\<lambda>w. tw_tx (pcw_writer w))
        (pb_udp_accepted cry pw) ps5 fw"
    using pb_udp_open_writer [OF pb(1) grpc(1)] pb(2) by (intro pb_up_carried) simp_all
  show "carried (pb_udp_server_run_write enc' cry) (pb_udp_client_run_read dec' cry) (\<lambda>w. tw_tx (psw_writer w))
        (pb_udp_opened cfg) ps6 (snd (pb_udp_socket (h, \<lparr>tw_tx = [], tw_err = None\<rparr>, pw)))"
    by (rule pb_down_carried [OF _ _ _ grpc(1) pb(3,1)]) (simp_all add: pb_udp_socket_def pb_udp_server_writer_new_def)
  show "carried rev_udp_client_run_write rev_udp_server_read (\<lambda>w. sent_events (rcw_writer w))
        rev_udp_handed ps (snd (rev_udp_socket u))"
    by (rule rev_up_carried [OF _ _ _ rev(4), of _ "rev_udp_first pw req"])
      (simp_all add: rev_udp_handed_over [OF rev(1,2)] rev_udp_first_def rev(3))
  show "carried rev_udp_server_write rev_udp_client_read sent_events (\<lambda>evs r. r = evs) ps open_sender"
    by (rule rev_down_carried)
qed

definition demo_ask :: manager_res where
  "demo_ask = \<lparr>ms_addr_info = None, ms_udp = Some 1, ms_conn_id = Some ''i''\<rparr>"

lemma udp_tunnels_connect_witness:
  "\<exists>gr gw gw' g g' pr fw fw' f f' q' u rw' v v'.
       grpc_udp_open (Inr []) ''s:1'' demo_connector = Inr (Some (gr, gw))
     \<and> write_packets grpc_udp_client_run_write [((), demo_packet)] gw = (gw', Inr ())
     \<and> grpc_udp_accepted ''pw'' (sent_events (gcw_writer gw')) g
     \<and> read_packets grpc_udp_server_read 1 g = (g', Inr [demo_packet])
     \<and> pb_udp_open (\<lambda>_. Inr []) demo_connector = Inr (pr, fw)
     \<and> write_packets (pb_udp_client_run_write enc_udp_req toy_crypto)
         [(((replicate 12 0, replicate 12 0, replicate 12 0, replicate 12 0), 7), demo_packet)] fw = (fw', Inr ())
     \<and> pb_udp_accepted toy_crypto ''pw'' (tw_tx (pcw_writer fw')) f
     \<and> read_packets (pb_udp_server_run_read dec_udp_req toy_crypto) 1 f = (f', Inr [demo_packet])
     \<and> handle_manage_req \<lparr>rc_stream = \<lambda>_. Inl ''no'', rc_udp = \<lambda>_. Inr []\<rparr> ''pw'' False demo_ask acc_queues_new
         = Some (q', Inr (Inr ()))
     \<and> aq_udps q' = [u]
     \<and> write_packets rev_udp_client_run_write [((), demo_packet)] (snd (rev_udp_socket u)) = (rw', Inr ())
     \<and> rev_udp_handed (sent_events (rcw_writer rw')) v
     \<and> read_packets rev_udp_server_read 1 v = (v', Inr [demo_packet])"
proof -
  let ?n = "replicate 12 0" and ?calls = "\<lparr>rc_stream = \<lambda>_. Inl ''no'', rc_udp = \<lambda>_. Inr []\<rparr>"
  let ?up = "[(((?n, ?n, ?n, ?n), 7), demo_packet)]"
  have pw: "cc_pw demo_connector = Some ''pw''" by (simp add: demo_connector_def)
  have "\<exists>gr gw. grpc_udp_open (Inr []) ''s:1'' demo_connector = Inr (Some (gr, gw))"
    by (simp add: grpc_udp_open_def grpc_udp_tunnel_def pw)
  then obtain gr gw where g: "grpc_udp_open (Inr []) ''s:1'' demo_connector = Inr (Some (gr, gw))" by blast
  have "\<exists>pr fw. pb_udp_open (\<lambda>_. Inr []) demo_connector = Inr (pr, fw)"
    by (simp add: pb_udp_open_def pb_tcp_udp_tunnel_def demo_connector_def tcp_split_def tcp_run_stream_new_def
        write_conn_type_def tcp_half_write_def)
  then obtain pr fw where f: "pb_udp_open (\<lambda>_. Inr []) demo_connector = Inr (pr, fw)" by blast
  have "\<exists>q' u. handle_manage_req ?calls ''pw'' False demo_ask acc_queues_new = Some (q', Inr (Inr ()))
      \<and> aq_udps q' = aq_udps (acc_queues_new :: rev_queues) @ [u]"
    by (simp add: handle_manage_req_def demo_ask_def Let_def send_udp_def acc_queues_new_def queue_cap_def)
  then obtain q' u where h: "handle_manage_req ?calls ''pw'' False demo_ask acc_queues_new = Some (q', Inr (Inr ()))"
    "aq_udps q' = aq_udps (acc_queues_new :: rev_queues) @ [u]" by blast
  have i: "ms_conn_id demo_ask = Some ''i''" and ne: "''i'' \<noteq> []" by (simp_all add: demo_ask_def)
  have t: "text_ok ''pw''" "packet_ok demo_packet"
    unfolding packet_ok_def text_ok_def demo_packet_def by (simp, code_simp)+
  have rq: "\<forall>(x, p) \<in> set ?up. pb_req_sendable enc_udp_req dec_udp_req toy_crypto ''pw'' ''pw'' x p"
    using t toy_crypto_ok [unfolded toy_crypto_def] by (auto simp: pb_req_sendable_def codec_udp_req nonce_len_def pb_udp_seal_req_def
        udp_req_from_packet_def demo_packet_def opt_field_def opt_bytes_def encrypt_field_def
        encrypt_bytes_def toy_crypto_def enc_udp_req_def put_str_def put_u32_def max_frame_def Let_def)
  have rs: "\<forall>(x, p) \<in> set []. pb_res_sendable enc_udp_res dec_udp_res toy_crypto ''pw'' x p" by simp
  note c = udp_tunnels_connect [OF pw g f rq rs h i ne, of "[((), demo_packet)]"]
  from conjunct1 [OF c] obtain gw' g1 g' where "write_packets grpc_udp_client_run_write [((), demo_packet)] gw = (gw', Inr ())"
    "grpc_udp_accepted ''pw'' (sent_events (gcw_writer gw')) g1" "read_packets grpc_udp_server_read 1 g1 = (g', Inr [demo_packet])"
    by (rule carriedD [where n = 1 and qs = "[demo_packet]"]) (simp_all del: read_packets.simps write_packets.simps)
  moreover from conjunct1 [OF conjunct2 [OF conjunct2 [OF c]]] obtain fw' f1 f' where "write_packets (pb_udp_client_run_write enc_udp_req toy_crypto) ?up fw = (fw', Inr ())"
    "pb_udp_accepted toy_crypto ''pw'' (tw_tx (pcw_writer fw')) f1"
    "read_packets (pb_udp_server_run_read dec_udp_req toy_crypto) 1 f1 = (f', Inr [demo_packet])"
    by (rule carriedD [where n = 1 and qs = "[demo_packet]"]) (simp_all del: read_packets.simps write_packets.simps)
  moreover from conjunct1 [OF conjunct2 [OF conjunct2 [OF conjunct2 [OF conjunct2 [OF c]]]]] obtain rw' v v' where
    "write_packets rev_udp_client_run_write [((), demo_packet)] (snd (rev_udp_socket u)) = (rw', Inr ())"
    "rev_udp_handed (sent_events (rcw_writer rw')) v" "read_packets rev_udp_server_read 1 v = (v', Inr [demo_packet])"
    by (rule carriedD [where n = 1 and qs = "[demo_packet]"]) (simp_all del: read_packets.simps write_packets.simps)
  moreover have "aq_udps q' = [u]" using h(2) by (simp add: acc_queues_new_def)
  ultimately show ?thesis using g f h(1) by blast
qed

end
