(* ===== verification/Spec2Isabelle.thy ===== *)
theory Spec2Isabelle
  imports Program Framed_Chain Tunnel_Listener Grpc_Listener Rev_Listener Udp_Tunnel Demo_Codec
begin

text \<open>
  Verification development for \<open>rog\<close>, a multi-protocol proxy written in Rust.

  \<^bold>\<open>The program.\<close>  \<open>src/main.rs\<close> reads a TOML configuration and starts one object for each listener
  (\<open>src/object.rs\<close>).  An object accepts connections from its listener (\<open>src/listener/\<close>: SOCKS5, HTTP, both
  on one port, gRPC, framed protobuf over TCP, reverse gRPC), performs the handshake, which gives
  the address the client wants, asks the router (\<open>src/router/\<close>) for the name of a connector, connects
  through it (\<open>src/connector/\<close>: direct, blocking, gRPC, framed TCP, reverse gRPC) and relays bytes
  between the two streams (\<open>src/object/tcp.rs\<close>, optionally through the buffer pool of \<open>src/block.rs\<close>) or
  packets (\<open>src/object/udp.rs\<close>, \<open>src/object/raw_udp.rs\<close>).  Streams over a tunnel are in \<open>src/stream/\<close>.

  \<^bold>\<open>The theories\<close>, in the order of their imports, and what they model:

  \<^item> \<open>Prelude\<close>: bytes, faults (errors and panics as values of one type), results, operations on a
    state; \<open>Rust_Std\<close>, \<open>Std_Net\<close>: the parts of the standard library the program computes with (UTF-8,
    numbers, splitting, IP and socket addresses).
  \<^item> \<open>Run_Def\<close>: \<open>src/def.rs\<close> and \<open>RunAddr\<close> of \<open>src/util.rs\<close>; UDP packets and their SOCKS5 form; \<open>read_exact\<close>.  Its
    locales \<open>byte_stream\<close>, \<open>eof_stream\<close> and \<open>live_stream\<close> are the contract of a reader.  \<open>Tcp_Stream\<close>:
    \<open>src/stream/tcp.rs\<close>, which interprets them.
  \<^item> \<open>Socks5\<close>: \<open>src/util/socks5/\<close>.  Its locale \<open>socks5_source\<close> is what the parsers need of their input; the byte
    parser interprets it and every live stream is one (\<open>sublocale\<close>).
  \<^item> \<open>Block\<close>: \<open>src/block.rs\<close>, as a step machine over all blocks, their producers, consumers and drops.
  \<^item> \<open>Relay\<close>: \<open>src/object/tcp.rs\<close>, as step relations over its two or four tasks and the cancellation
    token.  Locales \<open>byte_sink\<close> (a writer) and \<open>relay_path\<close> (a reader into a writer).
  \<^item> \<open>Tcp_Frame\<close>, \<open>Crypto\<close>, \<open>Proto\<close>: \<open>src/util/tcp_frame.rs\<close>, \<open>src/util/crypto.rs\<close>, the messages of \<open>proto/\<close> with
    the conversions of \<open>src/proto/v1.rs\<close>.  \<open>Demo_Codec\<close>: an encoding that satisfies what the others assume
    of protobuf.
  \<^item> \<open>Streams\<close>: the six message streams of \<open>src/stream/\<close>.  Locale \<open>payload_source\<close>: a source of payloads; a
    cached read over one is a \<open>byte_stream\<close> (\<open>sublocale\<close>).
  \<^item> \<open>Resolver\<close> (locale \<open>name_resolver\<close>), \<open>Config\<close>, \<open>Router\<close>: \<open>src/router/resolver.rs\<close>, \<open>src/def/config.rs\<close> with
    \<open>src/object/config.rs\<close> and \<open>src/util/parse.rs\<close>, and the rest of \<open>src/router/\<close> with \<open>src/router.rs\<close>.
  \<^item> \<open>Socks5_Acceptor\<close>, \<open>Http_Proxy\<close>: \<open>src/listener/socks5.rs\<close>, \<open>tcp.rs\<close>, \<open>http.rs\<close>, \<open>htss5.rs\<close>.
  \<^item> \<open>Tunnel\<close>: the direct, blocking, gRPC and framed TCP connectors and the listeners of the last two.
  \<^item> \<open>Accept_Queue\<close>: what the three tunnel listeners share, a task that sends over two channels and an
    \<open>accept\<close> that takes from either.  \<open>queue_move\<close> is its specification; the locale \<open>accept_task\<close> says that a step
    relation implements it, and is interpreted by the step machines of \<open>Tunnel_Listener\<close> (framed TCP),
    \<open>Grpc_Listener\<close> (with the handlers of the gRPC service) and \<open>Rev_Listener\<close> (reverse gRPC).
  \<^item> \<open>Udp_Streams\<close> (locale \<open>packet_channel\<close>: a packet written is read back), \<open>Udp_Socket\<close>: the UDP readers and
    writers of the tunnels and of sockets.
  \<^item> \<open>Rev_Grpc\<close>, \<open>Rev_Client\<close>: the two ends of the reverse tunnel, \<open>src/connector/rev_grpc.rs\<close> as a step
    machine over its shared tables, and \<open>src/listener/rev_grpc.rs\<close>.
  \<^item> \<open>Dispatch\<close>: \<open>src/object.rs\<close>, \<open>src/connector.rs\<close>, \<open>src/listener.rs\<close>: what is created from the configuration
    and what is done with one connection.  \<open>Packet_Relay\<close>: the two UDP relays.
  \<^item> \<open>Program\<close>: the start of the program, the steps of its objects, the end of \<open>main\<close>;
    \<open>src/util/grpc_transport.rs\<close>.
  \<^item> \<open>Proxy_Chain\<close>, \<open>Framed_Chain\<close>: two proxies with a gRPC tunnel, or an encrypted framed TCP tunnel, between
    them.  Locale \<open>chunk_path\<close>: a relay into a writer that is only good for chunks that fit a frame; every
    \<open>relay_path\<close> is one (\<open>sublocale\<close>).  \<open>Udp_Tunnel\<close>: a UDP association over each tunnel, from what makes its two
    ends to the packets it carries; locale \<open>io_field\<close>: an operation on one field of a structure.

  \<^bold>\<open>How code becomes definitions.\<close>  A structure is a record, an enum a datatype, \<open>u8\<close>, \<open>u16\<close>, \<open>u32\<close>, \<open>u64\<close> are words
  with their wrap-around; a \<open>String\<close> is the list of its bytes as characters.  A fallible operation returns
  \<open>fault + 'a\<close>: \<open>IoError\<close> is \<open>std::io::Error\<close> with its kind and message, \<open>Panic\<close> a panic, which ends the task
  it happens in.  An operation on mutable state takes the state and returns it.  Concurrent tasks are step
  relations: one step is what a task does between two points where it can be interrupted, so that
  every order of locks, wakes and cancellations of the tasks is an execution.  What the program gets
  from its environment (network data, clocks, nonces, random numbers, uuids) is an argument, or
  chosen by the step that uses it.

  \<^bold>\<open>What the lemmas show.\<close>
  \<^item> The buffer pool: the counter is exact and the memory bounded, each queue is first in first out,
    no wake-up of a block's tasks is lost, and \<open>inner_provide\<close> is what the atomic steps add up to.
  \<^item> Relays: what a sink got is always a prefix of what the source had, in order, and all of it at
    the end of the source; a direction completes when its source does.  With a pool the end of the
    source can lose what is still queued.  The same for packets, where empty packets are dropped.
    A UDP association ends within two steps of its first ended task.
  \<^item> Codecs: frames, encryption, SOCKS5 requests and UDP headers are read back as written, also when
    cut anywhere by the network; the two SOCKS5 parsers agree; frames are bounded.
  \<^item> Tunnels: both ends agree on host and port, the password is required, the payload streams of
    all six stream types deliver the written bytes, and two proxies in a row are transparent, over
    gRPC and over framed TCP.  The listeners hand every stream and association over once, in order,
    and an answered call was handed over.  Calls
    of the reverse tunnel only reach connections that asked for them with the right password, and
    its tables hold exactly what is pending.
  \<^item> Routing: the first rule that matches selects, route data means what its lines mean, an answer
    of the resolver is one of its servers within the time the cache allows.
  \<^item> The program: a connection is relayed through the connector the router named, after its
    handshake and confirmation; a SOCKS5 client is served from its first byte to its last; every
    reachable state of the program is well formed; \<open>buffer_size\<close> bounds the queued data; a listener
    that cannot be created ends the program.

  \<^bold>\<open>Bounds and fuel.\<close>  The relays and the pool are relations, so they need no fuel.  Loops are
  recursive functions with a proved measure (\<open>read_exact_loop\<close>, \<open>fill_loop\<close>, the splitting of strings, the
  frames of a byte string); \<open>grpc_try\<close> counts the three attempts of the source down.  The pool theorems
  assume fewer than \<open>2 ^ 64\<close> blocks over all connections, where the counter would wrap around, and
  the encryption theorems fields shorter than \<open>2 ^ 32\<close> bytes, within the limit of ChaCha20.

  \<^bold>\<open>Hypotheses on libraries.\<close>  \<open>codec_ok\<close>: protobuf decodes what it encoded.  \<open>crypto_ok\<close>: the cipher opens what
  it sealed, and base64 decodes what it encoded.  \<open>notify_laws\<close>: what \<open>tokio::sync::Notify\<close> documents of permits.
  \<open>net_ok\<close>: a CIDR block contains the addresses of its prefix.  Each is shown to hold of a concrete instance
  in a witness.

  \<^bold>\<open>Not modelled.\<close>  The gRPC transport and the servers of tonic (calls arrive as lists of events), TLS, TOML
  parsing, regular expressions, floating point and the HTTP client of the router are arguments.  Logging,
  the observation registry (\<open>proxy_observe\<close>, of which only the reported lengths are kept), TCP options
  and keep-alive settings, and the unit tests (\<open>src/test.rs\<close>, \<open>src/test_tcp_buffer.rs\<close>, \<open>src/router/test.rs\<close>,
  \<open>src/router/matcher/test.rs\<close>) are left out; so is the commented-out code of \<open>src/listener/grpc.rs\<close>.
  Timeouts are steps that may happen at any time.
\<close>

end
